(* ===== verification/R9_Prelude.thy ===== *)
theory R9_Prelude
  imports Main "HOL-Library.Word"
begin

text \<open>
  Shared vocabulary of the development: the machine integers of the kernel, Rust's panics as
  values, the checked arithmetic of a debug build, and the generic lemmas on words, lists and
  results that every component uses.

  The named collections are
  \<^item> \<open>rust_simps\<close>: characterisations of the panic monad and of the checked operations;
  \<^item> \<open>unat_simps\<close>: how \<open>unat\<close> commutes with the operations that did not overflow.
\<close>

unbundle bit_operations_syntax

named_theorems rust_simps
named_theorems unat_simps

section \<open>Machine integers\<close>

type_synonym u8 = "8 word"
type_synonym u16 = "16 word"
type_synonym u32 = "32 word"
type_synonym u64 = "64 word"

text \<open>Every supported target (aarch64, riscv64, x86\_64) has 64-bit pointers.\<close>

type_synonym usize = "64 word"

section \<open>Panics as values\<close>

datatype panic =
    Arith_Overflow
  | Div_By_Zero
  | Index_Out_Of_Bounds
  | Assertion_Failed
  | Unwrap_Failed
  | Not_Implemented
  | Undefined_Behaviour

text \<open>
  A call either panics (\<open>Inl\<close>) or returns (\<open>Inr\<close>).  \<open>Undefined_Behaviour\<close> is not a
  panic of the language: it marks an access through a raw pointer to memory that does not hold
  such a value.
\<close>

type_synonym 'a rust = "panic + 'a"

definition bind_r :: "'a rust \<Rightarrow> ('a \<Rightarrow> 'b rust) \<Rightarrow> 'b rust" where
  "bind_r m f = (case m of Inl p \<Rightarrow> Inl p | Inr a \<Rightarrow> f a)"

lemma bind_r_Inl [simp]: "bind_r (Inl p) f = Inl p"
  by (simp add: bind_r_def)

lemma bind_r_Inr [simp]: "bind_r (Inr a) f = f a"
  by (simp add: bind_r_def)

lemma bind_r_eq_Inr [rust_simps]: "bind_r m f = Inr b \<longleftrightarrow> (\<exists>a. m = Inr a \<and> f a = Inr b)"
  by (cases m) auto

lemma bind_r_eq_Inl: "bind_r m f = Inl p \<longleftrightarrow> m = Inl p \<or> (\<exists>a. m = Inr a \<and> f a = Inl p)"
  by (cases m) auto

lemma bind_r_assoc: "bind_r (bind_r m f) g = bind_r m (\<lambda>a. bind_r (f a) g)"
  by (cases m) auto

lemma bind_r_cong [fundef_cong]:
  "m = m' \<Longrightarrow> (\<And>a. m' = Inr a \<Longrightarrow> f a = f' a) \<Longrightarrow> bind_r m f = bind_r m' f'"
  by (cases m') auto

text \<open>\<open>assert!\<close>, \<open>Option::unwrap\<close>/\<open>expect\<close> and slice indexing.\<close>

definition assert_r :: "bool \<Rightarrow> unit rust" where
  "assert_r b = (if b then Inr () else Inl Assertion_Failed)"

definition unwrap_r :: "'a option \<Rightarrow> 'a rust" where
  "unwrap_r x = (case x of None \<Rightarrow> Inl Unwrap_Failed | Some a \<Rightarrow> Inr a)"

definition index_r :: "'a list \<Rightarrow> nat \<Rightarrow> 'a rust" where
  "index_r xs i = (if i < length xs then Inr (xs ! i) else Inl Index_Out_Of_Bounds)"

definition update_r :: "'a list \<Rightarrow> nat \<Rightarrow> 'a \<Rightarrow> 'a list rust" where
  "update_r xs i x = (if i < length xs then Inr (xs[i := x]) else Inl Index_Out_Of_Bounds)"

lemma assert_r_eq_Inr [rust_simps]: "assert_r b = Inr u \<longleftrightarrow> b"
  by (simp add: assert_r_def)

lemma unwrap_r_eq_Inr [rust_simps]: "unwrap_r x = Inr a \<longleftrightarrow> x = Some a"
  by (simp add: unwrap_r_def split: option.splits)

lemma index_r_eq_Inr [rust_simps]: "index_r xs i = Inr x \<longleftrightarrow> i < length xs \<and> x = xs ! i"
  by (auto simp: index_r_def)

lemma update_r_eq_Inr [rust_simps]:
  "update_r xs i x = Inr ys \<longleftrightarrow> i < length xs \<and> ys = xs[i := x]"
  by (auto simp: update_r_def)

lemma assert_r_True [simp]: "assert_r True = Inr ()"
  by (simp add: assert_r_def)

lemma unwrap_r_Some [simp]: "unwrap_r (Some a) = Inr a"
  by (simp add: unwrap_r_def)

section \<open>Checked arithmetic\<close>

text \<open>
  In a debug build, the profile \<open>xtask\<close> selects unless \<open>--release\<close> is given, \<open>+\<close>,
  \<open>-\<close> and \<open>*\<close> panic when the mathematical result does not fit.
\<close>

definition add_c :: "'a::len word \<Rightarrow> 'a word \<Rightarrow> 'a word rust" where
  "add_c a b = (if uint a + uint b < 2 ^ LENGTH('a) then Inr (a + b) else Inl Arith_Overflow)"

definition sub_c :: "'a::len word \<Rightarrow> 'a word \<Rightarrow> 'a word rust" where
  "sub_c a b = (if b \<le> a then Inr (a - b) else Inl Arith_Overflow)"

definition mul_c :: "'a::len word \<Rightarrow> 'a word \<Rightarrow> 'a word rust" where
  "mul_c a b = (if uint a * uint b < 2 ^ LENGTH('a) then Inr (a * b) else Inl Arith_Overflow)"

definition div_c :: "'a::len word \<Rightarrow> 'a word \<Rightarrow> 'a word rust" where
  "div_c a b = (if b = 0 then Inl Div_By_Zero else Inr (a div b))"

definition rem_c :: "'a::len word \<Rightarrow> 'a word \<Rightarrow> 'a word rust" where
  "rem_c a b = (if b = 0 then Inl Div_By_Zero else Inr (a mod b))"

text \<open>\<open>checked_add\<close> and \<open>checked_sub\<close> return \<open>None\<close> instead.\<close>

definition checked_add :: "'a::len word \<Rightarrow> 'a word \<Rightarrow> 'a word option" where
  "checked_add a b = (if uint a + uint b < 2 ^ LENGTH('a) then Some (a + b) else None)"

definition checked_sub :: "'a::len word \<Rightarrow> 'a word \<Rightarrow> 'a word option" where
  "checked_sub a b = (if b \<le> a then Some (a - b) else None)"

lemma uint_add_fits: "uint a + uint b < 2 ^ LENGTH('a) \<longleftrightarrow> unat a + unat b < 2 ^ LENGTH('a)"
  for a b :: "'a::len word"
proof -
  have "uint a + uint b = int (unat a + unat b)" by simp
  then show ?thesis by (simp only: of_nat_less_numeral_power_cancel_iff)
qed

lemma uint_mult_fits: "uint a * uint b < 2 ^ LENGTH('a) \<longleftrightarrow> unat a * unat b < 2 ^ LENGTH('a)"
  for a b :: "'a::len word"
proof -
  have "uint a * uint b = int (unat a * unat b)" by simp
  then show ?thesis by (simp only: of_nat_less_numeral_power_cancel_iff)
qed

lemma add_c_alt:
  "add_c a b = (if unat a + unat b < 2 ^ LENGTH('a) then Inr (a + b) else Inl Arith_Overflow)"
  for a b :: "'a::len word"
  by (simp only: add_c_def uint_add_fits)

lemma mul_c_alt:
  "mul_c a b = (if unat a * unat b < 2 ^ LENGTH('a) then Inr (a * b) else Inl Arith_Overflow)"
  for a b :: "'a::len word"
  by (simp only: mul_c_def uint_mult_fits)

lemma checked_add_alt:
  "checked_add a b = (if unat a + unat b < 2 ^ LENGTH('a) then Some (a + b) else None)"
  for a b :: "'a::len word"
  by (simp only: checked_add_def uint_add_fits)

lemma add_c_eq_Inr [rust_simps]:
  "add_c a b = Inr c \<longleftrightarrow> unat a + unat b < 2 ^ LENGTH('a) \<and> c = a + b"
  for a b :: "'a::len word"
  by (auto simp: add_c_alt)

lemma sub_c_eq_Inr [rust_simps]: "sub_c a b = Inr c \<longleftrightarrow> b \<le> a \<and> c = a - b"
  by (auto simp: sub_c_def)

lemma mul_c_eq_Inr [rust_simps]:
  "mul_c a b = Inr c \<longleftrightarrow> unat a * unat b < 2 ^ LENGTH('a) \<and> c = a * b"
  for a b :: "'a::len word"
  by (auto simp: mul_c_alt)

lemma div_c_eq_Inr [rust_simps]: "div_c a b = Inr c \<longleftrightarrow> b \<noteq> 0 \<and> c = a div b"
  by (auto simp: div_c_def)

lemma rem_c_eq_Inr [rust_simps]: "rem_c a b = Inr c \<longleftrightarrow> b \<noteq> 0 \<and> c = a mod b"
  by (auto simp: rem_c_def)

lemma unat_add_no_overflow [unat_simps]:
  "unat a + unat b < 2 ^ LENGTH('a) \<Longrightarrow> unat (a + b) = unat a + unat b"
  for a b :: "'a::len word"
  using unat_add_lem by blast

lemma unat_mult_no_overflow [unat_simps]:
  "unat a * unat b < 2 ^ LENGTH('a) \<Longrightarrow> unat (a * b) = unat a * unat b"
  for a b :: "'a::len word"
  using unat_mult_lem by blast

lemma unat_sub_no_underflow [unat_simps]: "b \<le> a \<Longrightarrow> unat (a - b) = unat a - unat b"
  for a b :: "'a::len word"
  by (rule unat_sub)

text \<open>The same at the width of \<open>usize\<close>, with the bound written out.\<close>

lemma unat_add_usize: "unat a + unat b < 2 ^ 64 \<Longrightarrow> unat (a + b) = unat a + unat b"
  for a b :: usize
  by (rule unat_add_no_overflow) simp

lemma unat_mult_usize: "unat a * unat b < 2 ^ 64 \<Longrightarrow> unat (a * b) = unat a * unat b"
  for a b :: usize
  by (rule unat_mult_no_overflow) simp

lemma mul_c_usize: "unat a * unat b < 2 ^ 64 \<Longrightarrow> mul_c a b = Inr (a * b)" for a b :: usize
  by (simp add: mul_c_alt)

lemma add_c_usize: "unat a + unat b < 2 ^ 64 \<Longrightarrow> add_c a b = Inr (a + b)" for a b :: usize
  by (simp add: add_c_alt)

lemmas unat_div_mod [unat_simps] = unat_div unat_mod

lemma unat_lt_exp: "unat w < 2 ^ LENGTH('a)"
  for w :: "'a::len word"
  by simp

lemma unat_eq_iff: "a = b \<longleftrightarrow> unat a = unat b"
  for a b :: "'a::len word"
  by (simp add: word_unat_eq_iff)

text \<open>The mathematical value of a word below its modulus.\<close>

lemma unat_word_of_nat_small [unat_simps]:
  "n < 2 ^ LENGTH('a) \<Longrightarrow> unat (word_of_nat n :: 'a::len word) = n"
  by (simp add: unat_of_nat take_bit_nat_eq_self)

lemma word_of_nat_eqI: "unat w = n \<Longrightarrow> word_of_nat n = w"
  by auto

section \<open>Powers of two\<close>

text \<open>\<open>is_power_of_two\<close>: the value is \<open>2 ^ k\<close> for some \<open>k\<close>.\<close>

definition is_power_of_two :: "'a::len word \<Rightarrow> bool" where
  "is_power_of_two x = list_ex (\<lambda>k. x = 2 ^ k) [0..<LENGTH('a)]"

lemma is_power_of_two_iff:
  "is_power_of_two x \<longleftrightarrow> (\<exists>k < LENGTH('a). x = 2 ^ k)"
  for x :: "'a::len word"
  by (auto simp: is_power_of_two_def list_ex_iff)

lemma unat_pow2: "k < LENGTH('a) \<Longrightarrow> unat (2 ^ k :: 'a::len word) = 2 ^ k"
  by transfer (simp add: take_bit_eq_mod nat_mod_distrib nat_power_eq)

lemma is_power_of_twoE:
  fixes x :: "'a::len word"
  assumes "is_power_of_two x"
  obtains k where "k < LENGTH('a)" and "x = 2 ^ k" and "unat x = 2 ^ k"
  using assms unfolding is_power_of_two_iff by (metis unat_pow2)

lemma is_power_of_two_nonzero: "is_power_of_two x \<Longrightarrow> x \<noteq> 0"
  by (auto simp: is_power_of_two_iff)

lemma is_power_of_two_unat_pos: "is_power_of_two x \<Longrightarrow> 0 < unat x"
  using is_power_of_two_nonzero by (simp add: unat_gt_0)

text \<open>Masking off the low bits rounds down to a multiple.\<close>

lemma and_not_mask_unat:
  fixes x :: "'a::len word"
  assumes "n < LENGTH('a)"
  shows "unat (x AND NOT (2 ^ n - 1)) = unat x - unat x mod 2 ^ n"
proof -
  have "x AND NOT (mask n) = push_bit n (drop_bit n x)"
    by (rule bit_eqI) (auto simp: bit_simps)
  then have "unat (x AND NOT (mask n)) = unat (push_bit n (drop_bit n x))"
    by simp
  also have "\<dots> = (unat x div 2 ^ n) * 2 ^ n"
  proof -
    have d: "unat (drop_bit n x) = unat x div 2 ^ n"
      unfolding unat_drop_bit_eq by (simp add: drop_bit_eq_div)
    have "(unat x div 2 ^ n) * 2 ^ n \<le> unat x" by simp
    also have "unat x < 2 ^ LENGTH('a)" by simp
    finally have "unat (drop_bit n x) * unat (2 ^ n :: 'a word) < 2 ^ LENGTH('a)"
      using assms by (simp add: d unat_pow2)
    then show ?thesis
      unfolding push_bit_eq_mult using assms
      by (simp only: unat_mult_no_overflow d unat_pow2)
  qed
  also have "\<dots> = unat x - unat x mod 2 ^ n"
    by (simp add: minus_mod_eq_div_mult)
  finally show ?thesis by (simp add: mask_eq_decr_exp)
qed

lemma and_not_pow2_unat:
  fixes x s :: "'a::len word"
  assumes "is_power_of_two s"
  shows "unat (x AND NOT (s - 1)) = unat x - unat x mod unat s"
  using assms and_not_mask_unat by (metis is_power_of_twoE)

section \<open>Lists\<close>

lemma nth_list_update_iff:
  "i < length xs \<Longrightarrow> xs[i := x] ! j = (if i = j then x else xs ! j)"
  by (simp add: nth_list_update)

lemma filter_split_at:
  assumes "\<And>x. x \<in> set xs \<Longrightarrow> \<not> Q x" and "\<And>x. x \<in> set ys \<Longrightarrow> Q x"
  shows "filter (\<lambda>x. P x \<and> Q x) (xs @ ys) = filter P ys"
proof -
  have "filter (\<lambda>x. P x \<and> Q x) xs = []" using assms(1) by (simp add: filter_empty_conv)
  moreover have "filter (\<lambda>x. P x \<and> Q x) ys = filter P ys" using assms(2) by (auto intro: filter_cong)
  ultimately show ?thesis by simp
qed

lemma option_bind_eq_Some: "Option.bind x f = Some b \<longleftrightarrow> (\<exists>a. x = Some a \<and> f a = Some b)"
  by (cases x) auto

end
