(* ===== verification/Fdt_Data.thy ===== *)
theory Fdt_Data
  imports R9_Prelude
begin

text \<open>
  The plain data of \<^verbatim>\<open>port/src/fdt.rs\<close> that other modules use: \<open>RegBlock\<close> with its two
  constructors.  The parser itself is in the theory \<open>Fdt\<close>.
\<close>

record RegBlock =
  rb_addr :: u64
  rb_len :: "u64 option"

definition RegBlock_from_addr :: "u64 \<Rightarrow> RegBlock" where
  "RegBlock_from_addr a = \<lparr>rb_addr = a, rb_len = None\<rparr>"

definition RegBlock_with_offset :: "RegBlock \<Rightarrow> u64 \<Rightarrow> RegBlock rust" where
  "RegBlock_with_offset r off =
     bind_r (add_c (rb_addr r) off) (\<lambda>a. Inr \<lparr>rb_addr = a, rb_len = rb_len r\<rparr>)"

text \<open>\<open>r.len.unwrap_or(0)\<close>, as both range conversions read it.\<close>

definition rb_len_or_0 :: "RegBlock \<Rightarrow> u64" where
  "rb_len_or_0 r = (case rb_len r of None \<Rightarrow> 0 | Some l \<Rightarrow> l)"

end
