(* ===== verification/Mem.thy ===== *)
theory Mem
  imports Fdt_Data
begin

text \<open>
  Model of \<^verbatim>\<open>port/src/mem.rs\<close>: page sizes, virtual and physical ranges, and the rounded page
  iteration that the page allocator and the page-table code share.

  \<open>PhysAddr\<close> is the newtype over \<open>u64\<close> with its derived order; \<open>PhysRange\<close> and
  \<open>VirtRange\<close> are half-open ranges.  Arithmetic is checked, so every operation that can
  overflow returns a \<open>rust\<close> result.  The iterator \<open>step_by_rounded\<close> returns the list of
  the addresses it yields, built on \<open>Step::forward_checked\<close> as the standard library builds it.
\<close>

section \<open>Constants\<close>

definition PAGE_SIZE_4K :: usize where
  "PAGE_SIZE_4K = push_bit 10 4"

definition PAGE_SIZE_2M :: usize where
  "PAGE_SIZE_2M = push_bit 20 2"

definition PAGE_SIZE_1G :: usize where
  "PAGE_SIZE_1G = push_bit 30 1"

section \<open>Virtual ranges\<close>

record VirtRange =
  vr_start :: usize
  vr_end :: usize

definition VirtRange_with_len :: "usize \<Rightarrow> usize \<Rightarrow> VirtRange rust" where
  "VirtRange_with_len start len =
     bind_r (add_c start len) (\<lambda>e. Inr \<lparr>vr_start = start, vr_end = e\<rparr>)"

definition VirtRange_offset_addr :: "VirtRange \<Rightarrow> usize \<Rightarrow> usize option rust" where
  "VirtRange_offset_addr r offset =
     bind_r (add_c (vr_start r) offset) (\<lambda>addr.
       Inr (if vr_start r \<le> addr \<and> addr < vr_end r then Some addr else None))"

definition VirtRange_from :: "RegBlock \<Rightarrow> VirtRange rust" where
  "VirtRange_from r =
     bind_r (add_c (rb_addr r) (rb_len_or_0 r)) (\<lambda>e.
       Inr \<lparr>vr_start = rb_addr r, vr_end = e\<rparr>)"

section \<open>Physical addresses\<close>

datatype PhysAddr = PhysAddr (addr: u64)

instantiation PhysAddr :: linorder
begin

definition less_eq_PhysAddr :: "PhysAddr \<Rightarrow> PhysAddr \<Rightarrow> bool" where
  "less_eq_PhysAddr a b = (addr a \<le> addr b)"

definition less_PhysAddr :: "PhysAddr \<Rightarrow> PhysAddr \<Rightarrow> bool" where
  "less_PhysAddr a b = (addr a < addr b)"

instance
proof
  fix a b c :: PhysAddr
  show "(a < b) = (a \<le> b \<and> \<not> b \<le> a)"
    by (auto simp: less_eq_PhysAddr_def less_PhysAddr_def)
  show "a \<le> a" by (simp add: less_eq_PhysAddr_def)
  show "a \<le> b \<Longrightarrow> b \<le> c \<Longrightarrow> a \<le> c" by (auto simp: less_eq_PhysAddr_def)
  show "a \<le> b \<Longrightarrow> b \<le> a \<Longrightarrow> a = b"
    by (auto simp: less_eq_PhysAddr_def PhysAddr.expand)
  show "a \<le> b \<or> b \<le> a" by (auto simp: less_eq_PhysAddr_def)
qed

end

abbreviation paddr :: "PhysAddr \<Rightarrow> nat" where
  "paddr pa \<equiv> unat (addr pa)"

definition PhysAddr_round_up :: "PhysAddr \<Rightarrow> u64 \<Rightarrow> PhysAddr rust" where
  "PhysAddr_round_up pa step =
     bind_r (assert_r (is_power_of_two step)) (\<lambda>_.
     bind_r (add_c (addr pa) step) (\<lambda>s.
     bind_r (sub_c s 1) (\<lambda>t.
     bind_r (sub_c step 1) (\<lambda>m.
       Inr (PhysAddr (t AND NOT m))))))"

definition PhysAddr_round_down :: "PhysAddr \<Rightarrow> u64 \<Rightarrow> PhysAddr rust" where
  "PhysAddr_round_down pa step =
     bind_r (assert_r (is_power_of_two step)) (\<lambda>_.
     bind_r (sub_c step 1) (\<lambda>m.
       Inr (PhysAddr (addr pa AND NOT m))))"

definition PhysAddr_add :: "PhysAddr \<Rightarrow> u64 \<Rightarrow> PhysAddr rust" where
  "PhysAddr_add pa offset = bind_r (add_c (addr pa) offset) (\<lambda>a. Inr (PhysAddr a))"

text \<open>The \<open>Step\<close> implementation.  \<open>usize::try_from\<close> on a \<open>u64\<close> never fails here.\<close>

definition steps_between :: "PhysAddr \<Rightarrow> PhysAddr \<Rightarrow> usize option" where
  "steps_between startpa endpa =
     (if addr startpa \<le> addr endpa then checked_sub (addr endpa) (addr startpa) else None)"

definition forward_checked :: "PhysAddr \<Rightarrow> usize \<Rightarrow> PhysAddr option" where
  "forward_checked startpa count = map_option PhysAddr (checked_add (addr startpa) count)"

definition backward_checked :: "PhysAddr \<Rightarrow> usize \<Rightarrow> PhysAddr option" where
  "backward_checked startpa count = map_option PhysAddr (checked_sub (addr startpa) count)"

section \<open>Physical ranges\<close>

record PhysRange =
  pr_start :: PhysAddr
  pr_end :: PhysAddr

definition PhysRange_new :: "PhysAddr \<Rightarrow> PhysAddr \<Rightarrow> PhysRange" where
  "PhysRange_new s e = \<lparr>pr_start = s, pr_end = e\<rparr>"

definition PhysRange_with_end :: "u64 \<Rightarrow> u64 \<Rightarrow> PhysRange" where
  "PhysRange_with_end s e = \<lparr>pr_start = PhysAddr s, pr_end = PhysAddr e\<rparr>"

definition PhysRange_with_len :: "u64 \<Rightarrow> usize \<Rightarrow> PhysRange rust" where
  "PhysRange_with_len s len =
     bind_r (add_c s len) (\<lambda>e. Inr \<lparr>pr_start = PhysAddr s, pr_end = PhysAddr e\<rparr>)"

definition PhysRange_offset_addr :: "PhysRange \<Rightarrow> u64 \<Rightarrow> PhysAddr option rust" where
  "PhysRange_offset_addr r offset =
     bind_r (PhysAddr_add (pr_start r) offset) (\<lambda>a.
       Inr (if pr_start r \<le> a \<and> a < pr_end r then Some a else None))"

definition PhysRange_size :: "PhysRange \<Rightarrow> usize rust" where
  "PhysRange_size r = sub_c (addr (pr_end r)) (addr (pr_start r))"

text \<open>
  The addresses \<open>(s..e).step_by(k)\<close> yields: the first is \<open>s\<close>, each next one is
  \<open>forward_checked\<close> by \<open>k\<close>, and the iteration ends at \<open>e\<close> or when the step does not
  fit.  \<open>step_by\<close> itself rejects \<open>k = 0\<close>.
\<close>

function range_step_by :: "PhysAddr \<Rightarrow> PhysAddr \<Rightarrow> usize \<Rightarrow> PhysAddr list" where
  "range_step_by s e k =
     (if s < e \<and> k \<noteq> 0
      then s # (case forward_checked s k of
                  None \<Rightarrow> []
                | Some s' \<Rightarrow> range_step_by s' e k)
      else [])"
  by pat_completeness auto
termination
proof (relation "measure (\<lambda>(s, e, k). paddr e - paddr s)", goal_cases)
  case 1
  show ?case by simp
next
  case (2 s e k s')
  then have "paddr s < paddr e" and "0 < unat k" and "paddr s' = paddr s + unat k"
    by (auto simp: less_PhysAddr_def word_less_nat_alt unat_gt_0 forward_checked_def
        checked_add_alt unat_simps split: if_splits)
  then show ?case by simp
qed

declare range_step_by.simps [simp del]

definition step_by_rounded :: "PhysRange \<Rightarrow> usize \<Rightarrow> PhysAddr list rust" where
  "step_by_rounded r step_size =
     bind_r (PhysAddr_round_down (pr_start r) step_size) (\<lambda>startpa.
     bind_r (PhysAddr_round_up (pr_end r) step_size) (\<lambda>endpa.
       Inr (range_step_by startpa endpa step_size)))"

definition PhysRange_add :: "PhysRange \<Rightarrow> PhysRange \<Rightarrow> PhysRange" where
  "PhysRange_add r other =
     \<lparr>pr_start = min (pr_start r) (pr_start other), pr_end = max (pr_end r) (pr_end other)\<rparr>"

definition PhysRange_from :: "RegBlock \<Rightarrow> PhysRange rust" where
  "PhysRange_from r =
     bind_r (PhysAddr_add (PhysAddr (rb_addr r)) (rb_len_or_0 r)) (\<lambda>e.
       Inr \<lparr>pr_start = PhysAddr (rb_addr r), pr_end = e\<rparr>)"

section \<open>Rounding\<close>

lemma paddr_le_iff: "a \<le> b \<longleftrightarrow> paddr a \<le> paddr b"
  by (simp add: less_eq_PhysAddr_def word_le_nat_alt)

lemma paddr_less_iff: "a < b \<longleftrightarrow> paddr a < paddr b"
  by (simp add: less_PhysAddr_def word_less_nat_alt)

lemma paddr_bound: "paddr a < 2 ^ 64"
  using unsigned_less [of "addr a"] by simp

lemma paddr_inject: "paddr a = paddr b \<longleftrightarrow> a = b"
  by (metis PhysAddr.expand unat_eq_iff)

lemma PhysAddr_eq_iff: "PhysAddr w = q \<longleftrightarrow> paddr q = unat w"
  using paddr_inject [of q "PhysAddr w"] by auto

lemma paddr_surj: "n < 2 ^ 64 \<Longrightarrow> \<exists>pa. paddr pa = n"
  using unat_word_of_nat_small [of n, where 'a = 64] by (intro exI [of _ "PhysAddr (word_of_nat n)"]) simp

lemmas paddr_order = paddr_le_iff paddr_less_iff

lemma round_down_eq:
  "PhysAddr_round_down pa step = Inr q \<longleftrightarrow>
     is_power_of_two step \<and> paddr q = paddr pa - paddr pa mod unat step"
proof (cases "is_power_of_two step")
  case True
  then have "1 \<le> step"
    using is_power_of_two_unat_pos by (simp add: word_le_nat_alt Suc_le_eq)
  with True have "PhysAddr_round_down pa step = Inr (PhysAddr (addr pa AND NOT (step - 1)))"
    by (simp add: PhysAddr_round_down_def sub_c_def)
  then show ?thesis
    using True and_not_pow2_unat [OF True, of "addr pa"] by (simp add: PhysAddr_eq_iff)
next
  case False
  then show ?thesis by (simp add: PhysAddr_round_down_def assert_r_def)
qed

lemma round_down_ok: "is_power_of_two step \<Longrightarrow> \<exists>q. PhysAddr_round_down pa step = Inr q"
  using is_power_of_two_unat_pos [of step]
  by (simp add: PhysAddr_round_down_def sub_c_def word_le_nat_alt)

lemma round_up_ok:
  "is_power_of_two step \<Longrightarrow> paddr pa + unat step < 2 ^ 64 \<Longrightarrow>
     \<exists>q. PhysAddr_round_up pa step = Inr q"
  using is_power_of_two_unat_pos [of step]
  by (simp add: PhysAddr_round_up_def sub_c_def add_c_alt word_le_nat_alt unat_add_no_overflow)

lemma round_up_eq:
  "PhysAddr_round_up pa step = Inr q \<longleftrightarrow>
     is_power_of_two step \<and> paddr pa + unat step < 2 ^ 64 \<and>
     paddr q = (paddr pa + unat step - 1) - (paddr pa + unat step - 1) mod unat step"
proof (cases "is_power_of_two step \<and> paddr pa + unat step < 2 ^ 64")
  case True
  then have pos: "0 < unat step" and fits: "paddr pa + unat step < 2 ^ LENGTH(64)"
    using is_power_of_two_unat_pos by auto
  then have sum: "unat (addr pa + step) = paddr pa + unat step"
    by (simp only: unat_add_no_overflow)
  have ge: "1 \<le> addr pa + step" "1 \<le> step"
    using pos by (auto simp: word_le_nat_alt sum)
  have "PhysAddr_round_up pa step =
      Inr (PhysAddr ((addr pa + step - 1) AND NOT (step - 1)))"
    using True fits ge by (simp add: PhysAddr_round_up_def sub_c_def add_c_alt)
  moreover have "unat ((addr pa + step - 1) AND NOT (step - 1)) =
      (paddr pa + unat step - 1) - (paddr pa + unat step - 1) mod unat step"
    using True ge by (simp add: and_not_pow2_unat unat_sub_no_underflow sum)
  ultimately show ?thesis
    using True by (simp add: PhysAddr_eq_iff)
next
  case False
  then show ?thesis
    by (auto simp: PhysAddr_round_up_def assert_r_def add_c_alt)
qed

text \<open>Comparing an aligned address with a rounded bound is comparing with the bound itself.\<close>

lemma aligned_ge_rounded_down:
  fixes x a k :: nat
  assumes "k dvd x" and "0 < k"
  shows "a - a mod k \<le> x \<longleftrightarrow> a < x + k"
proof -
  obtain q where x: "x = k * q" using assms(1) by blast
  have "a - a mod k = k * (a div k)" by (simp add: minus_mod_eq_mult_div)
  moreover have "k * (a div k) \<le> k * q \<longleftrightarrow> a div k < q + 1" using assms(2) by auto
  moreover have "a div k < q + 1 \<longleftrightarrow> a < (q + 1) * k" using assms(2) by (simp only: div_less_iff_less_mult)
  ultimately show ?thesis using x by (simp add: algebra_simps)
qed

lemma aligned_less_rounded_up:
  fixes x a k :: nat
  assumes "k dvd x" and "0 < k"
  shows "x < (a + k - 1) - (a + k - 1) mod k \<longleftrightarrow> x < a"
proof -
  obtain q where x: "x = k * q" using assms(1) by blast
  have "(a + k - 1) - (a + k - 1) mod k = k * ((a + k - 1) div k)"
    by (simp add: minus_mod_eq_mult_div)
  moreover have "k * q < k * ((a + k - 1) div k) \<longleftrightarrow> Suc q \<le> (a + k - 1) div k"
    using assms(2) by auto
  moreover have "Suc q \<le> (a + k - 1) div k \<longleftrightarrow> Suc q * k \<le> a + k - 1"
    using assms(2) by (simp only: less_eq_div_iff_mult_less_eq)
  ultimately show ?thesis using x assms(2) by (auto simp: algebra_simps)
qed

section \<open>Rounded iteration\<close>

lemma set_range_step_by:
  assumes "k \<noteq> 0"
  shows "pa \<in> set (range_step_by s e k) \<longleftrightarrow>
     pa < e \<and> paddr s \<le> paddr pa \<and> unat k dvd paddr pa - paddr s"
  using assms
proof (induction s e k rule: range_step_by.induct)
  case (1 s e k)
  show ?case
  proof (cases "s < e")
    case False
    then show ?thesis by (auto simp: range_step_by.simps [of s e k] paddr_order)
  next
    case True
    have kpos: "0 < unat k" using "1.prems" by (simp add: unat_gt_0)
    show ?thesis
    proof (cases "forward_checked s k")
      case None
      then have big: "2 ^ 64 \<le> paddr s + unat k"
        by (auto simp: forward_checked_def checked_add_alt split: if_splits)
      have "paddr s \<le> paddr pa \<Longrightarrow> unat k dvd paddr pa - paddr s \<Longrightarrow> pa = s"
      proof -
        assume le: "paddr s \<le> paddr pa" and dvd: "unat k dvd paddr pa - paddr s"
        have "paddr pa < paddr s + unat k"
          using paddr_bound big by (rule less_le_trans)
        then have "paddr pa - paddr s < unat k" using le by simp
        with dvd have "paddr pa - paddr s = 0" by (metis dvd_imp_le leD neq0_conv)
        with le show "pa = s" by (simp flip: paddr_inject)
      qed
      with None True "1.prems" show ?thesis
        by (auto simp: range_step_by.simps [of s e k])
    next
      case (Some s')
      then have s': "paddr s' = paddr s + unat k"
        by (auto simp: forward_checked_def checked_add_alt unat_simps split: if_splits)
      have IH: "pa \<in> set (range_step_by s' e k) \<longleftrightarrow>
          pa < e \<and> paddr s' \<le> paddr pa \<and> unat k dvd paddr pa - paddr s'"
        using "1.IH" [OF _ Some] True "1.prems" by simp
      have "paddr s \<le> paddr pa \<and> unat k dvd paddr pa - paddr s \<longleftrightarrow>
          pa = s \<or> (paddr s' \<le> paddr pa \<and> unat k dvd paddr pa - paddr s')"
      proof (cases "paddr s' \<le> paddr pa")
        case True
        then have "paddr pa - paddr s = (paddr pa - paddr s') + unat k" by (simp add: s')
        then have "unat k dvd paddr pa - paddr s \<longleftrightarrow> unat k dvd paddr pa - paddr s'" by simp
        with True kpos s' show ?thesis by auto
      next
        case False
        then have "paddr pa - paddr s < unat k" using kpos s' by linarith
        then have "unat k dvd paddr pa - paddr s \<longleftrightarrow> paddr pa - paddr s = 0"
          by (metis dvd_0_right dvd_imp_le leD neq0_conv)
        with False show ?thesis by (auto simp: s' simp flip: paddr_inject)
      qed
      with IH Some True "1.prems" show ?thesis
        by (auto simp: range_step_by.simps [of s e k])
    qed
  qed
qed

lemma sorted_range_step_by: "sorted_wrt (<) (range_step_by s e k)"
proof (induction s e k rule: range_step_by.induct)
  case (1 s e k)
  show ?case
  proof (cases "s < e \<and> k \<noteq> 0")
    case False
    then show ?thesis by (subst range_step_by.simps) (simp only: if_False sorted_wrt.simps)
  next
    case True
    show ?thesis
    proof (cases "forward_checked s k")
      case None
      with True show ?thesis by (simp add: range_step_by.simps [of s e k])
    next
      case (Some s')
      then have "paddr s' = paddr s + unat k"
        by (auto simp: forward_checked_def checked_add_alt unat_simps split: if_splits)
      moreover have "0 < unat k" using True by (simp add: unat_gt_0)
      ultimately have "\<forall>pa \<in> set (range_step_by s' e k). s < pa"
        using True by (auto simp: set_range_step_by paddr_order)
      with "1.IH" [OF True Some] Some True show ?thesis
        by (simp add: range_step_by.simps [of s e k])
    qed
  qed
qed

lemma step_by_rounded_ok:
  "(\<exists>pas. step_by_rounded r step = Inr pas) \<longleftrightarrow>
     is_power_of_two step \<and> paddr (pr_end r) + unat step < 2 ^ 64"
proof
  assume "\<exists>pas. step_by_rounded r step = Inr pas"
  then show "is_power_of_two step \<and> paddr (pr_end r) + unat step < 2 ^ 64"
    by (auto simp: step_by_rounded_def bind_r_eq_Inr round_up_eq)
next
  assume "is_power_of_two step \<and> paddr (pr_end r) + unat step < 2 ^ 64"
  then obtain d u where "PhysAddr_round_down (pr_start r) step = Inr d"
    and "PhysAddr_round_up (pr_end r) step = Inr u"
    using round_down_ok round_up_ok by blast
  then show "\<exists>pas. step_by_rounded r step = Inr pas"
    by (simp add: step_by_rounded_def)
qed

lemma step_by_rounded_members:
  assumes "step_by_rounded r step = Inr pas"
  shows "pa \<in> set pas \<longleftrightarrow>
     unat step dvd paddr pa \<and> paddr (pr_start r) < paddr pa + unat step \<and> pa < pr_end r"
proof -
  obtain sp ep where d: "PhysAddr_round_down (pr_start r) step = Inr sp"
    and u: "PhysAddr_round_up (pr_end r) step = Inr ep"
    and pas: "pas = range_step_by sp ep step"
    using assms by (auto simp: step_by_rounded_def bind_r_eq_Inr)
  have pos: "0 < unat step" using d by (simp add: round_down_eq is_power_of_two_unat_pos)
  have sp: "paddr sp = paddr (pr_start r) - paddr (pr_start r) mod unat step"
    using d by (simp add: round_down_eq)
  have ep: "paddr ep = (paddr (pr_end r) + unat step - 1) -
      (paddr (pr_end r) + unat step - 1) mod unat step"
    using u by (simp add: round_up_eq)
  have spd: "unat step dvd paddr sp" by (simp add: sp minus_mod_eq_mult_div)
  have "pa \<in> set pas \<longleftrightarrow> paddr pa < paddr ep \<and> paddr sp \<le> paddr pa \<and> unat step dvd paddr pa"
    using pos spd by (auto simp: pas set_range_step_by paddr_order dvd_diff_nat unat_gt_0
        dest: dvd_diffD)
  also have "\<dots> \<longleftrightarrow> unat step dvd paddr pa \<and> paddr (pr_start r) < paddr pa + unat step \<and>
      pa < pr_end r"
    using aligned_ge_rounded_down [OF _ pos] aligned_less_rounded_up [OF _ pos]
    by (auto simp: sp ep paddr_less_iff)
  finally show ?thesis .
qed

lemma step_by_rounded_sorted:
  "step_by_rounded r step = Inr pas \<Longrightarrow> sorted_wrt (<) pas"
  by (auto simp: step_by_rounded_def bind_r_eq_Inr sorted_range_step_by)

end
