(* ===== verification/Bitmap_Alloc.thy ===== *)
theory Bitmap_Alloc
  imports Mem
begin

text \<open>
  Model of \<^verbatim>\<open>port/src/bitmapalloc.rs\<close>, the bitmap page allocator.

  A \<open>Bitmap\<close> is its byte array; bit \<open>i\<close> lives in byte \<open>i / 8\<close> at position
  \<open>i mod 8\<close>.  The const generics \<open>NUM_BITMAPS\<close> and \<open>BITMAP_SIZE_BYTES\<close> are carried as
  the fields \<open>num_bitmaps\<close> and \<open>bitmap_size_bytes\<close>, which no operation changes.  An
  operation that takes \<open>&mut self\<close> and returns a \<open>Result\<close> gives back the new state and
  the result, also on the error path, because an early return keeps the writes made so far.

  The byte iterator \<open>indices_from\<close> is the closure's state (\<open>ByteIter\<close>) with its step
  \<open>indices_next\<close>; the loops that drive it are \<^theory_text>\<open>partial_function (option)\<close>s, where
  \<open>None\<close> means that the loop does not end.
\<close>

section \<open>Bitmaps\<close>

record Bitmap =
  bytes :: "u8 list"

definition Bitmap_new :: "usize \<Rightarrow> u8 \<Rightarrow> Bitmap" where
  "Bitmap_new size_bytes init_value = \<lparr>bytes = replicate (unat size_bytes) init_value\<rparr>"

definition Bitmap_is_set :: "Bitmap \<Rightarrow> usize \<Rightarrow> bool rust" where
  "Bitmap_is_set bm i =
     (let byte_idx = i div 8; bit_idx = i mod 8
      in bind_r (index_r (bytes bm) (unat byte_idx)) (\<lambda>byte.
           Inr (byte AND push_bit (unat bit_idx) 1 > 0)))"

definition Bitmap_set :: "Bitmap \<Rightarrow> usize \<Rightarrow> bool \<Rightarrow> Bitmap rust" where
  "Bitmap_set bm i b =
     (let byte_idx = i div 8; bit_idx = i mod 8
      in bind_r (index_r (bytes bm) (unat byte_idx)) (\<lambda>byte.
           Inr (bm\<lparr>bytes := (bytes bm)[unat byte_idx :=
             (if b then byte OR push_bit (unat bit_idx) 1
              else byte AND NOT (push_bit (unat bit_idx) 1))]\<rparr>)))"

section \<open>The allocator\<close>

datatype BitmapPageAllocError =
    NotEnoughBitmaps
  | OutOfBounds
  | MisalignedAddr
  | OutOfSpace
  | NotAllocated

record BitmapPageAlloc =
  num_bitmaps :: usize
  bitmap_size_bytes :: usize
  bitmaps :: "Bitmap list"
  alloc_page_size :: usize
  end_pa :: PhysAddr
  next_pa_to_scan :: PhysAddr

type_synonym 'a pa_result = "BitmapPageAlloc \<times> (BitmapPageAllocError + 'a)"

definition new_all_allocated :: "usize \<Rightarrow> usize \<Rightarrow> usize \<Rightarrow> BitmapPageAlloc rust" where
  "new_all_allocated NUM_BITMAPS BITMAP_SIZE_BYTES page_size =
     bind_r (mul_c NUM_BITMAPS BITMAP_SIZE_BYTES) (\<lambda>x.
     bind_r (mul_c x 8) (\<lambda>y.
     bind_r (mul_c y page_size) (\<lambda>z.
       Inr \<lparr>num_bitmaps = NUM_BITMAPS, bitmap_size_bytes = BITMAP_SIZE_BYTES,
            bitmaps = replicate (unat NUM_BITMAPS) (Bitmap_new BITMAP_SIZE_BYTES 0xff),
            alloc_page_size = page_size, end_pa = PhysAddr z,
            next_pa_to_scan = PhysAddr 0\<rparr>)))"

definition bytes_per_bitmap_byte :: "BitmapPageAlloc \<Rightarrow> usize rust" where
  "bytes_per_bitmap_byte a = mul_c 8 (alloc_page_size a)"

definition bytes_per_bitmap :: "BitmapPageAlloc \<Rightarrow> usize rust" where
  "bytes_per_bitmap a = bind_r (bytes_per_bitmap_byte a) (\<lambda>x. mul_c (bitmap_size_bytes a) x)"

definition max_bytes :: "BitmapPageAlloc \<Rightarrow> usize rust" where
  "max_bytes a = bind_r (bytes_per_bitmap a) (\<lambda>x. mul_c (num_bitmaps a) x)"

definition physaddr_as_indices ::
    "BitmapPageAlloc \<Rightarrow> PhysAddr \<Rightarrow> (usize \<times> usize \<times> usize) rust" where
  "physaddr_as_indices a pa =
     bind_r (rem_c (addr pa) (alloc_page_size a)) (\<lambda>r.
     bind_r (assert_r (r = 0)) (\<lambda>_.
     bind_r (bytes_per_bitmap a) (\<lambda>bpb.
     bind_r (div_c (addr pa) bpb) (\<lambda>bitmap_idx.
     bind_r (rem_c (addr pa) bpb) (\<lambda>pa_offset_into_bitmap.
     bind_r (bytes_per_bitmap_byte a) (\<lambda>bpbb.
     bind_r (div_c pa_offset_into_bitmap bpbb) (\<lambda>byte_idx.
     bind_r (mul_c byte_idx bpbb) (\<lambda>byte_off.
     bind_r (sub_c pa_offset_into_bitmap byte_off) (\<lambda>d.
     bind_r (div_c d (alloc_page_size a)) (\<lambda>bit_idx.
       Inr (bitmap_idx, byte_idx, bit_idx)))))))))))"

definition indices_as_physaddr ::
    "BitmapPageAlloc \<Rightarrow> usize \<Rightarrow> usize \<Rightarrow> usize \<Rightarrow> PhysAddr rust" where
  "indices_as_physaddr a bitmap_idx byte_idx bit_idx =
     bind_r (bytes_per_bitmap a) (\<lambda>bpb.
     bind_r (mul_c bitmap_idx bpb) (\<lambda>x.
     bind_r (bytes_per_bitmap_byte a) (\<lambda>bpbb.
     bind_r (mul_c byte_idx bpbb) (\<lambda>y.
     bind_r (add_c x y) (\<lambda>xy.
     bind_r (mul_c bit_idx (alloc_page_size a)) (\<lambda>z.
     bind_r (add_c xy z) (\<lambda>r. Inr (PhysAddr r))))))))"

subsection \<open>Marking ranges\<close>

fun mark_pages ::
    "BitmapPageAlloc \<Rightarrow> PhysAddr list \<Rightarrow> bool \<Rightarrow> unit pa_result rust" where
  "mark_pages a [] mark = Inr (a, Inr ())"
| "mark_pages a (pa # pas) mark =
     bind_r (physaddr_as_indices a pa) (\<lambda>(bitmap_idx, byte_idx, bit_idx).
       if unat bitmap_idx \<ge> length (bitmaps a) then Inr (a, Inl OutOfBounds)
       else
         bind_r (mul_c 8 byte_idx) (\<lambda>x.
         bind_r (add_c x bit_idx) (\<lambda>i.
         bind_r (Bitmap_set (bitmaps a ! unat bitmap_idx) i mark) (\<lambda>bm.
           mark_pages (a\<lparr>bitmaps := (bitmaps a)[unat bitmap_idx := bm]\<rparr>) pas mark))))"

definition mark_range ::
    "BitmapPageAlloc \<Rightarrow> PhysRange \<Rightarrow> bool \<Rightarrow> bool \<Rightarrow> unit pa_result rust" where
  "mark_range a r mark check_end =
     (if check_end \<and> pr_end r > end_pa a then Inr (a, Inl NotEnoughBitmaps)
      else bind_r (step_by_rounded r (alloc_page_size a)) (\<lambda>pas. mark_pages a pas mark))"

definition mark_allocated :: "BitmapPageAlloc \<Rightarrow> PhysRange \<Rightarrow> unit pa_result rust" where
  "mark_allocated a r = mark_range a r True True"

definition mark_free :: "BitmapPageAlloc \<Rightarrow> PhysRange \<Rightarrow> unit pa_result rust" where
  "mark_free a r = mark_range a r False True"

text \<open>
  \<open>free_unused_ranges\<close>: the loop over the used ranges, with the cursor \<open>next_start\<close>,
  then the tail of the memory, then the new upper bound.  The \<open>?\<close> operator returns the
  error with the state reached so far.
\<close>

fun free_gaps ::
    "BitmapPageAlloc \<Rightarrow> PhysAddr \<Rightarrow> PhysRange list \<Rightarrow> PhysAddr pa_result rust" where
  "free_gaps a next_start [] = Inr (a, Inr next_start)"
| "free_gaps a next_start (rng # rs) =
     bind_r (if next_start < pr_start rng
             then mark_free a (PhysRange_new next_start (pr_start rng))
             else Inr (a, Inr ())) (\<lambda>(a', res).
       case res of
         Inl err \<Rightarrow> Inr (a', Inl err)
       | Inr _ \<Rightarrow>
           free_gaps a' (if next_start < pr_end rng then pr_end rng else next_start) rs)"

definition free_unused_ranges ::
    "BitmapPageAlloc \<Rightarrow> PhysRange \<Rightarrow> PhysRange list \<Rightarrow> unit pa_result rust" where
  "free_unused_ranges a available_mem used_ranges =
     bind_r (free_gaps a (pr_start available_mem) used_ranges) (\<lambda>(a1, res1).
       case res1 of
         Inl err \<Rightarrow> Inr (a1, Inl err)
       | Inr next_start \<Rightarrow>
           bind_r (if next_start < pr_end available_mem
                   then mark_free a1 (PhysRange_new next_start (pr_end available_mem))
                   else Inr (a1, Inr ())) (\<lambda>(a2, res2).
             case res2 of
               Inl err \<Rightarrow> Inr (a2, Inl err)
             | Inr _ \<Rightarrow>
                 let a3 = a2\<lparr>end_pa := pr_end available_mem\<rparr>
                 in bind_r (max_bytes a3) (\<lambda>mx.
                    bind_r (mark_range a3 (PhysRange_new (end_pa a3) (PhysAddr mx)) True False)
                      (\<lambda>(a4, res4).
                        case res4 of
                          Inl err \<Rightarrow> Inr (a4, Inl err)
                        | Inr _ \<Rightarrow> Inr (a4\<lparr>next_pa_to_scan := PhysAddr 0\<rparr>, Inr ())))))"

subsection \<open>Iterating over the bytes\<close>

record ByteIndices =
  bi_bitmap :: usize
  bi_byte :: usize

definition byte_at :: "BitmapPageAlloc \<Rightarrow> ByteIndices \<Rightarrow> u8 rust" where
  "byte_at a ix =
     bind_r (index_r (bitmaps a) (unat (bi_bitmap ix))) (\<lambda>bm.
       index_r (bytes bm) (unat (bi_byte ix)))"

text \<open>The captured variables of the closure \<open>indices_from\<close> returns.\<close>

record ByteIter =
  start_bitmap_idx :: usize
  start_byte_idx :: usize
  it_bitmap_idx :: usize
  it_byte_idx :: usize
  passed_first :: bool
  currpa :: PhysAddr

definition indices_from :: "BitmapPageAlloc \<Rightarrow> usize \<Rightarrow> usize \<Rightarrow> ByteIter rust" where
  "indices_from a bi yi =
     bind_r (indices_as_physaddr a bi yi 0) (\<lambda>pa.
       Inr \<lparr>start_bitmap_idx = bi, start_byte_idx = yi, it_bitmap_idx = bi, it_byte_idx = yi,
            passed_first = False, currpa = pa\<rparr>)"

text \<open>One call of the closure: first cycle back to the start when the last bitmap or the end of
  the memory is passed, then end the iteration or yield a byte and move on.\<close>

definition indices_wrap :: "BitmapPageAlloc \<Rightarrow> ByteIter \<Rightarrow> ByteIter" where
  "indices_wrap a it =
     (if unat (it_bitmap_idx it) \<ge> length (bitmaps a) \<or> currpa it \<ge> end_pa a
      then it\<lparr>it_bitmap_idx := 0, it_byte_idx := 0, currpa := PhysAddr 0\<rparr>
      else it)"

definition indices_emit ::
    "BitmapPageAlloc \<Rightarrow> ByteIter \<Rightarrow> (ByteIndices \<times> ByteIter) option rust" where
  "indices_emit a it =
     (if passed_first it \<and> it_bitmap_idx it = start_bitmap_idx it \<and>
         it_byte_idx it = start_byte_idx it
      then Inr None
      else
        let it1 = it\<lparr>passed_first := True\<rparr>;
            ix = \<lparr>bi_bitmap = it_bitmap_idx it, bi_byte = it_byte_idx it\<rparr>
        in bind_r (add_c (it_byte_idx it) 1) (\<lambda>y.
             if y \<ge> bitmap_size_bytes a
             then bind_r (add_c (it_bitmap_idx it) 1) (\<lambda>b.
                  bind_r (PhysAddr_add (currpa it) (alloc_page_size a)) (\<lambda>pa.
                    Inr (Some (ix, it1\<lparr>it_byte_idx := 0, it_bitmap_idx := b, currpa := pa\<rparr>))))
             else Inr (Some (ix, it1\<lparr>it_byte_idx := y\<rparr>))))"

definition indices_next ::
    "BitmapPageAlloc \<Rightarrow> ByteIter \<Rightarrow> (ByteIndices \<times> ByteIter) option rust" where
  "indices_next a it = indices_emit a (indices_wrap a it)"

text \<open>\<open>indices_from(..).find(|indices| self.byte(indices) != 0xff)\<close>\<close>

partial_function (option) find_free_byte ::
    "BitmapPageAlloc \<Rightarrow> ByteIter \<Rightarrow> ByteIndices option rust option" where
  "find_free_byte a it =
     (case indices_next a it of
        Inl p \<Rightarrow> Some (Inl p)
      | Inr None \<Rightarrow> Some (Inr None)
      | Inr (Some (ix, it')) \<Rightarrow>
          (case byte_at a ix of
             Inl p \<Rightarrow> Some (Inl p)
           | Inr byte \<Rightarrow> if byte \<noteq> 0xff then Some (Inr (Some ix)) else find_free_byte a it'))"

declare find_free_byte.simps [code]

text \<open>\<open>u8::trailing_ones\<close> and \<open>u8::count_zeros\<close>.\<close>

definition trailing_ones :: "u8 \<Rightarrow> nat" where
  "trailing_ones w = length (takeWhile (bit w) [0..<8])"

definition count_zeros :: "u8 \<Rightarrow> nat" where
  "count_zeros w = length (filter (\<lambda>i. \<not> bit w i) [0..<8])"

definition allocate :: "BitmapPageAlloc \<Rightarrow> PhysAddr pa_result rust option" where
  "allocate a =
     (case bind_r (physaddr_as_indices a (next_pa_to_scan a)) (\<lambda>(first_bitmap_idx, first_byte_idx, _).
             indices_from a first_bitmap_idx first_byte_idx) of
        Inl p \<Rightarrow> Some (Inl p)
      | Inr it \<Rightarrow>
          (case find_free_byte a it of
             None \<Rightarrow> None
           | Some found \<Rightarrow> Some (bind_r found (\<lambda>found_indices.
               case found_indices of
                 Some indices \<Rightarrow>
                   bind_r (index_r (bitmaps a) (unat (bi_bitmap indices))) (\<lambda>bm.
                   bind_r (index_r (bytes bm) (unat (bi_byte indices))) (\<lambda>byte.
                     let num_leading_ones = trailing_ones byte;
                         bm' = bm\<lparr>bytes := (bytes bm)[unat (bi_byte indices) :=
                                 byte OR push_bit num_leading_ones 1]\<rparr>;
                         a' = a\<lparr>bitmaps := (bitmaps a)[unat (bi_bitmap indices) := bm']\<rparr>
                     in bind_r (indices_as_physaddr a' (bi_bitmap indices) (bi_byte indices)
                                 (word_of_nat num_leading_ones)) (\<lambda>pa.
                          Inr (a'\<lparr>next_pa_to_scan := pa\<rparr>, Inr pa))))
               | None \<Rightarrow> Inr (a, Inl OutOfSpace)))))"

definition deallocate :: "BitmapPageAlloc \<Rightarrow> PhysAddr \<Rightarrow> unit pa_result rust" where
  "deallocate a pa =
     (if pa > end_pa a then Inr (a, Inl OutOfBounds)
      else
        bind_r (physaddr_as_indices a pa) (\<lambda>(bitmap_idx, byte_idx, bit_idx).
        bind_r (index_r (bitmaps a) (unat bitmap_idx)) (\<lambda>bitmap.
        bind_r (mul_c 8 byte_idx) (\<lambda>x.
        bind_r (add_c x bit_idx) (\<lambda>i.
        bind_r (Bitmap_is_set bitmap i) (\<lambda>set.
          if \<not> set then Inr (a, Inl NotAllocated)
          else bind_r (Bitmap_set bitmap bit_idx False) (\<lambda>bitmap'.
                 Inr (a\<lparr>bitmaps := (bitmaps a)[unat bitmap_idx := bitmap'],
                        next_pa_to_scan := pa\<rparr>, Inr ()))))))))"

partial_function (option) count_free_bytes ::
    "BitmapPageAlloc \<Rightarrow> ByteIter \<Rightarrow> usize \<Rightarrow> usize rust option" where
  "count_free_bytes a it free_bytes =
     (case indices_next a it of
        Inl p \<Rightarrow> Some (Inl p)
      | Inr None \<Rightarrow> Some (Inr free_bytes)
      | Inr (Some (ix, it')) \<Rightarrow>
          (case bind_r (byte_at a ix) (\<lambda>byte.
                bind_r (mul_c (word_of_nat (count_zeros byte)) (alloc_page_size a)) (\<lambda>n.
                  add_c free_bytes n)) of
             Inl p \<Rightarrow> Some (Inl p)
           | Inr free_bytes' \<Rightarrow> count_free_bytes a it' free_bytes'))"

declare count_free_bytes.simps [code]

definition usage_bytes :: "BitmapPageAlloc \<Rightarrow> (usize \<times> usize) rust option" where
  "usage_bytes a =
     (case indices_from a 0 0 of
        Inl p \<Rightarrow> Some (Inl p)
      | Inr it \<Rightarrow>
          (case count_free_bytes a it 0 of
             None \<Rightarrow> None
           | Some r \<Rightarrow> Some (bind_r r (\<lambda>free_bytes.
               let total = addr (end_pa a)
               in bind_r (sub_c total free_bytes) (\<lambda>used. Inr (used, total))))))"

end
