(* ===== verification/Bitmap_Alloc_Correct.thy ===== *)
theory Bitmap_Alloc_Correct
  imports Bitmap_Alloc
begin

text \<open>
  Correctness of the page allocator against its abstract state: the set of free page numbers.
\<close>

section \<open>Shape, abstraction and invariant\<close>

abbreviation NB :: "BitmapPageAlloc \<Rightarrow> nat" where
  "NB a \<equiv> unat (num_bitmaps a)"

abbreviation SB :: "BitmapPageAlloc \<Rightarrow> nat" where
  "SB a \<equiv> unat (bitmap_size_bytes a)"

abbreviation PS :: "BitmapPageAlloc \<Rightarrow> nat" where
  "PS a \<equiv> unat (alloc_page_size a)"

definition npages :: "BitmapPageAlloc \<Rightarrow> nat" where
  "npages a = NB a * (8 * SB a)"

text \<open>The sizes the type fixes, a page size that is a power of two, and no address overflow.\<close>

definition shape :: "BitmapPageAlloc \<Rightarrow> bool" where
  "shape a \<longleftrightarrow> length (bitmaps a) = NB a \<and> (\<forall>bm \<in> set (bitmaps a). length (bytes bm) = SB a) \<and>
     is_power_of_two (alloc_page_size a) \<and> 0 < NB a \<and> 0 < SB a \<and> npages a * PS a + PS a < 2 ^ 64"

definition page_allocated :: "BitmapPageAlloc \<Rightarrow> nat \<Rightarrow> bool" where
  "page_allocated a p =
     bit (bytes (bitmaps a ! (p div (8 * SB a))) ! (p mod (8 * SB a) div 8)) (p mod 8)"

definition free_pages :: "BitmapPageAlloc \<Rightarrow> nat set" where
  "free_pages a = {p. p < npages a \<and> \<not> page_allocated a p}"

text \<open>
  The state between calls: every free page lies below the memory's end as a whole, and the scan
  starts at a page address not above the end.
\<close>

definition pa_inv :: "BitmapPageAlloc \<Rightarrow> bool" where
  "pa_inv a \<longleftrightarrow> shape a \<and> paddr (end_pa a) \<le> npages a * PS a \<and>
     (\<forall>p \<in> free_pages a. (p + 1) * PS a \<le> paddr (end_pa a)) \<and>
     PS a dvd paddr (next_pa_to_scan a) \<and> next_pa_to_scan a \<le> end_pa a \<and>
     paddr (next_pa_to_scan a) < npages a * PS a"

lemma shape_pos: "shape a \<Longrightarrow> 0 < PS a \<and> 0 < SB a \<and> 0 < NB a"
  by (simp add: shape_def is_power_of_two_unat_pos)

lemma npages_pos: "shape a \<Longrightarrow> 0 < npages a"
  using shape_pos by (simp add: npages_def)

lemma shape_bounds:
  assumes "shape a"
  shows "8 * PS a < 2 ^ 64" and "SB a * (8 * PS a) < 2 ^ 64"
    and "NB a * (SB a * (8 * PS a)) < 2 ^ 64"
proof -
  have max: "NB a * (SB a * (8 * PS a)) < 2 ^ 64"
    using assms by (simp add: shape_def npages_def algebra_simps)
  have "SB a * (8 * PS a) \<le> NB a * (SB a * (8 * PS a))"
    using shape_pos [OF assms] by simp
  moreover have "8 * PS a \<le> SB a * (8 * PS a)"
    using shape_pos [OF assms] by simp
  ultimately show "8 * PS a < 2 ^ 64" and "SB a * (8 * PS a) < 2 ^ 64"
    using max by linarith+
  show "NB a * (SB a * (8 * PS a)) < 2 ^ 64" by (rule max)
qed

lemma sizes_eq:
  assumes "shape a"
  shows "bytes_per_bitmap_byte a = Inr (8 * alloc_page_size a)"
    and "bytes_per_bitmap a = Inr (bitmap_size_bytes a * (8 * alloc_page_size a))"
    and "max_bytes a = Inr (num_bitmaps a * (bitmap_size_bytes a * (8 * alloc_page_size a)))"
    and "unat (8 * alloc_page_size a) = 8 * PS a"
    and "unat (bitmap_size_bytes a * (8 * alloc_page_size a)) = SB a * (8 * PS a)"
    and "unat (num_bitmaps a * (bitmap_size_bytes a * (8 * alloc_page_size a))) = npages a * PS a"
proof -
  note b = shape_bounds [OF assms]
  have e8: "unat (8 :: usize) = 8" by simp
  show u1: "unat (8 * alloc_page_size a) = 8 * PS a"
    using b(1) by (subst unat_mult_no_overflow) (simp_all add: e8)
  show u2: "unat (bitmap_size_bytes a * (8 * alloc_page_size a)) = SB a * (8 * PS a)"
    using b(2) by (subst unat_mult_no_overflow) (simp_all add: u1)
  have u3: "unat (num_bitmaps a * (bitmap_size_bytes a * (8 * alloc_page_size a))) =
      NB a * (SB a * (8 * PS a))"
    using b(3) by (subst unat_mult_no_overflow) (simp_all add: u2)
  then show "unat (num_bitmaps a * (bitmap_size_bytes a * (8 * alloc_page_size a))) =
      npages a * PS a"
    by (simp add: npages_def)
  show s1: "bytes_per_bitmap_byte a = Inr (8 * alloc_page_size a)"
    using b(1) by (simp add: bytes_per_bitmap_byte_def mul_c_alt)
  show s2: "bytes_per_bitmap a = Inr (bitmap_size_bytes a * (8 * alloc_page_size a))"
    using b(2) u1 by (simp add: bytes_per_bitmap_def s1 mul_c_alt)
  show "max_bytes a = Inr (num_bitmaps a * (bitmap_size_bytes a * (8 * alloc_page_size a)))"
    using b(3) u2 by (simp add: max_bytes_def s2 mul_c_alt)
qed

section \<open>Addresses and indices\<close>

lemma page_index_arith:
  fixes P S pg :: nat
  assumes "0 < P" and "0 < S"
  shows "pg * P div (S * (8 * P)) = pg div (8 * S)"
    and "pg * P mod (S * (8 * P)) = (pg mod (8 * S)) * P"
    and "(pg mod (8 * S)) * P div (8 * P) = pg mod (8 * S) div 8"
    and "(pg mod (8 * S)) * P - (pg mod (8 * S) div 8) * (8 * P) = (pg mod 8) * P"
proof -
  have e: "S * (8 * P) = (8 * S) * P" by simp
  show "pg * P div (S * (8 * P)) = pg div (8 * S)"
    unfolding e using assms by (simp only: div_mult_mult2 neq0_conv)
  show "pg * P mod (S * (8 * P)) = (pg mod (8 * S)) * P"
    unfolding e by (simp only: mod_mult_mult2)
  show "(pg mod (8 * S)) * P div (8 * P) = pg mod (8 * S) div 8"
    using assms by simp
  have "(pg mod (8 * S)) * P - (pg mod (8 * S) div 8) * (8 * P) =
      (pg mod (8 * S) - 8 * (pg mod (8 * S) div 8)) * P"
    by (simp add: algebra_simps diff_mult_distrib)
  also have "pg mod (8 * S) - 8 * (pg mod (8 * S) div 8) = pg mod (8 * S) mod 8"
    by (simp add: minus_mult_div_eq_mod)
  also have "\<dots> = pg mod 8" by (simp add: mod_mod_cancel)
  finally show "(pg mod (8 * S)) * P - (pg mod (8 * S) div 8) * (8 * P) = (pg mod 8) * P" .
qed

lemma physaddr_as_indices_ok:
  assumes "shape a" and "PS a dvd paddr pa"
  obtains bi yi ti where "physaddr_as_indices a pa = Inr (bi, yi, ti)"
    and "unat bi = paddr pa div PS a div (8 * SB a)"
    and "unat yi = paddr pa div PS a mod (8 * SB a) div 8"
    and "unat ti = paddr pa div PS a mod 8"
proof -
  define pg where "pg = paddr pa div PS a"
  let ?w1 = "8 * alloc_page_size a" and ?w2 = "bitmap_size_bytes a * (8 * alloc_page_size a)"
  note pos = shape_pos [OF assms(1)] and sz = sizes_eq [OF assms(1)]
  have x: "paddr pa = pg * PS a" using assms(2) by (simp add: pg_def)
  note ar = page_index_arith [of "PS a" "SB a" pg]
  let ?off = "addr pa mod ?w2"
  let ?yi = "?off div ?w1"
  have nz: "alloc_page_size a \<noteq> 0" "?w1 \<noteq> 0" "?w2 \<noteq> 0"
    using pos sz(4,5) by (auto simp: unat_eq_iff)
  have rem: "addr pa mod alloc_page_size a = 0"
    using x by (simp add: unat_eq_iff unat_mod)
  have off: "unat ?off = (pg mod (8 * SB a)) * PS a"
    using pos ar(2) by (simp add: unat_mod sz(5) x)
  have yi: "unat ?yi = pg mod (8 * SB a) div 8"
    using pos ar(3) by (simp only: unat_div off sz(4))
  have fits: "unat ?yi * unat ?w1 \<le> unat ?off"
    by (simp only: unat_div) simp
  have prod: "unat (?yi * ?w1) = unat ?yi * unat ?w1"
    using le_less_trans [OF fits unat_lt_exp] by (rule unat_mult_no_overflow)
  have d: "unat (?off - ?yi * ?w1) = (pg mod 8) * PS a"
    using fits ar(4) pos by (simp add: unat_sub word_le_nat_alt prod yi off sz(4))
  have mulok: "mul_c ?yi ?w1 = Inr (?yi * ?w1)"
    using le_less_trans [OF fits unat_lt_exp] by (simp only: mul_c_alt if_True)
  have subok: "sub_c ?off (?yi * ?w1) = Inr (?off - ?yi * ?w1)"
    using fits by (simp add: sub_c_def word_le_nat_alt prod)
  show thesis
  proof (rule that)
    show "physaddr_as_indices a pa =
        Inr (addr pa div ?w2, ?yi, (?off - ?yi * ?w1) div alloc_page_size a)"
      using nz by (simp add: physaddr_as_indices_def sz(1,2) rem_c_def div_c_def rem mulok subok)
    show "unat (addr pa div ?w2) = paddr pa div PS a div (8 * SB a)"
      using pos ar(1) by (simp only: unat_div sz(5) x) (simp add: x)
    show "unat ?yi = paddr pa div PS a mod (8 * SB a) div 8"
      using yi by (simp add: pg_def)
    show "unat ((?off - ?yi * ?w1) div alloc_page_size a) = paddr pa div PS a mod 8"
      using pos by (simp only: unat_div d) (simp add: x)
  qed
qed

lemma div_eq_iff_range: "0 < k \<Longrightarrow> x div k = q \<longleftrightarrow> k * q \<le> x \<and> x < k * Suc q" for x k q :: nat
  by (metis div_less_iff_less_mult less_Suc_eq_le less_eq_div_iff_mult_less_eq mult.commute
      nle_le order_less_imp_not_less not_less_eq_eq)

lemma page_index_bounds:
  assumes "shape a"
  shows "p < npages a \<longleftrightarrow> p div (8 * SB a) < NB a" and "p mod (8 * SB a) div 8 < SB a"
proof -
  have pos: "0 < 8 * SB a" using shape_pos [OF assms] by simp
  show "p < npages a \<longleftrightarrow> p div (8 * SB a) < NB a"
    using pos by (simp add: npages_def div_less_iff_less_mult)
  have "p mod (8 * SB a) < SB a * 8" using pos by (simp add: mult.commute)
  then show "p mod (8 * SB a) div 8 < SB a" by (simp add: div_less_iff_less_mult)
qed

text \<open>The three indices determine the page.\<close>

lemma page_index_inject:
  fixes p q S :: nat
  assumes "p div (8 * S) = q div (8 * S)" and "p mod (8 * S) div 8 = q mod (8 * S) div 8"
    and "p mod 8 = q mod 8"
  shows "p = q"
proof -
  have "p mod (8 * S) mod 8 = q mod (8 * S) mod 8" using assms(3) by (simp add: mod_mod_cancel)
  with assms(2) have "p mod (8 * S) = q mod (8 * S)" by (metis div_mult_mod_eq)
  with assms(1) show ?thesis by (metis div_mult_mod_eq)
qed

section \<open>Setting one bit\<close>

lemma bit_set_bit: "k < 8 \<Longrightarrow> bit (w OR 2 ^ k :: u8) j \<longleftrightarrow> bit w j \<or> j = k"
  by (auto simp: bit_simps)

lemma bit_clear_bit: "j < 8 \<Longrightarrow> bit (w AND NOT (2 ^ k) :: u8) j \<longleftrightarrow> bit w j \<and> j \<noteq> k"
  by (auto simp: bit_simps)

lemma bit_test_iff: "0 < w AND 2 ^ k \<longleftrightarrow> bit w k" for w :: u8
  by (simp add: word_gt_0 and_exp_eq_0_iff_not_bit)

text \<open>Replacing one byte of the allocator.\<close>

definition put_byte :: "BitmapPageAlloc \<Rightarrow> nat \<Rightarrow> nat \<Rightarrow> u8 \<Rightarrow> BitmapPageAlloc" where
  "put_byte a b y w = a\<lparr>bitmaps := (bitmaps a)[b := (bitmaps a ! b)\<lparr>bytes :=
     (bytes (bitmaps a ! b))[y := w]\<rparr>]\<rparr>"

lemma put_byte_frame [simp]:
  "num_bitmaps (put_byte a b y w) = num_bitmaps a"
  "bitmap_size_bytes (put_byte a b y w) = bitmap_size_bytes a"
  "alloc_page_size (put_byte a b y w) = alloc_page_size a"
  "end_pa (put_byte a b y w) = end_pa a"
  "next_pa_to_scan (put_byte a b y w) = next_pa_to_scan a"
  "npages (put_byte a b y w) = npages a"
  by (simp_all add: put_byte_def npages_def)

lemma shape_put_byte: "shape a \<Longrightarrow> b < NB a \<Longrightarrow> shape (put_byte a b y w)"
  by (auto simp: shape_def put_byte_def npages_def dest!: set_update_subset_insert [THEN subsetD])

lemma shape_byte_len: "shape a \<Longrightarrow> b < NB a \<Longrightarrow> length (bytes (bitmaps a ! b)) = SB a"
  by (auto simp: shape_def)

lemma page_allocated_put_byte:
  assumes "shape a" and "b < NB a" and "y < SB a" and "p < npages a"
  shows "page_allocated (put_byte a b y w) p =
     (if p div (8 * SB a) = b \<and> p mod (8 * SB a) div 8 = y then bit w (p mod 8)
      else page_allocated a p)"
  using assms shape_byte_len [OF assms(1)]
  by (auto simp: page_allocated_def put_byte_def shape_def nth_list_update)

lemma set_page_effect:
  assumes "shape a" and "p < npages a" and "q < npages a"
    and "\<And>j. j < 8 \<Longrightarrow> bit w j \<longleftrightarrow>
      (if j = p mod 8 then v else bit (bytes (bitmaps a ! (p div (8 * SB a))) !
        (p mod (8 * SB a) div 8)) j)"
  shows "page_allocated (put_byte a (p div (8 * SB a)) (p mod (8 * SB a) div 8) w) q =
     (if q = p then v else page_allocated a q)"
proof (cases "q = p")
  case True
  with assms page_index_bounds [OF assms(1)] show ?thesis
    by (simp add: page_allocated_put_byte)
next
  case False
  then have "q div (8 * SB a) = p div (8 * SB a) \<Longrightarrow>
      q mod (8 * SB a) div 8 = p mod (8 * SB a) div 8 \<Longrightarrow> q mod 8 \<noteq> p mod 8"
    using page_index_inject by blast
  moreover have "page_allocated (put_byte a (p div (8 * SB a)) (p mod (8 * SB a) div 8) w) q =
      (if q div (8 * SB a) = p div (8 * SB a) \<and> q mod (8 * SB a) div 8 = p mod (8 * SB a) div 8
       then bit w (q mod 8) else page_allocated a q)"
    using assms page_index_bounds [OF assms(1)] by (intro page_allocated_put_byte) auto
  ultimately show ?thesis
    using False assms(4) [of "q mod 8"] by (auto simp: page_allocated_def [of a])
qed

lemma Bitmap_set_ok:
  assumes "unat i div 8 < length (bytes bm)"
  shows "Bitmap_set bm i b = Inr (bm\<lparr>bytes := (bytes bm)[unat i div 8 :=
     (if b then bytes bm ! (unat i div 8) OR 2 ^ (unat i mod 8)
      else bytes bm ! (unat i div 8) AND NOT (2 ^ (unat i mod 8)))]\<rparr>)"
  using assms by (simp add: Bitmap_set_def index_r_def unat_div unat_mod Let_def)

lemma Bitmap_is_set_ok:
  assumes "unat i div 8 < length (bytes bm)"
  shows "Bitmap_is_set bm i = Inr (bit (bytes bm ! (unat i div 8)) (unat i mod 8))"
  using assms by (simp add: Bitmap_is_set_def index_r_def unat_div unat_mod Let_def bit_test_iff)

section \<open>Marking ranges\<close>

definition put_page :: "BitmapPageAlloc \<Rightarrow> nat \<Rightarrow> bool \<Rightarrow> BitmapPageAlloc" where
  "put_page a p v =
     (let b = p div (8 * SB a); y = p mod (8 * SB a) div 8; w = bytes (bitmaps a ! b) ! y
      in put_byte a b y (if v then w OR 2 ^ (p mod 8) else w AND NOT (2 ^ (p mod 8))))"

lemma put_page_frame [simp]:
  "num_bitmaps (put_page a p v) = num_bitmaps a"
  "bitmap_size_bytes (put_page a p v) = bitmap_size_bytes a"
  "alloc_page_size (put_page a p v) = alloc_page_size a"
  "end_pa (put_page a p v) = end_pa a"
  "next_pa_to_scan (put_page a p v) = next_pa_to_scan a"
  "npages (put_page a p v) = npages a"
  by (simp_all add: put_page_def Let_def)

lemma put_page_only_bitmaps: "put_page a p v = a\<lparr>bitmaps := bitmaps (put_page a p v)\<rparr>"
  by (simp add: put_page_def put_byte_def Let_def)

lemma shape_put_page: "shape a \<Longrightarrow> p < npages a \<Longrightarrow> shape (put_page a p v)"
  by (simp add: put_page_def Let_def shape_put_byte page_index_bounds)

lemma page_allocated_put_page:
  assumes "shape a" and "p < npages a" and "q < npages a"
  shows "page_allocated (put_page a p v) q = (if q = p then v else page_allocated a q)"
  unfolding put_page_def Let_def
  by (rule set_page_effect [OF assms]) (auto simp: bit_set_bit bit_clear_bit)

lemma bit_position_arith:
  fixes yi ti :: usize
  assumes "unat yi < 2 ^ 61" and "unat ti < 8"
  shows "mul_c 8 yi = Inr (8 * yi)" and "add_c (8 * yi) ti = Inr (8 * yi + ti)"
    and "unat (8 * yi + ti) div 8 = unat yi" and "unat (8 * yi + ti) mod 8 = unat ti"
proof -
  have e8: "unat (8 :: usize) = 8" by simp
  have m: "unat (8 * yi) = 8 * unat yi"
    using assms(1) by (subst unat_mult_no_overflow) (simp_all add: e8)
  have s: "unat (8 * yi + ti) = 8 * unat yi + unat ti"
    using assms by (subst unat_add_no_overflow) (simp_all add: m)
  show "mul_c 8 yi = Inr (8 * yi)" using assms(1) by (simp add: mul_c_alt)
  show "add_c (8 * yi) ti = Inr (8 * yi + ti)" using assms by (simp add: add_c_alt m)
  show "unat (8 * yi + ti) div 8 = unat yi" and "unat (8 * yi + ti) mod 8 = unat ti"
    using assms(2) by (simp_all add: s)
qed

lemma shape_SB_small: "shape a \<Longrightarrow> SB a < 2 ^ 61"
proof -
  assume sh: "shape a"
  have "SB a * 8 \<le> SB a * (8 * PS a)" using shape_pos [OF sh] by simp
  also have "\<dots> < 2 ^ 64" by (rule shape_bounds(2) [OF sh])
  finally show ?thesis by simp
qed

lemma mark_pages_Cons:
  assumes sh: "shape a" and al: "PS a dvd paddr pa" and lt: "paddr pa div PS a < npages a"
  shows "mark_pages a (pa # pas) v = mark_pages (put_page a (paddr pa div PS a) v) pas v"
proof -
  define p where "p = paddr pa div PS a"
  obtain bi yi ti where ix: "physaddr_as_indices a pa = Inr (bi, yi, ti)"
    and bi: "unat bi = p div (8 * SB a)" and yi: "unat yi = p mod (8 * SB a) div 8"
    and ti: "unat ti = p mod 8"
    using physaddr_as_indices_ok [OF sh al] unfolding p_def by metis
  note bnd = page_index_bounds [OF sh]
  have "unat bi < NB a" using lt bi bnd(1) by (simp add: p_def)
  moreover have ysb: "unat yi < SB a" using yi bnd(2) by simp
  moreover have y61: "unat yi < 2 ^ 61" using ysb shape_SB_small [OF sh] by linarith
  moreover have t8: "unat ti < 8" by (simp add: ti)
  ultimately show ?thesis
    using bit_position_arith [OF y61 t8] sh shape_byte_len [OF sh, of "unat bi"]
    by (simp add: ix shape_def Bitmap_set_ok put_page_def put_byte_def Let_def
        flip: p_def bi yi ti)
qed

lemma mark_pages_effect:
  assumes "shape a" and "\<forall>pa \<in> set pas. PS a dvd paddr pa \<and> paddr pa < npages a * PS a"
  shows "\<exists>a'. mark_pages a pas v = Inr (a', Inr ()) \<and> shape a' \<and> a' = a\<lparr>bitmaps := bitmaps a'\<rparr> \<and>
     (\<forall>q < npages a. page_allocated a' q =
        (if q * PS a \<in> paddr ` set pas then v else page_allocated a q))"
  using assms
proof (induction pas arbitrary: a)
  case Nil
  then show ?case by simp
next
  case (Cons pa pas)
  define p where "p = paddr pa div PS a"
  have pos: "0 < PS a" using shape_pos [OF Cons.prems(1)] by simp
  have al: "PS a dvd paddr pa" and p: "p < npages a" and pa: "paddr pa = p * PS a"
    using Cons.prems(2) pos by (auto simp: p_def div_less_iff_less_mult)
  let ?a = "put_page a p v"
  have "shape ?a" using Cons.prems(1) p by (rule shape_put_page)
  moreover have "\<forall>x \<in> set pas. PS ?a dvd paddr x \<and> paddr x < npages ?a * PS ?a"
    using Cons.prems(2) by simp
  ultimately obtain a' where a': "mark_pages ?a pas v = Inr (a', Inr ())" "shape a'"
      "a' = ?a\<lparr>bitmaps := bitmaps a'\<rparr>"
    and eff: "\<forall>q < npages a. page_allocated a' q =
        (if q * PS a \<in> paddr ` set pas then v else page_allocated ?a q)"
    using Cons.IH [of ?a] by auto
  have "a' = a\<lparr>bitmaps := bitmaps a'\<rparr>"
    by (subst a'(3), subst put_page_only_bitmaps) simp
  moreover have "\<forall>q < npages a. page_allocated a' q =
      (if q * PS a \<in> paddr ` set (pa # pas) then v else page_allocated a q)"
    using eff pos by (auto simp: page_allocated_put_page [OF Cons.prems(1) p] pa)
  moreover have "mark_pages a (pa # pas) v = Inr (a', Inr ())"
    using mark_pages_Cons [OF Cons.prems(1) al] p a'(1) by (simp add: p_def)
  ultimately show ?case using a'(2) by blast
qed

text \<open>Page \<open>p\<close> and the byte range share an address (up to the rounding of the range).\<close>

definition page_overlaps :: "nat \<Rightarrow> PhysRange \<Rightarrow> nat \<Rightarrow> bool" where
  "page_overlaps P r p \<longleftrightarrow> paddr (pr_start r) < (p + 1) * P \<and> p * P < paddr (pr_end r)"

lemma mark_range_effect:
  assumes sh: "shape a" and chk: "c \<longrightarrow> pr_end r \<le> end_pa a"
    and bnd: "paddr (pr_end r) \<le> npages a * PS a"
  obtains a' where "mark_range a r v c = Inr (a', Inr ())" and "shape a'"
    and "a' = a\<lparr>bitmaps := bitmaps a'\<rparr>"
    and "\<And>q. q < npages a \<Longrightarrow> page_allocated a' q =
        (if page_overlaps (PS a) r q then v else page_allocated a q)"
proof -
  have "is_power_of_two (alloc_page_size a)" and "paddr (pr_end r) + PS a < 2 ^ 64"
    using sh bnd by (auto simp: shape_def)
  then obtain pas where pas: "step_by_rounded r (alloc_page_size a) = Inr pas"
    using step_by_rounded_ok by blast
  note mem = step_by_rounded_members [OF pas]
  have "\<forall>pa \<in> set pas. PS a dvd paddr pa \<and> paddr pa < npages a * PS a"
    using mem bnd by (auto simp: paddr_less_iff)
  from mark_pages_effect [OF sh this, of v] obtain a' where
    a': "mark_pages a pas v = Inr (a', Inr ())" "shape a'" "a' = a\<lparr>bitmaps := bitmaps a'\<rparr>"
    and eff: "\<forall>q < npages a. page_allocated a' q =
        (if q * PS a \<in> paddr ` set pas then v else page_allocated a q)"
    by blast
  have img: "q * PS a \<in> paddr ` set pas \<longleftrightarrow> page_overlaps (PS a) r q" if "q < npages a" for q
  proof -
    have "q * PS a \<le> npages a * PS a" using that by simp
    also have "\<dots> < 2 ^ 64" using sh by (simp add: shape_def)
    finally have "q * PS a < 2 ^ 64" .
    then obtain pq where q: "paddr pq = q * PS a"
      using paddr_surj by blast
    then have "q * PS a \<in> paddr ` set pas \<longleftrightarrow> pq \<in> set pas"
      by (auto simp: paddr_inject simp flip: q)
    then show ?thesis
      using q by (simp add: mem page_overlaps_def paddr_less_iff add.commute)
  qed
  show thesis
  proof (rule that [OF _ a'(2,3)])
    show "mark_range a r v c = Inr (a', Inr ())"
      using chk pas a'(1) by (auto simp: mark_range_def)
    show "\<And>q. q < npages a \<Longrightarrow> page_allocated a' q =
        (if page_overlaps (PS a) r q then v else page_allocated a q)"
      using eff img by auto
  qed
qed

section \<open>Freeing what the memory map leaves unused\<close>

text \<open>A byte of a page, and a byte of a range.\<close>

definition in_range :: "PhysRange \<Rightarrow> nat \<Rightarrow> bool" where
  "in_range r b \<longleftrightarrow> paddr (pr_start r) \<le> b \<and> b < paddr (pr_end r)"

lemma gap_overlaps_iff:
  assumes "0 < P" and "s < e"
  shows "page_overlaps P (PhysRange_new s e) q \<longleftrightarrow> (\<exists>b. b div P = q \<and> paddr s \<le> b \<and> b < paddr e)"
proof
  assume "page_overlaps P (PhysRange_new s e) q"
  then have o: "paddr s < (q + 1) * P" "q * P < paddr e" by (simp_all add: page_overlaps_def PhysRange_new_def)
  let ?b = "max (paddr s) (q * P)"
  have "?b div P = q" using assms(1) o(1) by (intro div_nat_eqI) (simp_all add: mult.commute)
  then show "\<exists>b. b div P = q \<and> paddr s \<le> b \<and> b < paddr e"
    using o assms(2) by (intro exI [of _ ?b]) (simp add: paddr_less_iff)
next
  assume "\<exists>b. b div P = q \<and> paddr s \<le> b \<and> b < paddr e"
  then obtain b where b: "b div P = q" "paddr s \<le> b" "b < paddr e" by blast
  have "b < (q + 1) * P" "q * P \<le> b"
    using assms(1) b(1) by (metis add.commute dividend_less_div_times mult_Suc plus_1_eq_Suc) (metis b(1) div_times_less_eq_dividend)
  then show "page_overlaps P (PhysRange_new s e) q" using b by (simp add: page_overlaps_def PhysRange_new_def)
qed

text \<open>Freeing from one address up to another, when there is something between them.\<close>

lemma mark_gap_effect:
  assumes sh: "shape a" and "e \<le> end_pa a" and "paddr (end_pa a) \<le> npages a * PS a"
  obtains a' where "(if s < e then mark_free a (PhysRange_new s e) else Inr (a, Inr ())) = Inr (a', Inr ())"
    and "shape a'" and "a' = a\<lparr>bitmaps := bitmaps a'\<rparr>"
    and "\<And>q. q < npages a \<Longrightarrow> page_allocated a' q \<longleftrightarrow>
      page_allocated a q \<and> \<not> (\<exists>b. b div PS a = q \<and> paddr s \<le> b \<and> b < paddr e)"
proof (cases "s < e")
  case True
  let ?gap = "PhysRange_new s e"
  have pos: "0 < PS a" using shape_pos [OF sh] by simp
  have "pr_end ?gap \<le> end_pa a" "paddr (pr_end ?gap) \<le> npages a * PS a"
    using assms by (auto simp: PhysRange_new_def paddr_le_iff)
  then obtain a' where "mark_range a ?gap False True = Inr (a', Inr ())" "shape a'" "a' = a\<lparr>bitmaps := bitmaps a'\<rparr>"
    and "\<And>q. q < npages a \<Longrightarrow> page_allocated a' q = (if page_overlaps (PS a) ?gap q then False else page_allocated a q)"
    using mark_range_effect [OF sh, of True ?gap False] by blast
  then show thesis using True gap_overlaps_iff [OF pos True] by (intro that [of a']) (auto simp: mark_free_def)
next
  case False
  then show thesis using sh by (intro that [of a]) (auto simp: paddr_less_iff)
qed

lemma free_gaps_effect:
  assumes "shape a" and "\<forall>r \<in> set rs. pr_start r \<le> end_pa a" and "paddr (end_pa a) \<le> npages a * PS a"
    and "sorted_wrt (\<lambda>r s. pr_start r \<le> pr_start s) rs"
  shows "\<exists>a' ns'. free_gaps a ns rs = Inr (a', Inr ns') \<and> shape a' \<and>
     a' = a\<lparr>bitmaps := bitmaps a'\<rparr> \<and>
     (\<forall>x. paddr ns' \<le> x \<longleftrightarrow> paddr ns \<le> x \<and> (\<forall>r \<in> set rs. paddr (pr_end r) \<le> x)) \<and>
     (\<forall>q < npages a. page_allocated a' q \<longleftrightarrow> page_allocated a q \<and>
        \<not> (\<exists>b. b div PS a = q \<and> paddr ns \<le> b \<and> (\<exists>r \<in> set rs. b < paddr (pr_start r)) \<and> (\<forall>r \<in> set rs. \<not> in_range r b)))"
  using assms
proof (induction rs arbitrary: a ns)
  case Nil
  then show ?case by simp
next
  case (Cons r rs)
  let ?P = "PS a"
  have "pr_start r \<le> end_pa a" using Cons.prems(2) by simp
  from Cons.prems(1) this Cons.prems(3) obtain a1
    where a1: "(if ns < pr_start r then mark_free a (PhysRange_new ns (pr_start r)) else Inr (a, Inr ())) =
      Inr (a1, Inr ())" "shape a1" "a1 = a\<lparr>bitmaps := bitmaps a1\<rparr>"
    and eff1: "\<And>q. q < npages a \<Longrightarrow> page_allocated a1 q \<longleftrightarrow>
      page_allocated a q \<and> \<not> (\<exists>b. b div ?P = q \<and> paddr ns \<le> b \<and> b < paddr (pr_start r))"
    by (rule mark_gap_effect [where s = ns]) (rule that)
  have same: "PS a1 = ?P" "npages a1 = npages a" "end_pa a1 = end_pa a"
    by (subst a1(3), simp add: npages_def)+
  let ?ns1 = "if ns < pr_end r then pr_end r else ns"
  have ns1: "\<And>x. paddr ?ns1 \<le> x \<longleftrightarrow> paddr ns \<le> x \<and> paddr (pr_end r) \<le> x"
    by (auto simp: paddr_less_iff)
  obtain a' ns' where IH: "free_gaps a1 ?ns1 rs = Inr (a', Inr ns')" "shape a'" "a' = a1\<lparr>bitmaps := bitmaps a'\<rparr>"
      "\<forall>x. paddr ns' \<le> x \<longleftrightarrow> paddr ?ns1 \<le> x \<and> (\<forall>r \<in> set rs. paddr (pr_end r) \<le> x)"
    and eff2: "\<forall>q < npages a. page_allocated a' q \<longleftrightarrow> page_allocated a1 q \<and>
        \<not> (\<exists>b. b div ?P = q \<and> paddr ?ns1 \<le> b \<and> (\<exists>r \<in> set rs. b < paddr (pr_start r)) \<and> (\<forall>r \<in> set rs. \<not> in_range r b))"
    using Cons.IH [of a1 ?ns1] a1(2) Cons.prems(2-4) by (auto simp: same)
  have later: "\<And>r'. r' \<in> set rs \<Longrightarrow> paddr (pr_start r) \<le> paddr (pr_start r')"
    using Cons.prems(4) by (auto simp: paddr_le_iff)
  have byte: "paddr ns \<le> b \<and> b < paddr (pr_start r) \<or>
        paddr ?ns1 \<le> b \<and> (\<exists>r \<in> set rs. b < paddr (pr_start r)) \<and> (\<forall>r \<in> set rs. \<not> in_range r b) \<longleftrightarrow>
      paddr ns \<le> b \<and> (\<exists>r \<in> set (r # rs). b < paddr (pr_start r)) \<and> (\<forall>r \<in> set (r # rs). \<not> in_range r b)" for b
    unfolding ns1 using later by (fastforce simp: in_range_def)
  have eff: "page_allocated a' q \<longleftrightarrow> page_allocated a q \<and>
        \<not> (\<exists>b. b div ?P = q \<and> paddr ns \<le> b \<and> (\<exists>r \<in> set (r # rs). b < paddr (pr_start r)) \<and> (\<forall>r \<in> set (r # rs). \<not> in_range r b))"
    if "q < npages a" for q
    using eff1 [OF that] eff2 that unfolding byte [symmetric] by metis
  have fr: "a' = a\<lparr>bitmaps := bitmaps a'\<rparr>"
    by (subst IH(3), subst a1(3)) simp
  have "free_gaps a ns (r # rs) = Inr (a', Inr ns')"
    using a1(1) IH(1) by simp
  with IH(2,4) fr eff ns1 show ?case by (intro exI [of _ a'] exI [of _ ns']) auto
qed

lemma free_unused_ranges_effect:
  assumes inv: "pa_inv a" and srt: "sorted_wrt (\<lambda>r s. pr_start r \<le> pr_start s) used"
    and fit: "\<forall>r \<in> set used. pr_start r \<le> end_pa a" "pr_end avail \<le> end_pa a"
  obtains a' where "free_unused_ranges a avail used = Inr (a', Inr ())" and "pa_inv a'"
    and "end_pa a' = pr_end avail" and "npages a' = npages a" and "PS a' = PS a"
    and "\<And>q. q < npages a \<Longrightarrow> page_allocated a' q \<longleftrightarrow>
       paddr (pr_end avail) < (q + 1) * PS a \<or>
       (page_allocated a q \<and>
        \<not> (\<exists>b. b div PS a = q \<and> paddr (pr_start avail) \<le> b \<and> (\<forall>r \<in> set used. \<not> in_range r b)))"
proof -
  let ?P = "PS a" and ?S = "paddr (pr_start avail)" and ?E = "paddr (pr_end avail)"
  have sh: "shape a" and endmax: "paddr (end_pa a) \<le> npages a * ?P"
    using inv by (auto simp: pa_inv_def)
  have pos: "0 < ?P" using shape_pos [OF sh] by simp
  obtain a1 ns where g: "free_gaps a (pr_start avail) used = Inr (a1, Inr ns)" "shape a1"
      "a1 = a\<lparr>bitmaps := bitmaps a1\<rparr>"
    and nsx: "\<forall>x. paddr ns \<le> x \<longleftrightarrow> ?S \<le> x \<and> (\<forall>r \<in> set used. paddr (pr_end r) \<le> x)"
    and e1: "\<forall>q < npages a. page_allocated a1 q \<longleftrightarrow> page_allocated a q \<and>
        \<not> (\<exists>b. b div ?P = q \<and> ?S \<le> b \<and> (\<exists>r \<in> set used. b < paddr (pr_start r)) \<and> (\<forall>r \<in> set used. \<not> in_range r b))"
    using free_gaps_effect [OF sh fit(1) endmax srt, of "pr_start avail"] by (elim exE conjE) (rule that)
  have s1: "PS a1 = ?P" "npages a1 = npages a" "end_pa a1 = end_pa a"
    by (subst g(3), simp add: npages_def)+
  have "pr_end avail \<le> end_pa a1" "paddr (end_pa a1) \<le> npages a1 * PS a1" using fit(2) endmax by (simp_all add: s1)
  from g(2) this obtain a2
    where m: "(if ns < pr_end avail then mark_free a1 (PhysRange_new ns (pr_end avail)) else Inr (a1, Inr ())) =
      Inr (a2, Inr ())" "shape a2" "a2 = a1\<lparr>bitmaps := bitmaps a2\<rparr>"
    and e2: "\<And>q. q < npages a1 \<Longrightarrow> page_allocated a2 q \<longleftrightarrow>
      page_allocated a1 q \<and> \<not> (\<exists>b. b div PS a1 = q \<and> paddr ns \<le> b \<and> b < ?E)"
    by (rule mark_gap_effect [where s = ns]) (rule that)
  have s2: "PS a2 = ?P" "npages a2 = npages a"
    by (subst m(3), simp add: s1 npages_def [of "a1\<lparr>bitmaps := _\<rparr>"] flip: npages_def)+
  define a3 where "a3 = a2\<lparr>end_pa := pr_end avail\<rparr>"
  have s3: "PS a3 = ?P" "npages a3 = npages a" "end_pa a3 = pr_end avail" "shape a3"
      "page_allocated a3 = page_allocated a2"
    using m(2) s2 by (simp_all add: a3_def npages_def shape_def page_allocated_def [abs_def])
  obtain mx where mx: "max_bytes a3 = Inr mx" "unat mx = npages a * ?P"
    using sizes_eq(3,6) [OF s3(4)] s3(1,2) by simp
  let ?top = "PhysRange_new (pr_end avail) (PhysAddr mx)"
  obtain a4 where t: "mark_range a3 ?top True False = Inr (a4, Inr ())" "shape a4"
      "a4 = a3\<lparr>bitmaps := bitmaps a4\<rparr>"
    and e4: "\<And>q. q < npages a3 \<Longrightarrow> page_allocated a4 q =
      (if page_overlaps (PS a3) ?top q then True else page_allocated a3 q)"
    using mark_range_effect [OF s3(4), of False ?top True] mx(2)
    by (auto simp: PhysRange_new_def s3(1,2))
  define a' where "a' = a4\<lparr>next_pa_to_scan := PhysAddr 0\<rparr>"
  have s4: "PS a4 = ?P" "npages a4 = npages a" "end_pa a4 = pr_end avail"
    by (subst t(3), simp add: s3 npages_def [of "a3\<lparr>bitmaps := _\<rparr>"] flip: npages_def)+
  have s': "PS a' = ?P" "npages a' = npages a" "end_pa a' = pr_end avail" "shape a'"
      "page_allocated a' = page_allocated a4"
    using t(2) s4 by (simp_all add: a'_def npages_def shape_def page_allocated_def [abs_def])
  have eff: "page_allocated a' q \<longleftrightarrow> ?E < (q + 1) * ?P \<or> (page_allocated a q \<and>
      \<not> (\<exists>b. b div ?P = q \<and> ?S \<le> b \<and> (\<forall>r \<in> set used. \<not> in_range r b)))" if q: "q < npages a" for q
  proof -
    have top: "page_overlaps ?P ?top q \<longleftrightarrow> ?E < (q + 1) * ?P"
      using q pos mx(2) by (simp add: page_overlaps_def PhysRange_new_def)
    have inside: "b < ?E" if "\<not> ?E < (q + 1) * ?P" "b div ?P = q" for b
      using that pos dividend_less_div_times [OF pos, of b] by (simp add: add.commute)
    have byte: "?S \<le> b \<and> (\<forall>r \<in> set used. \<not> in_range r b) \<longleftrightarrow>
        ?S \<le> b \<and> (\<exists>r \<in> set used. b < paddr (pr_start r)) \<and> (\<forall>r \<in> set used. \<not> in_range r b) \<or> paddr ns \<le> b" for b
      unfolding spec [OF nsx]
      by (cases "\<exists>r \<in> set used. b < paddr (pr_start r)") (auto simp: in_range_def not_less)
    show ?thesis
    proof (cases "?E < (q + 1) * ?P")
      case True
      then show ?thesis using e4 [of q] q top by (simp add: s3 s')
    next
      case False
      then have "page_allocated a' q \<longleftrightarrow> page_allocated a q \<and>
          \<not> (\<exists>b. b div ?P = q \<and> ?S \<le> b \<and> (\<exists>r \<in> set used. b < paddr (pr_start r)) \<and> (\<forall>r \<in> set used. \<not> in_range r b)) \<and>
          \<not> (\<exists>b. b div ?P = q \<and> paddr ns \<le> b)"
        using e1 e2 [of q] e4 [of q] q top inside unfolding s1 s3 s' by auto
      then show ?thesis using False byte by metis
    qed
  qed
  show thesis
  proof (rule that [OF _ _ s'(3,2,1) eff])
    show "free_unused_ranges a avail used = Inr (a', Inr ())"
      using g(1) m(1) mx(1) t(1) s3(3)
      by (simp add: free_unused_ranges_def Let_def a'_def flip: a3_def)
    have "(p + 1) * ?P \<le> ?E" if "p \<in> free_pages a'" for p
    proof -
      have "\<not> ?E < (p + 1) * ?P" using that eff [of p] by (auto simp: free_pages_def s')
      then show ?thesis by simp
    qed
    moreover have "next_pa_to_scan a' = PhysAddr 0" by (simp add: a'_def)
    ultimately show "pa_inv a'"
      using s' fit(2) endmax npages_pos [OF sh] pos by (simp add: pa_inv_def paddr_le_iff)
  qed
qed

section \<open>Iterating over the bytes\<close>

text \<open>The byte with linear number \<open>n\<close>, and the closure standing at it.\<close>

definition ix_of :: "BitmapPageAlloc \<Rightarrow> nat \<Rightarrow> ByteIndices" where
  "ix_of a n = \<lparr>bi_bitmap = word_of_nat (n div SB a), bi_byte = word_of_nat (n mod SB a)\<rparr>"

definition iter_at :: "BitmapPageAlloc \<Rightarrow> nat \<Rightarrow> nat \<Rightarrow> ByteIter \<Rightarrow> bool" where
  "iter_at a s n it \<longleftrightarrow>
     unat (start_bitmap_idx it) = s div SB a \<and> unat (start_byte_idx it) = s mod SB a \<and>
     unat (it_bitmap_idx it) = n div SB a \<and> unat (it_byte_idx it) = n mod SB a"

abbreviation nbytes :: "BitmapPageAlloc \<Rightarrow> nat" where
  "nbytes a \<equiv> NB a * SB a"

text \<open>The closure yields exactly this list of bytes and then ends.\<close>

inductive yields :: "BitmapPageAlloc \<Rightarrow> ByteIter \<Rightarrow> ByteIndices list \<Rightarrow> bool" for a where
  stop: "indices_next a it = Inr None \<Longrightarrow> yields a it []"
| more: "indices_next a it = Inr (Some (ix, it')) \<Longrightarrow> yields a it' ixs \<Longrightarrow> yields a it (ix # ixs)"

lemma nbytes_iff: "0 < SB a \<Longrightarrow> n div SB a < NB a \<longleftrightarrow> n < nbytes a"
  by (simp add: div_less_iff_less_mult)

lemma iter_at_same:
  assumes "0 < SB a" and "iter_at a s n it"
  shows "it_bitmap_idx it = start_bitmap_idx it \<and> it_byte_idx it = start_byte_idx it \<longleftrightarrow> n = s"
  using assms by (auto simp: iter_at_def unat_eq_iff) (metis div_mult_mod_eq)

lemma iter_at_ix:
  assumes "iter_at a s n it"
  shows "\<lparr>bi_bitmap = it_bitmap_idx it, bi_byte = it_byte_idx it\<rparr> = ix_of a n"
  using assms by (simp add: iter_at_def ix_of_def word_of_nat_eqI [symmetric])

lemma wrap_keep:
  assumes "shape a" and "iter_at a s n it" and "n < nbytes a" and "currpa it < end_pa a"
  shows "indices_wrap a it = it"
  using assms nbytes_iff [of a n] shape_pos [OF assms(1)]
  by (auto simp: indices_wrap_def iter_at_def shape_def)

lemma wrap_reset:
  assumes "shape a" and "iter_at a s n it" and "nbytes a \<le> n \<or> end_pa a \<le> currpa it"
  shows "iter_at a s 0 (indices_wrap a it)" and "currpa (indices_wrap a it) = PhysAddr 0"
    and "passed_first (indices_wrap a it) = passed_first it"
  using assms nbytes_iff [of a n] shape_pos [OF assms(1)]
  by (auto simp: indices_wrap_def iter_at_def shape_def not_less [symmetric])

lemma emit_stop:
  assumes "0 < SB a" and "iter_at a s s it" and "passed_first it"
  shows "indices_emit a it = Inr None"
  using iter_at_same [OF assms(1,2)] assms(3) by (simp add: indices_emit_def)

lemma emit_step:
  assumes sh: "shape a" and at: "iter_at a s n it" and n: "n < nbytes a"
    and go: "passed_first it \<Longrightarrow> n \<noteq> s" and pa: "paddr (currpa it) \<le> npages a * PS a"
  obtains it' where "indices_emit a it = Inr (Some (ix_of a n, it'))"
    and "iter_at a s (Suc n) it'" and "passed_first it'"
    and "paddr (currpa it') =
      paddr (currpa it) + (Suc n div SB a - n div SB a) * PS a"
proof -
  note pos = shape_pos [OF sh]
  let ?y = "it_byte_idx it" and ?b = "it_bitmap_idx it"
  have y: "unat ?y = n mod SB a" "unat ?y < SB a" and b: "unat ?b = n div SB a"
    using at pos by (auto simp: iter_at_def)
  have ysum: "unat (?y + 1) = Suc (n mod SB a)" "add_c ?y 1 = Inr (?y + 1)"
    using y shape_SB_small [OF sh] by (simp_all add: unat_add_no_overflow add_c_alt)
  have "NB a * 8 \<le> NB a * (SB a * (8 * PS a))" using pos by simp
  also have "\<dots> < 2 ^ 64" by (rule shape_bounds(3) [OF sh])
  finally have NB: "NB a < 2 ^ 61" by simp
  have bNB: "unat ?b < NB a" using b n nbytes_iff [of a n] pos by simp
  have bsum: "unat (?b + 1) = Suc (n div SB a)" "add_c ?b 1 = Inr (?b + 1)"
    using b bNB NB by (simp_all add: unat_add_no_overflow add_c_alt)
  have "paddr (currpa it) + PS a < 2 ^ 64" using pa sh by (simp add: shape_def)
  then obtain pa' where pa': "PhysAddr_add (currpa it) (alloc_page_size a) = Inr pa'"
      "paddr pa' = paddr (currpa it) + PS a"
    by (auto simp: PhysAddr_add_def add_c_alt unat_add_no_overflow)
  have cont: "\<not> (passed_first it \<and> ?b = start_bitmap_idx it \<and> ?y = start_byte_idx it)"
    using go iter_at_same [OF _ at] pos by auto
  show thesis
  proof (cases "Suc (n mod SB a) = SB a")
    case True
    then have d: "Suc n div SB a = Suc (n div SB a)" "Suc n mod SB a = 0"
      by (simp_all add: div_Suc mod_Suc)
    have "bitmap_size_bytes a \<le> ?y + 1" using True ysum by (simp add: word_le_nat_alt)
    then show thesis
      using cont ysum bsum pa' d at
      by (intro that [of "it\<lparr>passed_first := True, it_byte_idx := 0, it_bitmap_idx := ?b + 1,
            currpa := pa'\<rparr>"])
        (auto simp: indices_emit_def Let_def iter_at_ix [OF at] iter_at_def)
  next
    case False
    then have d: "Suc n div SB a = n div SB a" "Suc n mod SB a = Suc (n mod SB a)"
      by (simp_all add: div_Suc mod_Suc)
    have "\<not> bitmap_size_bytes a \<le> ?y + 1" using False y ysum by (simp add: word_le_nat_alt)
    then show thesis
      using cont ysum d at
      by (intro that [of "it\<lparr>passed_first := True, it_byte_idx := ?y + 1\<rparr>"])
        (auto simp: indices_emit_def Let_def iter_at_ix [OF at] iter_at_def)
  qed
qed

lemma div_diff_le: "s \<le> n \<Longrightarrow> n div k - s div k \<le> n - s" for n s k :: nat
proof (induction "n - s" arbitrary: n)
  case 0
  then show ?case by simp
next
  case (Suc d)
  then obtain m where m: "n = Suc m" "s \<le> m" "d = m - s" by (cases n) auto
  with Suc.hyps(1) [of m] show ?case by (auto simp: div_Suc)
qed

text \<open>After cycling back, the bytes below the start follow, one by one.\<close>

lemma yields_low:
  assumes "shape a" and "s < nbytes a" and "8 * s * PS a \<le> paddr (end_pa a)"
    and "paddr (end_pa a) \<le> npages a * PS a"
    and "iter_at a s n it" and "passed_first it" and "n \<le> s"
    and "paddr (currpa it) = (n div SB a) * PS a"
  shows "yields a it (map (ix_of a) [n..<s])"
  using assms(5-8)
proof (induction "s - n" arbitrary: n it)
  case 0
  note pos = shape_pos [OF assms(1)]
  from 0 have [simp]: "n = s" by simp
  have "indices_next a it = Inr None"
  proof (cases "end_pa a \<le> currpa it")
    case False
    then show ?thesis
      using wrap_keep [OF assms(1) 0(2)] assms(2) emit_stop 0 pos by (auto simp: indices_next_def not_le)
  next
    case True
    have "s = 0"
    proof (rule ccontr)
      assume "s \<noteq> 0"
      have "(s div SB a) * PS a \<le> s * PS a" by simp
      also have "\<dots> < 8 * s * PS a" using \<open>s \<noteq> 0\<close> pos by simp
      also note assms(3)
      also have "paddr (end_pa a) \<le> (s div SB a) * PS a" using True 0 by (simp add: paddr_le_iff)
      finally show False by simp
    qed
    then show ?thesis
      using wrap_reset [OF assms(1) 0(2)] True emit_stop 0 pos by (auto simp: indices_next_def)
  qed
  then show ?case by (auto intro: yields.stop)
next
  case (Suc d)
  note pos = shape_pos [OF assms(1)]
  have lt: "n < s" using Suc by simp
  have "(n div SB a) * PS a \<le> n * PS a" by simp
  also have "\<dots> < 8 * s * PS a" using lt pos by (simp add: less_le_trans [OF _ mult_le_mono1])
  also note assms(3)
  finally have "currpa it < end_pa a" using Suc.prems by (simp add: paddr_less_iff)
  then have w: "indices_wrap a it = it"
    using wrap_keep [OF assms(1) Suc.prems(1)] assms(2) lt by simp
  have "paddr (currpa it) \<le> npages a * PS a"
    using \<open>currpa it < end_pa a\<close> assms(4) by (simp add: paddr_less_iff)
  then obtain it' where e: "indices_emit a it = Inr (Some (ix_of a n, it'))"
      "iter_at a s (Suc n) it'" "passed_first it'"
      "paddr (currpa it') = paddr (currpa it) + (Suc n div SB a - n div SB a) * PS a"
    using emit_step [OF assms(1) Suc.prems(1) less_trans [OF lt assms(2)] less_imp_neq [OF lt]] by blast
  have "paddr (currpa it') = (Suc n div SB a) * PS a"
    using e(4) Suc.prems(4) by (simp add: div_le_mono flip: add_mult_distrib)
  then have "yields a it' (map (ix_of a) [Suc n..<s])"
    using Suc.hyps e lt by simp
  moreover have "indices_next a it = Inr (Some (ix_of a n, it'))"
    by (simp add: indices_next_def w e(1))
  ultimately show ?case using lt by (simp add: upt_conv_Cons yields.more)
qed

text \<open>
  Past the start, the bytes follow until the last bitmap ends or the running address reaches
  the end of the memory; the bytes skipped then lie at or above the end.
\<close>

lemma yields_high:
  assumes "shape a" and "s < nbytes a" and "8 * s * PS a \<le> paddr (end_pa a)"
    and "paddr (end_pa a) \<le> npages a * PS a"
    and "iter_at a s n it" and "passed_first it" and "s < n" and "n \<le> nbytes a"
    and "paddr (currpa it) = (8 * s + (n div SB a - s div SB a)) * PS a"
  shows "\<exists>k. n \<le> k \<and> k \<le> nbytes a \<and> (\<forall>m. k \<le> m \<longrightarrow> m < nbytes a \<longrightarrow> paddr (end_pa a) \<le> 8 * m * PS a) \<and>
    yields a it (map (ix_of a) ([n..<k] @ [0..<s]))"
  using assms(5-9)
proof (induction "nbytes a - n" arbitrary: n it rule: less_induct)
  case less
  note pos = shape_pos [OF assms(1)]
  have cur: "paddr (currpa it) \<le> 8 * n * PS a"
  proof -
    have "8 * s + (n div SB a - s div SB a) \<le> 8 * n"
      using div_diff_le [of s n "SB a"] less.prems(3) by linarith
    then show ?thesis using less.prems(5) by simp
  qed
  show ?case
  proof (cases "nbytes a \<le> n \<or> end_pa a \<le> currpa it")
    case True
    define it' where "it' = indices_wrap a it"
    have it': "iter_at a s 0 it'" "currpa it' = PhysAddr 0" "passed_first it'"
      using wrap_reset [OF assms(1) less.prems(1) True] less.prems(2) by (simp_all add: it'_def)
    have idem: "indices_wrap a it' = it'"
      unfolding it'_def indices_wrap_def by simp
    have "yields a it' (map (ix_of a) [0..<s])"
      by (rule yields_low [OF assms(1-4) it'(1,3)]) (simp_all add: it'(2))
    then have "yields a it (map (ix_of a) [0..<s])"
      by (cases rule: yields.cases)
        (auto simp: indices_next_def idem it'_def [symmetric] intro: yields.intros)
    moreover have "\<forall>m. n \<le> m \<longrightarrow> m < nbytes a \<longrightarrow> paddr (end_pa a) \<le> 8 * m * PS a"
    proof (intro allI impI)
      fix m assume m: "n \<le> m" "m < nbytes a"
      with True have "paddr (end_pa a) \<le> paddr (currpa it)" by (auto simp: paddr_le_iff)
      also note cur
      also have "8 * n * PS a \<le> 8 * m * PS a" using m by simp
      finally show "paddr (end_pa a) \<le> 8 * m * PS a" .
    qed
    ultimately show ?thesis using less.prems(4) by (intro exI [of _ n]) simp
  next
    case False
    then have n: "n < nbytes a" and c: "currpa it < end_pa a" by auto
    have w: "indices_wrap a it = it" by (rule wrap_keep [OF assms(1) less.prems(1) n c])
    have "paddr (currpa it) \<le> npages a * PS a" using c assms(4) by (simp add: paddr_less_iff)
    then obtain it' where e: "indices_emit a it = Inr (Some (ix_of a n, it'))"
        "iter_at a s (Suc n) it'" "passed_first it'"
        "paddr (currpa it') = paddr (currpa it) + (Suc n div SB a - n div SB a) * PS a"
      using emit_step [OF assms(1) less.prems(1) n less_imp_neq [OF less.prems(3), symmetric]] by blast
    have "s div SB a \<le> n div SB a" "n div SB a \<le> Suc n div SB a"
      using less.prems(3) by (simp_all add: div_le_mono)
    then have "8 * s + (n div SB a - s div SB a) + (Suc n div SB a - n div SB a) =
        8 * s + (Suc n div SB a - s div SB a)" by linarith
    then have "paddr (currpa it') = (8 * s + (Suc n div SB a - s div SB a)) * PS a"
      using e(4) less.prems(5) by (simp only: flip: add_mult_distrib)
    then obtain k where k: "Suc n \<le> k" "k \<le> nbytes a"
        "\<forall>m. k \<le> m \<longrightarrow> m < nbytes a \<longrightarrow> paddr (end_pa a) \<le> 8 * m * PS a"
        "yields a it' (map (ix_of a) ([Suc n..<k] @ [0..<s]))"
      using less.hyps [OF _ e(2,3)] n less.prems(3) by (auto simp: Suc_le_eq diff_less_mono2)
    have "indices_next a it = Inr (Some (ix_of a n, it'))"
      by (simp add: indices_next_def w e(1))
    then have "yields a it (map (ix_of a) ([n..<k] @ [0..<s]))"
      using k(1,4) by (simp add: upt_conv_Cons yields.more)
    with k show ?thesis by (intro exI [of _ k]) auto
  qed
qed

text \<open>
  \<open>indices_from\<close> yields every byte once, except some that lie at or above the memory's end.
\<close>

lemma indices_as_physaddr_ok:
  assumes sh: "shape a" and "unat b < NB a" and "unat y < SB a" and "unat t < 8"
  obtains pa where "indices_as_physaddr a b y t = Inr pa"
    and "paddr pa = ((unat b * SB a + unat y) * 8 + unat t) * PS a"
proof -
  note sz = sizes_eq [OF sh] and pos = shape_pos [OF sh]
  let ?w1 = "8 * alloc_page_size a" and ?w2 = "bitmap_size_bytes a * (8 * alloc_page_size a)"
  let ?p = "(unat b * SB a + unat y) * 8 + unat t"
  have "(unat b * SB a + unat y) < nbytes a"
  proof -
    have "unat b * SB a + unat y < Suc (unat b) * SB a" using assms(3) by simp
    also have "\<dots> \<le> nbytes a" using assms(2) by (simp only: Suc_le_eq mult_le_mono1)
    finally show ?thesis .
  qed
  then have "?p < npages a" using assms(4) by (simp add: npages_def)
  then have "?p * PS a \<le> npages a * PS a" by simp
  also have "\<dots> < 2 ^ 64" using sh by (simp add: shape_def)
  finally have tot: "?p * PS a < 2 ^ 64" .
  have split: "?p * PS a = unat b * (SB a * (8 * PS a)) + unat y * (8 * PS a) + unat t * PS a"
    by (simp add: algebra_simps)
  have tot': "unat b * (SB a * (8 * PS a)) + unat y * (8 * PS a) + unat t * PS a < 2 ^ 64"
    using tot by (simp only: split)
  have u: "unat (b * ?w2) = unat b * (SB a * (8 * PS a))"
    using tot' unat_mult_usize [of b ?w2] unfolding sz(5) by linarith
  have u': "unat (y * ?w1) = unat y * (8 * PS a)"
    using tot' unat_mult_usize [of y ?w1] unfolding sz(4) by linarith
  have u'': "unat (t * alloc_page_size a) = unat t * PS a"
    using tot' unat_mult_usize [of t "alloc_page_size a"] by linarith
  have v: "unat (b * ?w2 + y * ?w1) = unat b * (SB a * (8 * PS a)) + unat y * (8 * PS a)"
    using tot' by (subst unat_add_no_overflow) (simp_all add: u u')
  have w: "unat (b * ?w2 + y * ?w1 + t * alloc_page_size a) = ?p * PS a"
    unfolding split using tot' by (subst unat_add_no_overflow) (simp_all add: u'' v)
  show thesis
  proof (rule that)
    show "indices_as_physaddr a b y t =
        Inr (PhysAddr (b * ?w2 + y * ?w1 + t * alloc_page_size a))"
    proof -
      have "mul_c b ?w2 = Inr (b * ?w2)" "mul_c y ?w1 = Inr (y * ?w1)"
          "mul_c t (alloc_page_size a) = Inr (t * alloc_page_size a)"
        using tot' by (intro mul_c_usize; (unfold sz(4,5))?; linarith)+
      moreover have "add_c (b * ?w2) (y * ?w1) = Inr (b * ?w2 + y * ?w1)"
          "add_c (b * ?w2 + y * ?w1) (t * alloc_page_size a) =
            Inr (b * ?w2 + y * ?w1 + t * alloc_page_size a)"
        using tot' by (intro add_c_usize; (unfold u u' u'' v)?; linarith)+
      ultimately show ?thesis by (simp add: indices_as_physaddr_def sz(1,2))
    qed
    show "paddr (PhysAddr (b * ?w2 + y * ?w1 + t * alloc_page_size a)) = ?p * PS a"
      using w by simp
  qed
qed

lemma indices_from_yields:
  assumes inv: "shape a" "paddr (end_pa a) \<le> npages a * PS a"
    and s: "s < nbytes a" "8 * s * PS a \<le> paddr (end_pa a)"
    and bi: "unat bi = s div SB a" and yi: "unat yi = s mod SB a"
  obtains it ns where "indices_from a bi yi = Inr it" and "yields a it (map (ix_of a) ns)"
    and "set ns \<subseteq> {..<nbytes a}" and "distinct ns"
    and "\<And>m. m < nbytes a \<Longrightarrow> m \<notin> set ns \<Longrightarrow> paddr (end_pa a) \<le> 8 * m * PS a"
proof -
  note pos = shape_pos [OF inv(1)]
  have "unat bi < NB a" "unat yi < SB a"
    using s(1) pos bi yi nbytes_iff [of a s] by simp_all
  then obtain pa where pa: "indices_as_physaddr a bi yi 0 = Inr pa" "paddr pa = 8 * s * PS a"
    using indices_as_physaddr_ok [OF inv(1), of bi yi 0] bi yi by (auto simp: mult.commute)
  define it where "it = \<lparr>start_bitmap_idx = bi, start_byte_idx = yi, it_bitmap_idx = bi,
    it_byte_idx = yi, passed_first = False, currpa = pa\<rparr>"
  have frm: "indices_from a bi yi = Inr it" by (simp add: indices_from_def pa it_def)
  have at: "iter_at a s s it" "\<not> passed_first it" by (simp_all add: iter_at_def it_def bi yi)
  have cur: "paddr (currpa it) = 8 * s * PS a" by (simp add: it_def pa)
  show thesis
  proof (cases "end_pa a \<le> currpa it")
    case False
    then have "indices_wrap a it = it" by (intro wrap_keep [OF inv(1) at(1) s(1)]) simp
    moreover have "paddr (currpa it) \<le> npages a * PS a" using cur s(2) inv(2) by linarith
    with emit_step [OF inv(1) at(1) s(1)] at(2)
    obtain it' where e: "indices_emit a it = Inr (Some (ix_of a s, it'))"
        "iter_at a s (Suc s) it'" "passed_first it'"
        "paddr (currpa it') = paddr (currpa it) + (Suc s div SB a - s div SB a) * PS a"
      by blast
    moreover have "paddr (currpa it') = (8 * s + (Suc s div SB a - s div SB a)) * PS a"
      using e(4) cur by (simp only: add_mult_distrib)
    then obtain k where k: "Suc s \<le> k" "k \<le> nbytes a"
        "\<forall>m. k \<le> m \<longrightarrow> m < nbytes a \<longrightarrow> paddr (end_pa a) \<le> 8 * m * PS a"
        "yields a it' (map (ix_of a) ([Suc s..<k] @ [0..<s]))"
      using yields_high [OF inv(1) s inv(2) e(2,3)] s(1) by auto
    ultimately have "yields a it (map (ix_of a) ([s..<k] @ [0..<s]))"
      by (simp add: upt_conv_Cons yields.more indices_next_def)
    then show thesis using k s(1) by (intro that [OF frm, of "[s..<k] @ [0..<s]"]) auto
  next
    case True
    then have beyond: "paddr (end_pa a) \<le> 8 * m * PS a" if "s \<le> m" for m
      using cur that by (simp add: paddr_le_iff) (meson le_trans mult_le_mono1 mult_le_mono2)
    define it0 where "it0 = indices_wrap a it"
    have it0: "iter_at a s 0 it0" "currpa it0 = PhysAddr 0" "\<not> passed_first it0"
      using wrap_reset [OF inv(1) at(1)] True at(2) by (simp_all add: it0_def)
    obtain it' where e: "indices_emit a it0 = Inr (Some (ix_of a 0, it'))"
        "iter_at a s (Suc 0) it'" "passed_first it'"
        "paddr (currpa it') = (Suc 0 div SB a) * PS a"
    proof (rule emit_step [OF inv(1) it0(1)])
      fix it'
      assume "indices_emit a it0 = Inr (Some (ix_of a 0, it'))" "iter_at a s (Suc 0) it'"
        "passed_first it'"
        "paddr (currpa it') = paddr (currpa it0) + (Suc 0 div SB a - 0 div SB a) * PS a"
      then show thesis using that it0(2) by simp
    qed (use it0 pos in auto)
    have nx: "indices_next a it = Inr (Some (ix_of a 0, it'))"
      by (simp add: indices_next_def e(1) flip: it0_def)
    show thesis
    proof (cases "s = 0")
      case False
      then have "yields a it' (map (ix_of a) [Suc 0..<s])"
        by (intro yields_low [OF inv(1) s inv(2) e(2,3)]) (simp_all add: e(4))
      then have "yields a it (map (ix_of a) [0..<s])"
        using nx False by (simp add: upt_conv_Cons yields.more)
      then show thesis using s(1) beyond by (intro that [OF frm, of "[0..<s]"]) auto
    next
      case True
      then obtain k where "Suc 0 \<le> k" "k \<le> nbytes a"
          "yields a it' (map (ix_of a) ([Suc 0..<k] @ [0..<s]))"
        using yields_high [OF inv(1) s inv(2) e(2,3)] e(4) s(1) by auto
      then have "yields a it (map (ix_of a) [0..<k])"
        using nx True by (simp add: upt_conv_Cons yields.more)
      then show thesis using \<open>k \<le> nbytes a\<close> beyond True by (intro that [OF frm, of "[0..<k]"]) auto
    qed
  qed
qed

end
