(* ===== verification/Page_Allocator.thy ===== *)
theory Page_Allocator
  imports Bitmap_Alloc_Correct
begin

text \<open>
  What the page allocator promises its clients (\<^verbatim>\<open>port/src/bitmapalloc.rs\<close>): allocation hands
  out a free page and only that one, fails only when nothing is free, and the usage count is
  exact.  The scans of \<open>allocate\<close> and \<open>usage_bytes\<close> are shown to end.
\<close>

section \<open>Bytes and pages\<close>

definition byte_val :: "BitmapPageAlloc \<Rightarrow> nat \<Rightarrow> u8" where
  "byte_val a n = bytes (bitmaps a ! (n div SB a)) ! (n mod SB a)"

lemma page_byte_index:
  "p div (8 * SB a) = p div 8 div SB a" "p mod (8 * SB a) div 8 = p div 8 mod SB a"
  by (simp_all add: div_mult2_eq mod_mult2_eq)

lemma page_allocated_byte: "page_allocated a p = bit (byte_val a (p div 8)) (p mod 8)"
  by (simp add: page_allocated_def byte_val_def page_byte_index)

lemma npages_nbytes: "p < npages a \<longleftrightarrow> p div 8 < nbytes a"
  by (auto simp: npages_def)

lemma ix_of_unat:
  assumes "shape a" and "n < nbytes a"
  shows "unat (bi_bitmap (ix_of a n)) = n div SB a" and "unat (bi_byte (ix_of a n)) = n mod SB a"
    and "n div SB a < NB a" and "n mod SB a < SB a"
proof -
  show lt: "n div SB a < NB a" "n mod SB a < SB a"
    using assms nbytes_iff [of a n] shape_pos [OF assms(1)] by simp_all
  then show "unat (bi_bitmap (ix_of a n)) = n div SB a" "unat (bi_byte (ix_of a n)) = n mod SB a"
    using unat_lt_exp [of "num_bitmaps a"] unat_lt_exp [of "bitmap_size_bytes a"]
    by (simp_all add: ix_of_def unat_word_of_nat_small)
qed

lemma byte_at_ix_of:
  assumes "shape a" and "n < nbytes a"
  shows "byte_at a (ix_of a n) = Inr (byte_val a n)"
  using assms ix_of_unat [OF assms] shape_byte_len [OF assms(1)]
  by (simp add: byte_at_def index_r_def byte_val_def shape_def)

section \<open>Driving the iterator\<close>

lemma find_free_byte_yields:
  assumes "shape a" and "yields a it (map (ix_of a) ns)" and "set ns \<subseteq> {..<nbytes a}"
  shows "find_free_byte a it = Some (Inr (map_option (ix_of a) (find (\<lambda>n. byte_val a n \<noteq> 0xff) ns)))"
  using assms(2,3)
proof (induction it "map (ix_of a) ns" arbitrary: ns rule: yields.induct)
  case (stop it)
  then show ?case by (subst find_free_byte.simps) simp
next
  case (more it ix it' ixs)
  then obtain n ns' where ns: "ns = n # ns'" "ix = ix_of a n" "ixs = map (ix_of a) ns'"
    by (auto simp: Cons_eq_map_conv)
  with more show ?case
    by (subst find_free_byte.simps) (simp add: byte_at_ix_of [OF assms(1)])
qed

lemma count_zeros_le: "count_zeros w \<le> 8"
  unfolding count_zeros_def using length_filter_le [of _ "[0..<8]"] by simp

lemma count_free_bytes_yields:
  assumes "shape a" and "yields a it (map (ix_of a) ns)" and "set ns \<subseteq> {..<nbytes a}"
    and "unat acc + (\<Sum>n\<leftarrow>ns. count_zeros (byte_val a n)) * PS a < 2 ^ 64"
  shows "\<exists>w. count_free_bytes a it acc = Some (Inr w) \<and>
    unat w = unat acc + (\<Sum>n\<leftarrow>ns. count_zeros (byte_val a n)) * PS a"
  using assms(2-4)
proof (induction it "map (ix_of a) ns" arbitrary: ns acc rule: yields.induct)
  case (stop it)
  then show ?case by (subst count_free_bytes.simps) simp
next
  case (more it ix it' ixs)
  then obtain n ns' where ns: "ns = n # ns'" "ix = ix_of a n" "ixs = map (ix_of a) ns'"
    by (auto simp: Cons_eq_map_conv)
  let ?z = "count_zeros (byte_val a n)"
  let ?d = "word_of_nat ?z * alloc_page_size a"
  have bnd: "unat acc + ?z * PS a + (\<Sum>n\<leftarrow>ns'. count_zeros (byte_val a n)) * PS a < 2 ^ 64"
    using more.prems(2) by (simp add: ns(1) add_mult_distrib)
  have "?z < 2 ^ LENGTH(64)" using count_zeros_le [of "byte_val a n"] by simp
  then have uz: "unat (word_of_nat ?z :: usize) = ?z" by (rule unat_word_of_nat_small)
  have m: "mul_c (word_of_nat ?z) (alloc_page_size a) = Inr ?d" "unat ?d = ?z * PS a"
    using bnd mul_c_usize [of "word_of_nat ?z" "alloc_page_size a"]
      unat_mult_usize [of "word_of_nat ?z" "alloc_page_size a"] unfolding uz by simp_all
  have p: "add_c acc ?d = Inr (acc + ?d)" "unat (acc + ?d) = unat acc + ?z * PS a"
    using bnd add_c_usize [of acc ?d] unat_add_usize [of acc ?d] unfolding m(2) by simp_all
  have "\<exists>w. count_free_bytes a it' (acc + ?d) = Some (Inr w) \<and>
      unat w = unat (acc + ?d) + (\<Sum>n\<leftarrow>ns'. count_zeros (byte_val a n)) * PS a"
    using more.hyps(3) [OF ns(3), of "acc + ?d"] more.prems(1) bnd p(2) by (simp add: ns(1))
  then show ?case
    using more.hyps(1) more.prems(1) m(1) p
    by (subst count_free_bytes.simps) (auto simp: ns byte_at_ix_of [OF assms(1)] add_mult_distrib)
qed

section \<open>Allocation\<close>

lemma bit_ff: "j < 8 \<Longrightarrow> bit (0xff :: u8) j"
proof -
  assume "j < 8"
  moreover have "(0xff :: u8) = mask 8" by (simp add: mask_eq_decr_exp)
  ultimately show ?thesis by (simp only: bit_mask_iff) auto
qed

lemma trailing_ones_free:
  assumes "w \<noteq> 0xff"
  shows "trailing_ones w < 8" and "\<not> bit w (trailing_ones w)"
proof -
  let ?t = "takeWhile (bit w) [0..<8]"
  have "\<exists>i < 8. \<not> bit w i"
  proof (rule ccontr)
    assume "\<not> (\<exists>i < 8. \<not> bit w i)"
    then have "w = 0xff" by (intro bit_word_eqI) (use bit_ff in auto)
    with assms show False by simp
  qed
  then have "?t \<noteq> [0..<8]" by (auto simp: takeWhile_eq_all_conv)
  moreover have pre: "?t = take (length ?t) [0..<8]" by (rule takeWhile_eq_take)
  ultimately have lt: "length ?t < 8"
    using length_takeWhile_le [of "bit w" "[0..<8]"] by (metis le_neq_implies_less length_upt diff_zero take_all_iff linorder_not_le)
  then show "trailing_ones w < 8" by (simp add: trailing_ones_def)
  have "\<not> bit w ([0..<8] ! length ?t)"
    using nth_length_takeWhile [of "bit w" "[0..<8]"] lt by simp
  then show "\<not> bit w (trailing_ones w)" using lt by (simp add: trailing_ones_def)
qed

text \<open>The scan starts at the byte of \<open>next_pa_to_scan\<close> and reaches every byte with a free page.\<close>

lemma allocate_scan:
  assumes inv: "pa_inv a"
  obtains bi yi ti it ns where
    "physaddr_as_indices a (next_pa_to_scan a) = Inr (bi, yi, ti)" and "indices_from a bi yi = Inr it"
    and "yields a it (map (ix_of a) ns)" and "set ns \<subseteq> {..<nbytes a}" and "distinct ns"
    and "\<And>p. p \<in> free_pages a \<Longrightarrow> p div 8 \<in> set ns"
proof -
  define s where "s = paddr (next_pa_to_scan a) div PS a div 8"
  have sh: "shape a" and em: "paddr (end_pa a) \<le> npages a * PS a"
    and al: "PS a dvd paddr (next_pa_to_scan a)" and le: "next_pa_to_scan a \<le> end_pa a"
    and lt: "paddr (next_pa_to_scan a) < npages a * PS a"
    using inv by (auto simp: pa_inv_def)
  have pos: "0 < PS a" using shape_pos [OF sh] by simp
  obtain bi yi ti where ix: "physaddr_as_indices a (next_pa_to_scan a) = Inr (bi, yi, ti)"
    and u: "unat bi = s div SB a" "unat yi = s mod SB a"
    using physaddr_as_indices_ok [OF sh al] by (metis page_byte_index s_def)
  have s1: "s < nbytes a"
    using lt pos by (simp add: s_def div_less_iff_less_mult flip: npages_nbytes)
  have "8 * s * PS a \<le> paddr (next_pa_to_scan a) div PS a * PS a"
    by (simp add: s_def)
  also have "\<dots> \<le> paddr (end_pa a)" using al le by (simp add: paddr_le_iff)
  finally have s2: "8 * s * PS a \<le> paddr (end_pa a)" .
  obtain it ns where it: "indices_from a bi yi = Inr it" "yields a it (map (ix_of a) ns)"
      "set ns \<subseteq> {..<nbytes a}" "distinct ns"
    and skip: "\<And>m. m < nbytes a \<Longrightarrow> m \<notin> set ns \<Longrightarrow> paddr (end_pa a) \<le> 8 * m * PS a"
    using indices_from_yields [OF sh em s1 s2 u] by blast
  have "p div 8 \<in> set ns" if p: "p \<in> free_pages a" for p
  proof (rule ccontr)
    assume "p div 8 \<notin> set ns"
    then have "paddr (end_pa a) \<le> 8 * (p div 8) * PS a"
      using skip p by (simp add: free_pages_def npages_nbytes)
    also have "\<dots> \<le> p * PS a" by simp
    also have "\<dots> < (p + 1) * PS a" using pos by simp
    also have "\<dots> \<le> paddr (end_pa a)" using inv p by (auto simp: pa_inv_def)
    finally show False by simp
  qed
  then show thesis using that [OF ix it] by blast
qed

lemma free_pages_put_page:
  assumes "shape a" and "p < npages a"
  shows "free_pages (put_page a p True) = free_pages a - {p}"
  using page_allocated_put_page [OF assms] by (auto simp: free_pages_def split: if_splits)

lemma free_pages_next [simp]: "free_pages (a\<lparr>next_pa_to_scan := x\<rparr>) = free_pages a"
  by (simp add: free_pages_def page_allocated_def npages_def)

lemma page_allocated_next [simp]: "page_allocated (a\<lparr>next_pa_to_scan := x\<rparr>) = page_allocated a"
  by (simp add: page_allocated_def [abs_def])

lemma shape_next [simp]: "shape (a\<lparr>next_pa_to_scan := x\<rparr>) = shape a"
  by (simp add: shape_def npages_def)

lemma npages_next [simp]: "npages (a\<lparr>next_pa_to_scan := x\<rparr>) = npages a"
  by (simp add: npages_def)

lemma pa_inv_take:
  assumes "pa_inv a" and "p \<in> free_pages a" and "paddr pa = p * PS a"
  shows "pa_inv ((put_page a p True)\<lparr>next_pa_to_scan := pa\<rparr>)"
proof -
  have sh: "shape a" and p: "p < npages a" and e: "(p + 1) * PS a \<le> paddr (end_pa a)"
    using assms by (auto simp: pa_inv_def free_pages_def)
  have "0 < PS a" using shape_pos [OF sh] by simp
  then show ?thesis
    using assms shape_put_page [OF sh p] free_pages_put_page [OF sh p] p e
    by (auto simp: pa_inv_def paddr_le_iff)
qed

lemma allocate_none:
  assumes "pa_inv a" and "free_pages a = {}"
  shows "allocate a = Some (Inr (a, Inl OutOfSpace))"
proof -
  have sh: "shape a" using assms by (simp add: pa_inv_def)
  obtain bi yi ti it ns where s: "physaddr_as_indices a (next_pa_to_scan a) = Inr (bi, yi, ti)"
      "indices_from a bi yi = Inr it" "yields a it (map (ix_of a) ns)" "set ns \<subseteq> {..<nbytes a}"
    using allocate_scan [OF assms(1)] by metis
  have "byte_val a n = 0xff" if "n < nbytes a" for n
  proof (rule ccontr)
    assume "byte_val a n \<noteq> 0xff"
    from trailing_ones_free [OF this] have "8 * n + trailing_ones (byte_val a n) \<in> free_pages a"
      using that by (simp add: free_pages_def npages_nbytes page_allocated_byte)
    with assms(2) show False by simp
  qed
  then have "find (\<lambda>n. byte_val a n \<noteq> 0xff) ns = None"
    using s(4) by (auto simp: find_None_iff)
  then show ?thesis
    using find_free_byte_yields [OF sh s(3,4)] by (simp add: allocate_def s(1,2))
qed

lemma allocate_some:
  assumes inv: "pa_inv a" and ne: "free_pages a \<noteq> {}"
  obtains p pa where "p \<in> free_pages a" and "paddr pa = p * PS a"
    and "allocate a = Some (Inr ((put_page a p True)\<lparr>next_pa_to_scan := pa\<rparr>, Inr pa))"
proof -
  have sh: "shape a" using inv by (simp add: pa_inv_def)
  obtain bi yi ti it ns where s: "physaddr_as_indices a (next_pa_to_scan a) = Inr (bi, yi, ti)"
      "indices_from a bi yi = Inr it" "yields a it (map (ix_of a) ns)" "set ns \<subseteq> {..<nbytes a}"
    and cov: "\<And>p. p \<in> free_pages a \<Longrightarrow> p div 8 \<in> set ns"
    using allocate_scan [OF inv] by metis
  obtain q where q: "q \<in> free_pages a" using ne by blast
  have "byte_val a (q div 8) \<noteq> 0xff"
  proof
    assume "byte_val a (q div 8) = 0xff"
    then have "page_allocated a q" using bit_ff [of "q mod 8"] by (simp add: page_allocated_byte)
    with q show False by (simp add: free_pages_def)
  qed
  then obtain n where f: "find (\<lambda>n. byte_val a n \<noteq> 0xff) ns = Some n"
    using cov [OF q] by (cases "find (\<lambda>n. byte_val a n \<noteq> 0xff) ns") (auto simp: find_None_iff)
  then have n: "n < nbytes a" "byte_val a n \<noteq> 0xff"
    using s(4) by (auto simp: find_Some_iff in_set_conv_nth subset_iff)
  let ?k = "trailing_ones (byte_val a n)"
  note k = trailing_ones_free [OF n(2)]
  define p where "p = 8 * n + ?k"
  have pn: "p div 8 = n" "p mod 8 = ?k" using k(1) by (simp_all add: p_def)
  have p: "p \<in> free_pages a"
    using n(1) k(2) by (simp add: free_pages_def npages_nbytes page_allocated_byte pn)
  note ix = ix_of_unat [OF sh n(1)]
  let ?a = "put_page a p True"
  have put: "(bitmaps a)[n div SB a := (bitmaps a ! (n div SB a))\<lparr>bytes :=
      (bytes (bitmaps a ! (n div SB a)))[n mod SB a := byte_val a n OR 2 ^ ?k]\<rparr>] = bitmaps ?a"
    by (simp add: put_page_def put_byte_def Let_def page_byte_index pn byte_val_def)
  have upd: "a\<lparr>bitmaps := bitmaps ?a\<rparr> = ?a" by (rule put_page_only_bitmaps [symmetric])
  then have upd': "a\<lparr>bitmaps := bitmaps ?a, next_pa_to_scan := x\<rparr> = ?a\<lparr>next_pa_to_scan := x\<rparr>" for x
    by simp
  have sh': "shape ?a" using p by (intro shape_put_page [OF sh]) (simp add: free_pages_def)
  have "?k < 2 ^ LENGTH(64)" using k(1) by simp
  then have uk: "unat (word_of_nat ?k :: usize) = ?k" by (rule unat_word_of_nat_small)
  have "unat (bi_bitmap (ix_of a n)) < NB ?a" "unat (bi_byte (ix_of a n)) < SB ?a"
      "unat (word_of_nat ?k :: usize) < 8"
    using ix uk k(1) by simp_all
  from indices_as_physaddr_ok [OF sh' this]
  obtain pa where pa: "indices_as_physaddr ?a (bi_bitmap (ix_of a n)) (bi_byte (ix_of a n))
        (word_of_nat ?k) = Inr pa" "paddr pa = ((n div SB a * SB a + n mod SB a) * 8 + ?k) * PS a"
    using ix uk by auto
  have "paddr pa = p * PS a" using pa(2) by (simp add: p_def mult.commute)
  moreover have "allocate a = Some (Inr (?a\<lparr>next_pa_to_scan := pa\<rparr>, Inr pa))"
    using find_free_byte_yields [OF sh s(3,4)] f ix shape_byte_len [OF sh ix(3)] sh
    by (simp add: allocate_def s(1,2) index_r_def shape_def put upd upd' pa(1) Let_def flip: byte_val_def)
  ultimately show thesis using that p by blast
qed

section \<open>Usage\<close>

lemma count_zeros_card:
  assumes "n < nbytes a"
  shows "count_zeros (byte_val a n) = card {p \<in> free_pages a. p div 8 = n}"
proof -
  let ?I = "{i. i < 8 \<and> \<not> bit (byte_val a n) i}"
  have "{p \<in> free_pages a. p div 8 = n} = (\<lambda>i. 8 * n + i) ` ?I"
  proof (intro set_eqI iffI)
    fix p
    assume "p \<in> {p \<in> free_pages a. p div 8 = n}"
    then have "p mod 8 \<in> ?I" and "p = 8 * n + p mod 8"
      by (auto simp: free_pages_def page_allocated_byte)
    then show "p \<in> (\<lambda>i. 8 * n + i) ` ?I" by blast
  qed (use assms in \<open>auto simp: free_pages_def npages_nbytes page_allocated_byte\<close>)
  then have "card {p \<in> free_pages a. p div 8 = n} = card ?I"
    by (simp add: card_image inj_on_def)
  also have "\<dots> = count_zeros (byte_val a n)"
    by (simp add: count_zeros_def distinct_length_filter Int_def conj_commute)
  finally show ?thesis by simp
qed

lemma finite_free_pages [simp]: "finite (free_pages a)"
  by (simp add: free_pages_def)

lemma sum_count_zeros:
  assumes "set ns \<subseteq> {..<nbytes a}" and "distinct ns" and "\<And>p. p \<in> free_pages a \<Longrightarrow> p div 8 \<in> set ns"
  shows "(\<Sum>n\<leftarrow>ns. count_zeros (byte_val a n)) = card (free_pages a)"
proof -
  have "(\<Sum>n\<leftarrow>ns. count_zeros (byte_val a n)) = (\<Sum>n\<in>set ns. count_zeros (byte_val a n))"
    by (rule sum_list_distinct_conv_sum_set [OF assms(2)])
  also have "\<dots> = (\<Sum>n\<in>set ns. card {p \<in> free_pages a. p div 8 = n})"
    using assms(1) by (intro sum.cong) (auto simp: count_zeros_card)
  also have "\<dots> = card (\<Union>n\<in>set ns. {p \<in> free_pages a. p div 8 = n})"
    by (rule card_UN_disjoint [symmetric]) auto
  also have "(\<Union>n\<in>set ns. {p \<in> free_pages a. p div 8 = n}) = free_pages a"
    using assms(3) by blast
  finally show ?thesis .
qed

lemma free_bytes_le_end:
  assumes "pa_inv a"
  shows "card (free_pages a) * PS a \<le> paddr (end_pa a)"
proof -
  let ?m = "paddr (end_pa a) div PS a"
  have pos: "0 < PS a" using assms shape_pos by (simp add: pa_inv_def)
  have "free_pages a \<subseteq> {..<?m}"
  proof
    fix p
    assume "p \<in> free_pages a"
    then have "(p + 1) * PS a \<le> paddr (end_pa a)" using assms by (auto simp: pa_inv_def)
    then have "p + 1 \<le> ?m" using pos by (simp only: less_eq_div_iff_mult_less_eq)
    then show "p \<in> {..<?m}" by simp
  qed
  then have "card (free_pages a) \<le> ?m" using card_mono [of "{..<?m}"] by fastforce
  then have "card (free_pages a) * PS a \<le> ?m * PS a" by (rule mult_le_mono1)
  also have "\<dots> \<le> paddr (end_pa a)" by simp
  finally show ?thesis .
qed

lemma usage_bytes_eq:
  assumes inv: "pa_inv a"
  obtains used where "usage_bytes a = Some (Inr (used, addr (end_pa a)))"
    and "unat used + card (free_pages a) * PS a = paddr (end_pa a)"
proof -
  have sh: "shape a" and em: "paddr (end_pa a) \<le> npages a * PS a"
    using inv by (auto simp: pa_inv_def)
  note pos = shape_pos [OF sh]
  obtain it ns where it: "indices_from a 0 0 = Inr it" "yields a it (map (ix_of a) ns)"
      "set ns \<subseteq> {..<nbytes a}" "distinct ns"
    and skip: "\<And>m. m < nbytes a \<Longrightarrow> m \<notin> set ns \<Longrightarrow> paddr (end_pa a) \<le> 8 * m * PS a"
    using indices_from_yields [OF sh em, of 0 0 0] pos by auto
  have cov: "p div 8 \<in> set ns" if p: "p \<in> free_pages a" for p
  proof (rule ccontr)
    assume "p div 8 \<notin> set ns"
    then have "paddr (end_pa a) \<le> 8 * (p div 8) * PS a"
      using skip p by (simp add: free_pages_def npages_nbytes)
    also have "\<dots> \<le> p * PS a" by simp
    also have "\<dots> < (p + 1) * PS a" using pos by simp
    also have "\<dots> \<le> paddr (end_pa a)" using inv p by (auto simp: pa_inv_def)
    finally show False by simp
  qed
  note le = free_bytes_le_end [OF inv]
  have sum: "(\<Sum>n\<leftarrow>ns. count_zeros (byte_val a n)) = card (free_pages a)"
    by (rule sum_count_zeros [OF it(3,4) cov])
  have "unat (0 :: usize) + (\<Sum>n\<leftarrow>ns. count_zeros (byte_val a n)) * PS a < 2 ^ 64"
    using le paddr_bound [of "end_pa a"] unfolding sum by simp
  from count_free_bytes_yields [OF sh it(2,3) this] obtain w where
    w: "count_free_bytes a it 0 = Some (Inr w)" "unat w = card (free_pages a) * PS a"
    by (auto simp: sum)
  have wle: "w \<le> addr (end_pa a)" using le w(2) by (simp add: word_le_nat_alt)
  show thesis
  proof (rule that)
    show "usage_bytes a = Some (Inr (addr (end_pa a) - w, addr (end_pa a)))"
      using wle by (simp add: usage_bytes_def it(1) w(1) sub_c_def Let_def)
    show "unat (addr (end_pa a) - w) + card (free_pages a) * PS a = paddr (end_pa a)"
      using le w(2) wle by (simp add: unat_sub)
  qed
qed

section \<open>Freeing one page\<close>

text \<open>
  What \<open>deallocate\<close> does: it tests the page's own bit but clears bit \<open>p mod 8\<close> of the
  page's bitmap, which is the bit of the page in the same place of the bitmap's first byte.
\<close>

definition dealloc_target :: "BitmapPageAlloc \<Rightarrow> nat \<Rightarrow> nat" where
  "dealloc_target a p = (p div (8 * SB a)) * (8 * SB a) + p mod 8"

lemma dealloc_target_index:
  assumes "0 < SB a"
  shows "dealloc_target a p div (8 * SB a) = p div (8 * SB a)"
    and "dealloc_target a p mod (8 * SB a) div 8 = 0" and "dealloc_target a p mod 8 = p mod 8"
proof -
  have "p mod 8 < 8 * SB a" using assms by (rule_tac less_le_trans [of _ 8]) auto
  then show "dealloc_target a p div (8 * SB a) = p div (8 * SB a)"
    and "dealloc_target a p mod (8 * SB a) div 8 = 0"
    using assms by (simp_all add: dealloc_target_def)
  show "dealloc_target a p mod 8 = p mod 8"
    by (simp add: dealloc_target_def mod_add_left_eq [symmetric] mult.left_commute [of _ 8])
qed

lemma deallocate_effect:
  assumes sh: "shape a" and al: "paddr pa = p * PS a" and p: "p < npages a" and le: "pa \<le> end_pa a"
  shows "deallocate a pa = Inr (if page_allocated a p
     then ((put_page a (dealloc_target a p) False)\<lparr>next_pa_to_scan := pa\<rparr>, Inr ())
     else (a, Inl NotAllocated))"
proof -
  note pos = shape_pos [OF sh] and bnd = page_index_bounds [OF sh]
  have pg: "paddr pa div PS a = p" using al pos by simp
  obtain bi yi ti where ix: "physaddr_as_indices a pa = Inr (bi, yi, ti)"
    and u: "unat bi = p div (8 * SB a)" "unat yi = p mod (8 * SB a) div 8" "unat ti = p mod 8"
    using physaddr_as_indices_ok [OF sh, of pa] al unfolding pg by auto
  have b: "unat bi < NB a" using bnd(1) p u(1) by simp
  have y: "unat yi < SB a" using bnd(2) u(2) by simp
  then have y61: "unat yi < 2 ^ 61" using shape_SB_small [OF sh] by linarith
  have t8: "unat ti < 8" by (simp add: u(3))
  note len = shape_byte_len [OF sh b]
  note ar = bit_position_arith [OF y61 t8] and tgt = dealloc_target_index [of a p]
  have test: "Bitmap_is_set (bitmaps a ! unat bi) (8 * yi + ti) = Inr (page_allocated a p)"
    using ar(3,4) y len
    by (simp add: Bitmap_is_set_ok page_allocated_def u)
  have clr: "Bitmap_set (bitmaps a ! unat bi) ti False = Inr ((bitmaps a ! unat bi)\<lparr>bytes :=
      (bytes (bitmaps a ! unat bi))[0 := bytes (bitmaps a ! unat bi) ! 0 AND NOT (2 ^ (p mod 8))]\<rparr>)"
    using t8 pos len by (simp add: Bitmap_set_ok u(3))
  have "length (bitmaps a) = NB a" using sh by (simp add: shape_def)
  then show ?thesis
    using leD [OF le] b ar test clr tgt pos
    by (simp add: deallocate_def ix index_r_def put_page_def put_byte_def Let_def u(1))
qed

section \<open>The contract the rest of the kernel relies on\<close>

text \<open>
  A source of pages: it hands out members of its free set, one at a time, and refuses only when
  that set is empty.  \<open>alloc_many\<close> is a client that asks for \<open>n\<close> pages in a row.
\<close>

primrec alloc_many :: "('s \<Rightarrow> ('s \<times> 'p) option) \<Rightarrow> nat \<Rightarrow> 's \<Rightarrow> ('s \<times> 'p list) option" where
  "alloc_many alloc 0 s = Some (s, [])"
| "alloc_many alloc (Suc n) s =
     (case alloc s of
        None \<Rightarrow> None
      | Some (s', p) \<Rightarrow> map_option (\<lambda>(s'', ps). (s'', p # ps)) (alloc_many alloc n s'))"

locale page_source =
  fixes inv :: "'s \<Rightarrow> bool"
    and free :: "'s \<Rightarrow> 'p set"
    and alloc :: "'s \<Rightarrow> ('s \<times> 'p) option"
  assumes finite_free: "inv s \<Longrightarrow> finite (free s)"
    and alloc_None: "inv s \<Longrightarrow> alloc s = None \<Longrightarrow> free s = {}"
    and alloc_Some: "inv s \<Longrightarrow> alloc s = Some (s', p) \<Longrightarrow>
      inv s' \<and> p \<in> free s \<and> free s' = free s - {p}"
begin

lemma alloc_many_sound:
  "inv s \<Longrightarrow> alloc_many alloc n s = Some (s', ps) \<Longrightarrow>
     inv s' \<and> length ps = n \<and> distinct ps \<and> set ps \<subseteq> free s \<and> free s' = free s - set ps"
proof (induction n arbitrary: s ps)
  case 0
  then show ?case by auto
next
  case (Suc n)
  then obtain s1 p qs where 1: "alloc s = Some (s1, p)" "alloc_many alloc n s1 = Some (s', qs)"
      "ps = p # qs"
    by (auto split: option.splits)
  note a = alloc_Some [OF Suc.prems(1) 1(1)]
  have "inv s' \<and> length qs = n \<and> distinct qs \<and> set qs \<subseteq> free s1 \<and> free s' = free s1 - set qs"
    using a 1(2) by (intro Suc.IH) auto
  with a 1(3) show ?case by auto
qed

lemma alloc_many_enough: "inv s \<Longrightarrow> n \<le> card (free s) \<Longrightarrow> alloc_many alloc n s \<noteq> None"
proof (induction n arbitrary: s)
  case 0
  then show ?case by simp
next
  case (Suc n)
  then have "free s \<noteq> {}" by auto
  with alloc_None [OF Suc.prems(1)] obtain s1 p where 1: "alloc s = Some (s1, p)"
    by (cases "alloc s") auto
  have "inv s1" "n \<le> card (free s1)"
    using alloc_Some [OF Suc.prems(1) 1] finite_free [OF Suc.prems(1)] Suc.prems(2)
    by (auto simp: card_Diff_singleton)
  with Suc.IH [of s1] 1 show ?case by auto
qed

lemma alloc_many_iff: "inv s \<Longrightarrow> alloc_many alloc n s \<noteq> None \<longleftrightarrow> n \<le> card (free s)"
proof
  assume i: "inv s" and "alloc_many alloc n s \<noteq> None"
  then obtain s' ps where "alloc_many alloc n s = Some (s', ps)" by auto
  from alloc_many_sound [OF i this] have "n = card (set ps)" "set ps \<subseteq> free s"
    by (auto simp: distinct_card)
  then show "n \<le> card (free s)" using card_mono [OF finite_free [OF i]] by simp
qed (rule alloc_many_enough)

end

text \<open>The bitmap allocator as such a source: the successful outcomes of \<open>allocate\<close>.\<close>

definition alloc_page :: "BitmapPageAlloc \<Rightarrow> (BitmapPageAlloc \<times> PhysAddr) option" where
  "alloc_page a = (case allocate a of Some (Inr (a', Inr pa)) \<Rightarrow> Some (a', pa) | _ \<Rightarrow> None)"

definition free_addrs :: "BitmapPageAlloc \<Rightarrow> PhysAddr set" where
  "free_addrs a = (\<lambda>p. PhysAddr (word_of_nat (p * PS a))) ` free_pages a"

lemma page_addr_unat:
  assumes "shape a" and "p < npages a"
  shows "unat (word_of_nat (p * PS a) :: u64) = p * PS a"
proof -
  have "p * PS a \<le> npages a * PS a" using assms(2) by simp
  also have "\<dots> < 2 ^ LENGTH(64)" using assms(1) by (simp add: shape_def)
  finally show ?thesis by (rule unat_word_of_nat_small)
qed

lemma free_addrs_iff:
  assumes "shape a"
  shows "pa \<in> free_addrs a \<longleftrightarrow> (\<exists>p \<in> free_pages a. paddr pa = p * PS a)"
  using page_addr_unat [OF assms]
  by (auto simp: free_addrs_def free_pages_def PhysAddr_eq_iff image_iff eq_commute [of pa])

lemma card_free_addrs:
  assumes "shape a"
  shows "card (free_addrs a) = card (free_pages a)"
proof -
  have "inj_on (\<lambda>p. PhysAddr (word_of_nat (p * PS a) :: u64)) (free_pages a)"
  proof (rule inj_onI)
    fix p q
    assume pq: "p \<in> free_pages a" "q \<in> free_pages a"
      and "PhysAddr (word_of_nat (p * PS a)) = PhysAddr (word_of_nat (q * PS a))"
    then have "p * PS a = q * PS a"
      using page_addr_unat [OF assms] by (simp add: free_pages_def unat_eq_iff)
    then show "p = q" using shape_pos [OF assms] by simp
  qed
  then show ?thesis by (simp add: free_addrs_def card_image)
qed

interpretation bitmap_source: page_source pa_inv free_addrs alloc_page
proof
  fix s s' p
  assume inv: "pa_inv s"
  then have sh: "shape s" by (simp add: pa_inv_def)
  show "finite (free_addrs s)" by (simp add: free_addrs_def)
  show "free_addrs s = {}" if "alloc_page s = None"
  proof (rule ccontr)
    assume "free_addrs s \<noteq> {}"
    then have "free_pages s \<noteq> {}" by (simp add: free_addrs_def)
    then obtain q pa where
        "allocate s = Some (Inr ((put_page s q True)\<lparr>next_pa_to_scan := pa\<rparr>, Inr pa))"
      by (rule allocate_some [OF inv])
    with that show False by (simp add: alloc_page_def)
  qed
  show "pa_inv s' \<and> p \<in> free_addrs s \<and> free_addrs s' = free_addrs s - {p}"
    if al: "alloc_page s = Some (s', p)"
  proof (cases "free_pages s = {}")
    case True
    with allocate_none [OF inv] al show ?thesis by (simp add: alloc_page_def)
  next
    case False
    obtain q pa where a: "q \<in> free_pages s" "paddr pa = q * PS s"
        "allocate s = Some (Inr ((put_page s q True)\<lparr>next_pa_to_scan := pa\<rparr>, Inr pa))"
      by (rule allocate_some [OF inv False])
    have "alloc_page s = Some ((put_page s q True)\<lparr>next_pa_to_scan := pa\<rparr>, pa)"
      by (simp add: alloc_page_def a(3))
    with al have "p = pa" "s' = (put_page s q True)\<lparr>next_pa_to_scan := pa\<rparr>" by auto
    with a have q: "q \<in> free_pages s" "paddr p = q * PS s"
        "s' = (put_page s q True)\<lparr>next_pa_to_scan := p\<rparr>"
      by blast+
    have qn: "q < npages s" using q(1) by (simp add: free_pages_def)
    have "pa_inv s'" using pa_inv_take [OF inv q(1,2)] q(3) by simp
    moreover have "pa \<in> free_addrs s' \<longleftrightarrow> pa \<in> free_addrs s - {p}" for pa
      using free_pages_put_page [OF sh qn] shape_put_page [OF sh qn] q shape_pos [OF sh]
      by (auto simp: free_addrs_iff sh paddr_inject [symmetric, of _ p])
    moreover have "p \<in> free_addrs s" using q by (auto simp: free_addrs_iff sh)
    ultimately show ?thesis by blast
  qed
qed

section \<open>A small allocator\<close>

text \<open>
  Two bitmaps of two bytes over four-byte pages, as in the unit tests of the source, with the
  pages 8 to 11 free and the scan position in the second bitmap.
\<close>

definition small_pa :: BitmapPageAlloc where
  "small_pa = \<lparr>num_bitmaps = 2, bitmap_size_bytes = 2,
     bitmaps = [\<lparr>bytes = [0xff, 0xf0]\<rparr>, \<lparr>bytes = [0xff, 0xff]\<rparr>], alloc_page_size = 4,
     end_pa = PhysAddr 128, next_pa_to_scan = PhysAddr 64\<rparr>"

lemma free_pages_code [code]:
  "free_pages a = set (filter (\<lambda>p. \<not> page_allocated a p) [0..<npages a])"
  by (auto simp: free_pages_def)

lemma small_pa_free: "free_pages small_pa = {8, 9, 10, 11}"
  by code_simp

lemma small_pa_inv: "pa_inv small_pa"
proof -
  have "is_power_of_two (4 :: usize)" by code_simp
  then show ?thesis
    by (simp add: pa_inv_def small_pa_free) (simp add: small_pa_def shape_def npages_def paddr_le_iff)
qed

section \<open>Properties\<close>

lemma free_unused_ranges_free:
  assumes "pa_inv a" and "\<forall>r \<in> set used. pr_start r \<le> end_pa a"
    and "sorted_wrt (\<lambda>r s. pr_start r \<le> pr_start s) used" and "pr_end avail \<le> end_pa a"
  shows "\<exists>a'. free_unused_ranges a avail used = Inr (a', Inr ()) \<and> pa_inv a' \<and>
    end_pa a' = pr_end avail \<and> PS a' = PS a \<and>
    free_pages a' = {p. p < npages a \<and> (p + 1) * PS a \<le> paddr (pr_end avail) \<and>
      (p \<in> free_pages a \<or> (\<exists>b. b div PS a = p \<and> paddr (pr_start avail) \<le> b \<and> (\<forall>r \<in> set used. \<not> in_range r b)))}"
proof -
  obtain a' where a': "free_unused_ranges a avail used = Inr (a', Inr ())" "pa_inv a'"
      "end_pa a' = pr_end avail" "npages a' = npages a" "PS a' = PS a"
    and eff: "\<And>q. q < npages a \<Longrightarrow> page_allocated a' q \<longleftrightarrow>
       paddr (pr_end avail) < (q + 1) * PS a \<or> (page_allocated a q \<and>
        \<not> (\<exists>b. b div PS a = q \<and> paddr (pr_start avail) \<le> b \<and> (\<forall>r \<in> set used. \<not> in_range r b)))"
    using free_unused_ranges_effect [OF assms(1,3,2,4)] by metis
  have "p \<in> free_pages a' \<longleftrightarrow> p < npages a \<and> (p + 1) * PS a \<le> paddr (pr_end avail) \<and>
      (p \<in> free_pages a \<or> (\<exists>b. b div PS a = p \<and> paddr (pr_start avail) \<le> b \<and> (\<forall>r \<in> set used. \<not> in_range r b)))" for p
  proof (cases "p < npages a")
    case True
    then show ?thesis using eff [OF True] a'(4) by (simp only: free_pages_def mem_Collect_eq not_less [symmetric]) blast
  qed (simp add: free_pages_def a'(4))
  then show ?thesis using a' by blast
qed

text \<open>
  C1. \<open>allocate\<close> always returns.  It reports \<open>OutOfSpace\<close> exactly when no page is free
  and then changes nothing; otherwise it returns the address of a free page, removes that page
  and no other from the free set, keeps the invariant and the memory's end, and leaves the scan
  position at the page it returned.
\<close>

theorem allocate_correct:
  assumes "pa_inv a"
  shows "if free_pages a = {} then allocate a = Some (Inr (a, Inl OutOfSpace))
    else \<exists>a' pa p. allocate a = Some (Inr (a', Inr pa)) \<and> p \<in> free_pages a \<and>
      paddr pa = p * PS a \<and> free_pages a' = free_pages a - {p} \<and> pa_inv a' \<and>
      end_pa a' = end_pa a \<and> next_pa_to_scan a' = pa"
proof (cases "free_pages a = {}")
  case True
  then show ?thesis using allocate_none [OF assms] by simp
next
  case False
  obtain p pa where a: "p \<in> free_pages a" "paddr pa = p * PS a"
      "allocate a = Some (Inr ((put_page a p True)\<lparr>next_pa_to_scan := pa\<rparr>, Inr pa))"
    by (rule allocate_some [OF assms False])
  have "free_pages (put_page a p True) = free_pages a - {p}"
    using assms a(1) by (intro free_pages_put_page) (auto simp: pa_inv_def free_pages_def)
  then show ?thesis using False a pa_inv_take [OF assms a(1,2)] by auto
qed

text \<open>
  C2. A request for \<open>n\<close> pages in a row is served exactly when \<open>n\<close> pages are free; the pages
  served are distinct, were free before, and are the ones no longer free after it.
\<close>

theorem allocations_distinct:
  assumes "pa_inv a"
  shows "(alloc_many alloc_page n a \<noteq> None \<longleftrightarrow> n \<le> card (free_pages a)) \<and>
    (\<forall>a' pas. alloc_many alloc_page n a = Some (a', pas) \<longrightarrow> pa_inv a' \<and> length pas = n \<and>
       distinct pas \<and> set pas \<subseteq> free_addrs a \<and> free_addrs a' = free_addrs a - set pas)"
proof -
  have "card (free_addrs a) = card (free_pages a)"
    using assms by (intro card_free_addrs) (simp add: pa_inv_def)
  then show ?thesis
    using bitmap_source.alloc_many_iff [OF assms] bitmap_source.alloc_many_sound [OF assms] by metis
qed

text \<open>
  C3. \<open>usage_bytes\<close> always returns, and the used and total bytes it reports are exact: the
  total is the memory's end, and total minus used is the size of the free pages.
\<close>

theorem usage_bytes_exact:
  assumes "pa_inv a"
  shows "\<exists>used. usage_bytes a = Some (Inr (used, addr (end_pa a))) \<and>
    unat used + card (free_pages a) * PS a = paddr (end_pa a)"
  using usage_bytes_eq [OF assms] by metis


theorem allocate_correct_witness:
  "pa_inv small_pa \<and> free_pages small_pa \<noteq> {} \<and>
   (\<exists>a' pa p. allocate small_pa = Some (Inr (a', Inr pa)) \<and> p \<in> {8, 9, 10, 11} \<and>
      free_pages a' = {8, 9, 10, 11} - {p} \<and> pa_inv a')"
proof -
  have ne: "free_pages small_pa \<noteq> {}" by (simp add: small_pa_free)
  obtain a' pa p where "allocate small_pa = Some (Inr (a', Inr pa))" "p \<in> free_pages small_pa"
      "free_pages a' = free_pages small_pa - {p}" "pa_inv a'"
    using allocate_correct [OF small_pa_inv] unfolding if_not_P [OF ne]
    by (elim exE conjE) (rule that)
  then show ?thesis
    using small_pa_inv ne unfolding small_pa_free by (intro conjI exI [of _ a'] exI [of _ pa] exI [of _ p])
qed

theorem allocations_distinct_witness:
  "pa_inv small_pa \<and> alloc_many alloc_page 4 small_pa \<noteq> None \<and> alloc_many alloc_page 5 small_pa = None"
proof -
  have c: "card (free_pages small_pa) = 4" by (simp add: small_pa_free)
  have "alloc_many alloc_page n small_pa = None \<longleftrightarrow> \<not> n \<le> 4" for n
    using allocations_distinct [OF small_pa_inv, of n] unfolding c by blast
  from this [of 4] this [of 5] show ?thesis using small_pa_inv by simp
qed

theorem usage_bytes_exact_witness:
  "pa_inv small_pa \<and> (\<exists>used. usage_bytes small_pa = Some (Inr (used, 128)) \<and> unat used = 112)"
proof -
  have "card (free_pages small_pa) * PS small_pa = 16" "end_pa small_pa = PhysAddr 128"
    by (simp_all add: small_pa_free) (simp_all add: small_pa_def)
  then show ?thesis using usage_bytes_exact [OF small_pa_inv] small_pa_inv by auto
qed


text \<open>
  The address of every page converts to its three indices and back: \<open>physaddr_as_indices\<close>
  succeeds on every page address below the bitmaps' capacity, its indices are in range, and
  \<open>indices_as_physaddr\<close> maps them to the same address.
\<close>

theorem indices_roundtrip:
  assumes "shape a" and "PS a dvd paddr pa" and "paddr pa < npages a * PS a"
  shows "\<exists>b y t. physaddr_as_indices a pa = Inr (b, y, t) \<and> b < num_bitmaps a \<and>
    y < bitmap_size_bytes a \<and> t < 8 \<and> indices_as_physaddr a b y t = Inr pa"
proof -
  define p where "p = paddr pa div PS a"
  have pos: "0 < PS a" using shape_pos [OF assms(1)] by simp
  have pn: "p < npages a" using assms(3) pos by (simp add: p_def div_less_iff_less_mult)
  obtain b y t where ix: "physaddr_as_indices a pa = Inr (b, y, t)"
    and u: "unat b = p div (8 * SB a)" "unat y = p mod (8 * SB a) div 8" "unat t = p mod 8"
    using physaddr_as_indices_ok [OF assms(1,2)] unfolding p_def by metis
  have r: "unat b < NB a" "unat y < SB a" "unat t < 8"
    using page_index_bounds [OF assms(1), of p] pn u by simp_all
  obtain pa' where pa': "indices_as_physaddr a b y t = Inr pa'"
      "paddr pa' = ((unat b * SB a + unat y) * 8 + unat t) * PS a"
    by (rule indices_as_physaddr_ok [OF assms(1) r])
  have "(unat b * SB a + unat y) * 8 + unat t = p"
    unfolding u page_byte_index by simp
  then have "pa' = pa" using pa'(2) assms(2) by (simp add: p_def flip: paddr_inject)
  then show ?thesis using ix pa'(1) r by (auto simp: word_less_nat_alt)
qed

theorem indices_roundtrip_witness:
  "\<exists>b y t. physaddr_as_indices small_pa (PhysAddr 100) = Inr (b, y, t) \<and>
     indices_as_physaddr small_pa b y t = Inr (PhysAddr 100)"
proof -
  have "shape small_pa" using small_pa_inv by (simp add: pa_inv_def)
  moreover have "PS small_pa dvd paddr (PhysAddr 100)" "paddr (PhysAddr 100) < npages small_pa * PS small_pa"
    by (simp_all add: small_pa_def npages_def)
  ultimately show ?thesis using indices_roundtrip by blast
qed

text \<open>
  \<open>new_all_allocated\<close>, for a page size that is a power of two and sizes whose product
  leaves room for one more page below \<open>2^64\<close>, succeeds and establishes the invariant with
  no page free.
\<close>

theorem new_all_allocated_inv:
  assumes "0 < nb" and "0 < sb" and "is_power_of_two ps"
    and "unat nb * (8 * unat sb) * unat ps + unat ps < 2 ^ 64"
  shows "\<exists>a. new_all_allocated nb sb ps = Inr a \<and> pa_inv a \<and> free_pages a = {} \<and>
    paddr (end_pa a) = npages a * PS a"
proof -
  have pos: "0 < unat nb" "0 < unat sb" "0 < unat ps"
    using assms is_power_of_two_unat_pos by (simp_all add: word_less_nat_alt)
  let ?c = "unat nb * unat sb * 8 * unat ps"
  have c: "?c < 2 ^ 64" using assms(4) by (simp add: mult_ac)
  have "unat nb * unat sb * 8 \<le> ?c" "unat nb * unat sb \<le> unat nb * unat sb * 8" using pos by simp_all
  then have le: "unat nb * unat sb * 8 < 2 ^ 64" "unat nb * unat sb < 2 ^ 64" using c by linarith+
  have u1: "unat (nb * sb) = unat nb * unat sb" by (rule unat_mult_usize [OF le(2)])
  have u8: "unat (8 :: usize) = 8" by simp
  have l2: "unat (nb * sb) * unat (8 :: usize) < 2 ^ 64" using le(1) by (simp add: u1)
  have u2: "unat (nb * sb * 8) = unat nb * unat sb * 8"
    using unat_mult_usize [OF l2] by (simp add: u1)
  have l3: "unat (nb * sb * 8) * unat ps < 2 ^ 64" using c by (simp add: u2)
  have u3: "unat (nb * sb * 8 * ps) = ?c" using unat_mult_usize [OF l3] by (simp add: u2)
  let ?a = "\<lparr>num_bitmaps = nb, bitmap_size_bytes = sb,
    bitmaps = replicate (unat nb) (Bitmap_new sb 0xff), alloc_page_size = ps,
    end_pa = PhysAddr (nb * sb * 8 * ps), next_pa_to_scan = PhysAddr 0\<rparr>"
  have ok: "new_all_allocated nb sb ps = Inr ?a"
    by (simp add: new_all_allocated_def mul_c_usize [OF le(2)] mul_c_usize [OF l2] mul_c_usize [OF l3])
  have sh: "shape ?a"
    using assms pos by (auto simp: shape_def npages_def Bitmap_new_def)
  have "page_allocated ?a p" if "p < npages ?a" for p
  proof -
    have "p div (8 * unat sb) < unat nb" "p mod (8 * unat sb) div 8 < unat sb"
      using page_index_bounds [OF sh, of p] that by simp_all
    then show ?thesis
      using bit_ff [of "p mod 8"] by (simp only: page_allocated_def Bitmap_new_def) simp
  qed
  then have f: "free_pages ?a = {}" by (auto simp: free_pages_def)
  have e: "paddr (end_pa ?a) = npages ?a * PS ?a"
    using u3 by (simp add: npages_def mult.assoc mult.left_commute)
  have "pa_inv ?a"
    using sh f e npages_pos [OF sh] pos(3) by (simp add: pa_inv_def paddr_le_iff)
  with ok f e show ?thesis by blast
qed

theorem new_all_allocated_inv_witness:
  "\<exists>a. new_all_allocated 32 4096 4096 = Inr a \<and> pa_inv a \<and> free_pages a = {}"
proof -
  have "is_power_of_two (4096 :: usize)" by code_simp
  then show ?thesis using new_all_allocated_inv [of 32 4096 4096] by auto
qed

text \<open>
  C18. \<open>mark_allocated\<close> on a range that ends within the memory: it succeeds, keeps the
  invariant, and the pages free afterwards are those free before that the range, rounded
  outwards to whole pages, does not touch.  Beyond the memory's end it reports
  \<open>NotEnoughBitmaps\<close> and changes nothing.
\<close>

theorem mark_allocated_exact:
  assumes "pa_inv a"
  shows "if end_pa a < pr_end r then mark_allocated a r = Inr (a, Inl NotEnoughBitmaps)
    else \<exists>a'. mark_allocated a r = Inr (a', Inr ()) \<and> pa_inv a' \<and>
      free_pages a' = {p \<in> free_pages a. \<not> page_overlaps (PS a) r p}"
proof (cases "end_pa a < pr_end r")
  case True
  then show ?thesis by (simp add: mark_allocated_def mark_range_def)
next
  case False
  have sh: "shape a" and em: "paddr (end_pa a) \<le> npages a * PS a"
    using assms by (auto simp: pa_inv_def)
  have le: "pr_end r \<le> end_pa a" using False by simp
  then have "paddr (pr_end r) \<le> npages a * PS a" using em by (simp add: paddr_le_iff)
  with mark_range_effect [OF sh, of True r True] le obtain a' where
    a': "mark_range a r True True = Inr (a', Inr ())" "shape a'" "a' = a\<lparr>bitmaps := bitmaps a'\<rparr>"
    and eff: "\<And>q. q < npages a \<Longrightarrow> page_allocated a' q =
        (if page_overlaps (PS a) r q then True else page_allocated a q)"
    by blast
  have fr: "npages a' = npages a" "PS a' = PS a" "end_pa a' = end_pa a"
      "next_pa_to_scan a' = next_pa_to_scan a"
    by (subst a'(3), simp add: npages_def)+
  have f: "free_pages a' = {p \<in> free_pages a. \<not> page_overlaps (PS a) r p}"
    using eff by (auto simp: free_pages_def fr split: if_splits)
  have "pa_inv a'" using assms a'(2) by (auto simp: pa_inv_def fr f)
  with a'(1) f False show ?thesis by (simp add: mark_allocated_def)
qed

theorem mark_allocated_exact_witness:
  "\<exists>a'. mark_allocated small_pa (PhysRange_with_end 37 41) = Inr (a', Inr ()) \<and>
     free_pages a' = {8, 11}"
proof -
  let ?r = "PhysRange_with_end 37 41"
  have le: "\<not> end_pa small_pa < pr_end ?r"
    by (simp add: small_pa_def PhysRange_with_end_def paddr_less_iff)
  obtain a' where "mark_allocated small_pa ?r = Inr (a', Inr ())"
      "free_pages a' = {p \<in> free_pages small_pa. \<not> page_overlaps (PS small_pa) ?r p}"
    using mark_allocated_exact [OF small_pa_inv, of ?r] unfolding if_not_P [OF le]
    by (elim exE conjE) (rule that)
  moreover have "PS small_pa = 4" by (simp add: small_pa_def)
  moreover have "{p \<in> {8, 9, 10, 11}. \<not> page_overlaps 4 ?r p} = {8, 11}"
    by (auto simp: page_overlaps_def PhysRange_with_end_def)
  ultimately show ?thesis
    unfolding small_pa_free by (intro exI [of _ a'] conjI) (simp_all only:)
qed

text \<open>
  Deallocating a page of a bitmap's first byte is right: it succeeds exactly on an allocated
  page, adds that page and no other to the free set, keeps the invariant when the page lies
  below the memory's end, and lets the next scan start there.
\<close>

theorem deallocate_first_byte:
  assumes "pa_inv a" and "paddr pa = p * PS a" and "(p + 1) * PS a \<le> paddr (end_pa a)"
    and "p mod (8 * SB a) < 8"
  shows "if page_allocated a p
    then \<exists>a'. deallocate a pa = Inr (a', Inr ()) \<and> free_pages a' = insert p (free_pages a) \<and>
      pa_inv a' \<and> next_pa_to_scan a' = pa
    else deallocate a pa = Inr (a, Inl NotAllocated)"
proof -
  have sh: "shape a" and em: "paddr (end_pa a) \<le> npages a * PS a"
    using assms by (auto simp: pa_inv_def)
  note pos = shape_pos [OF sh]
  have "(p + 1) * PS a \<le> npages a * PS a" using assms(3) em by (rule le_trans)
  then have p: "p < npages a" using pos by (simp only: mult_le_cancel2) simp
  have le: "pa \<le> end_pa a" using assms(2,3) by (simp add: paddr_le_iff)
  have t: "dealloc_target a p = p"
  proof (rule page_index_inject)
    show "dealloc_target a p div (8 * SB a) = p div (8 * SB a)"
        "dealloc_target a p mod (8 * SB a) div 8 = p mod (8 * SB a) div 8"
        "dealloc_target a p mod 8 = p mod 8"
      using dealloc_target_index [of a p] assms(4) pos by simp_all
  qed
  note d = deallocate_effect [OF sh assms(2) p le, unfolded t]
  let ?a = "(put_page a p False)\<lparr>next_pa_to_scan := pa\<rparr>"
  have f: "free_pages ?a = insert p (free_pages a)"
    using page_allocated_put_page [OF sh p] p by (auto simp: free_pages_def split: if_splits)
  have lt: "paddr pa < npages a * PS a" using assms(2) p pos by simp
  have "pa_inv ?a"
    using assms(1-3) le lt shape_put_page [OF sh p] unfolding pa_inv_def f by simp
  with d f show ?thesis by simp
qed

theorem deallocate_first_byte_witness:
  "\<exists>a'. deallocate small_pa (PhysAddr 68) = Inr (a', Inr ()) \<and>
     free_pages a' = {8, 9, 10, 11, 17} \<and> pa_inv a'"
proof -
  have "paddr (PhysAddr 68) = 17 * PS small_pa" "(17 + 1) * PS small_pa \<le> paddr (end_pa small_pa)"
      "17 mod (8 * SB small_pa) < 8"
    by (simp_all add: small_pa_def)
  note r = deallocate_first_byte [OF small_pa_inv this]
  have "page_allocated small_pa 17" by code_simp
  then show ?thesis using r unfolding small_pa_free by (auto simp: insert_commute)
qed



text \<open>
  The bounds test of \<open>deallocate\<close> admits the address one past the memory: when the
  memory fills the bitmaps, deallocating that address panics on the bitmap index instead of
  reporting \<open>OutOfBounds\<close>; every higher address is reported.
\<close>

theorem deallocate_end_panics:
  assumes "shape a" and "paddr (end_pa a) = npages a * PS a"
  shows "deallocate a (end_pa a) = Inl Index_Out_Of_Bounds \<and>
    (\<forall>pa. end_pa a < pa \<longrightarrow> deallocate a pa = Inr (a, Inl OutOfBounds))"
proof -
  note pos = shape_pos [OF assms(1)]
  have "paddr (end_pa a) div PS a div (8 * SB a) = NB a"
    using assms(2) pos by (simp add: npages_def)
  moreover have "length (bitmaps a) = NB a" using assms(1) by (simp add: shape_def)
  moreover obtain b y t where "physaddr_as_indices a (end_pa a) = Inr (b, y, t)"
      "unat b = paddr (end_pa a) div PS a div (8 * SB a)"
    by (rule physaddr_as_indices_ok [OF assms(1), of "end_pa a"]) (use assms(2) in simp_all)
  ultimately show ?thesis by (simp add: deallocate_def index_r_def)
qed

theorem deallocate_end_panics_witness:
  "deallocate small_pa (PhysAddr 128) = Inl Index_Out_Of_Bounds"
proof -
  have "shape small_pa" using small_pa_inv by (simp add: pa_inv_def)
  moreover have "paddr (end_pa small_pa) = npages small_pa * PS small_pa" "end_pa small_pa = PhysAddr 128"
    by (simp_all add: small_pa_def npages_def)
  ultimately show ?thesis using deallocate_end_panics [of small_pa] by simp
qed

end
