(* ===== verification/Fdt.thy ===== *)
theory Fdt
  imports Fdt_Data
begin

text \<open>
  Model of \<^verbatim>\<open>port/src/fdt.rs\<close>, the parser for flattened devicetrees.

  The blob is a byte list.  Offsets into it, depths and lengths are \<open>nat\<close>: they come from
  32-bit header fields, property lengths and positions below the length of the structure block,
  so the sums the code forms stay far below \<open>2^64\<close>.  The one subtraction that can leave the
  range, \<open>depth -= 1\<close> on a stray end token, panics here as it does there, and so do slice
  bounds.  Values read from the blob are \<open>u32\<close> and \<open>u64\<close> words with checked arithmetic.

  An iterator made with \<open>core::iter::from_fn\<close> is a lazy sequence: it ends, panics, or yields
  an item and goes on.  A consumer that stops early never reaches a later panic.
\<close>

section \<open>Lazy sequences\<close>

datatype 'a seq_r = Done | Fail panic | Item 'a "'a seq_r"

text \<open>The first \<open>Some\<close> a function returns along the sequence, as a \<open>for\<close> loop with an early
  return computes it.\<close>

fun first_some :: "('a \<Rightarrow> 'b option rust) \<Rightarrow> 'a seq_r \<Rightarrow> 'b option rust" where
  "first_some f Done = Inr None"
| "first_some f (Fail p) = Inl p"
| "first_some f (Item x r) =
     bind_r (f x) (\<lambda>y. case y of None \<Rightarrow> first_some f r | Some b \<Rightarrow> Inr (Some b))"

definition find_seq :: "('a \<Rightarrow> bool rust) \<Rightarrow> 'a seq_r \<Rightarrow> 'a option rust" where
  "find_seq P = first_some (\<lambda>x. bind_r (P x) (\<lambda>b. Inr (if b then Some x else None)))"

fun filter_seq :: "('a \<Rightarrow> bool rust) \<Rightarrow> 'a seq_r \<Rightarrow> 'a seq_r" where
  "filter_seq P Done = Done"
| "filter_seq P (Fail p) = Fail p"
| "filter_seq P (Item x r) =
     (case P x of
        Inl p \<Rightarrow> Fail p
      | Inr b \<Rightarrow> if b then Item x (filter_seq P r) else filter_seq P r)"

fun seq_of :: "'a list \<Rightarrow> 'a seq_r" where
  "seq_of [] = Done"
| "seq_of (x # xs) = Item x (seq_of xs)"

lemma first_some_cong [fundef_cong]:
  "s = s' \<Longrightarrow> (\<And>x. x \<in> set_seq_r s' \<Longrightarrow> f x = g x) \<Longrightarrow> first_some f s = first_some g s'"
  by (induction s arbitrary: s') (auto intro!: bind_r_cong split: option.splits)

lemma first_some_Some:
  "first_some f q = Inr (Some y) \<Longrightarrow> \<exists>x \<in> set_seq_r q. f x = Inr (Some y)"
  by (induction q) (auto simp: bind_r_eq_Inr split: option.splits)

section \<open>Reading bytes\<close>

text \<open>The slice methods \<open>get(i..)\<close> and \<open>get(a..b)\<close>.\<close>

definition get_from :: "u8 list \<Rightarrow> nat \<Rightarrow> u8 list option" where
  "get_from bs i = (if i \<le> length bs then Some (drop i bs) else None)"

definition get_range :: "u8 list \<Rightarrow> nat \<Rightarrow> nat \<Rightarrow> u8 list option" where
  "get_range bs a b = (if a \<le> b \<and> b \<le> length bs then Some (take (b - a) (drop a bs)) else None)"

text \<open>\<open>from_be_bytes\<close>: the first byte is the most significant.\<close>

definition from_be_bytes :: "u8 list \<Rightarrow> 'a::len word" where
  "from_be_bytes bs = foldl (\<lambda>w b. push_bit 8 w OR ucast b) 0 bs"

definition bytes_to_u32 :: "u8 list \<Rightarrow> u32 option" where
  "bytes_to_u32 bs = map_option from_be_bytes (get_range bs 0 4)"

definition bytes_to_u32_offset :: "u8 list \<Rightarrow> nat \<Rightarrow> u32 option" where
  "bytes_to_u32_offset bs offset = map_option from_be_bytes (get_range bs offset (offset + 4))"

definition bytes_to_u64 :: "u8 list \<Rightarrow> u64 option" where
  "bytes_to_u64 bs = map_option from_be_bytes (get_range bs 0 8)"

definition bytes_to_u32_as_u64 :: "u8 list \<Rightarrow> u64 option" where
  "bytes_to_u32_as_u64 bs =
     map_option (\<lambda>b. ucast (from_be_bytes b :: u32)) (get_range bs 0 4)"

text \<open>\<open>n + (0usize.wrapping_sub(n) & 3)\<close>; the low two bits of \<open>-n\<close> do not depend on the width.\<close>

definition align4 :: "nat \<Rightarrow> nat" where
  "align4 n = n + nat ((- int n) AND 3)"

section \<open>Strings\<close>

text \<open>
  A \<open>&str\<close> is its bytes.  \<open>utf8_ok\<close> is the well-formedness that \<open>CStr::to_str\<close> checks,
  one encoded character at a time.
\<close>

definition cont_byte :: "u8 \<Rightarrow> bool" where
  "cont_byte b \<longleftrightarrow> 0x80 \<le> b \<and> b \<le> 0xbf"

fun utf8_ok :: "u8 list \<Rightarrow> bool" where
  "utf8_ok [] = True"
| "utf8_ok (a # rest) =
     (if a \<le> 0x7f then utf8_ok rest
      else if 0xc2 \<le> a \<and> a \<le> 0xdf then
        (case rest of b # r \<Rightarrow> cont_byte b \<and> utf8_ok r | _ \<Rightarrow> False)
      else if 0xe0 \<le> a \<and> a \<le> 0xef then
        (case rest of
           b # c # r \<Rightarrow>
             cont_byte b \<and> cont_byte c \<and> (a = 0xe0 \<longrightarrow> 0xa0 \<le> b) \<and> (a = 0xed \<longrightarrow> b \<le> 0x9f) \<and> utf8_ok r
         | _ \<Rightarrow> False)
      else if 0xf0 \<le> a \<and> a \<le> 0xf4 then
        (case rest of
           b # c # d # r \<Rightarrow>
             cont_byte b \<and> cont_byte c \<and> cont_byte d \<and> (a = 0xf0 \<longrightarrow> 0x90 \<le> b) \<and>
             (a = 0xf4 \<longrightarrow> b \<le> 0x8f) \<and> utf8_ok r
         | _ \<Rightarrow> False)
      else False)"

definition inline_str :: "u8 list \<Rightarrow> nat \<Rightarrow> u8 list option" where
  "inline_str bs start =
     Option.bind (get_from bs start) (\<lambda>init_bytes.
       if 0 \<in> set init_bytes
       then let cstr = takeWhile (\<lambda>b. b \<noteq> 0) init_bytes
            in if utf8_ok cstr then Some cstr else None
       else None)"

definition str_bytes :: "string \<Rightarrow> u8 list" where
  "str_bytes s = map (\<lambda>c. of_char c) s"

text \<open>\<open>slice::split\<close> on a separator byte, and \<open>str::split_terminator\<close>, which drops a
  trailing empty piece.\<close>

fun split_on :: "u8 \<Rightarrow> u8 list \<Rightarrow> u8 list list" where
  "split_on sep [] = [[]]"
| "split_on sep (b # bs) =
     (if b = sep then [] # split_on sep bs
      else case split_on sep bs of [] \<Rightarrow> [[b]] | p # ps \<Rightarrow> (b # p) # ps)"

definition split_terminator :: "u8 \<Rightarrow> u8 list \<Rightarrow> u8 list list" where
  "split_terminator sep bs =
     (let ps = split_on sep bs in if last ps = [] then butlast ps else ps)"

section \<open>The header\<close>

datatype ParseError = InvalidHeader | InvalidMagic | BufferTooSmall | InvalidToken

record FdtHeader =
  magic :: u32
  totalsize :: u32
  off_dt_struct :: u32
  off_dt_strings :: u32
  off_mem_rsvmap :: u32
  version :: u32
  last_comp_version :: u32
  boot_cpuid_phys :: u32
  size_dt_strings :: u32
  size_dt_struct :: u32

definition new_header :: "u8 list \<Rightarrow> FdtHeader option" where
  "new_header data =
     Option.bind (bytes_to_u32_offset data 0) (\<lambda>m.
     Option.bind (bytes_to_u32_offset data 4) (\<lambda>t.
     Option.bind (bytes_to_u32_offset data 8) (\<lambda>os.
     Option.bind (bytes_to_u32_offset data 12) (\<lambda>on.
     Option.bind (bytes_to_u32_offset data 16) (\<lambda>om.
     Option.bind (bytes_to_u32_offset data 20) (\<lambda>v.
     Option.bind (bytes_to_u32_offset data 24) (\<lambda>l.
     Option.bind (bytes_to_u32_offset data 28) (\<lambda>b.
     Option.bind (bytes_to_u32_offset data 32) (\<lambda>sn.
     Option.bind (bytes_to_u32_offset data 36) (\<lambda>ss.
       Some \<lparr>magic = m, totalsize = t, off_dt_struct = os, off_dt_strings = on,
             off_mem_rsvmap = om, version = v, last_comp_version = l, boot_cpuid_phys = b,
             size_dt_strings = sn, size_dt_struct = ss\<rparr>))))))))))"

definition FdtHeader_new :: "u8 list \<Rightarrow> bool \<Rightarrow> ParseError + FdtHeader" where
  "FdtHeader_new data ignore_size =
     (case new_header data of
        None \<Rightarrow> Inl InvalidHeader
      | Some h \<Rightarrow>
          if magic h \<noteq> 0xd00dfeed then Inl InvalidMagic
          else if word_of_nat (length data) = totalsize h \<or> ignore_size then Inr h
          else Inl BufferTooSmall)"

record DeviceTree =
  dt_data :: "u8 list"
  dt_header :: FdtHeader

definition DeviceTree_new :: "u8 list \<Rightarrow> ParseError + DeviceTree" where
  "DeviceTree_new data =
     map_sum id (\<lambda>h. \<lparr>dt_data = data, dt_header = h\<rparr>) (FdtHeader_new data False)"

definition DeviceTree_size :: "DeviceTree \<Rightarrow> nat" where
  "DeviceTree_size dt = unat (totalsize (dt_header dt))"

text \<open>
  \<open>from_usize\<close> reads memory at a pointer: first the ten header words, then as many bytes as
  the header says.
\<close>

definition read_mem :: "(usize \<Rightarrow> u8) \<Rightarrow> usize \<Rightarrow> nat \<Rightarrow> u8 list" where
  "read_mem mem ptr len = map (\<lambda>i. mem (ptr + word_of_nat i)) [0..<len]"

definition DeviceTree_from_usize :: "(usize \<Rightarrow> u8) \<Rightarrow> usize \<Rightarrow> ParseError + DeviceTree" where
  "DeviceTree_from_usize mem ptr =
     (case FdtHeader_new (read_mem mem ptr 40) True of
        Inl e \<Rightarrow> Inl e
      | Inr h \<Rightarrow>
          let dtb_buf = read_mem mem ptr (unat (totalsize h))
          in map_sum id (\<lambda>h'. \<lparr>dt_data = dtb_buf, dt_header = h'\<rparr>) (FdtHeader_new dtb_buf False))"

definition slice_r :: "'a list \<Rightarrow> nat \<Rightarrow> nat \<Rightarrow> 'a list rust" where
  "slice_r bs a b =
     (if a \<le> b \<and> b \<le> length bs then Inr (take (b - a) (drop a bs)) else Inl Index_Out_Of_Bounds)"

definition structs :: "DeviceTree \<Rightarrow> u8 list rust" where
  "structs dt =
     (let start = unat (off_dt_struct (dt_header dt)); size = unat (size_dt_struct (dt_header dt))
      in slice_r (dt_data dt) start (start + size))"

definition strings :: "DeviceTree \<Rightarrow> u8 list rust" where
  "strings dt =
     (let start = unat (off_dt_strings (dt_header dt)); size = unat (size_dt_strings (dt_header dt))
      in slice_r (dt_data dt) start (start + size))"

section \<open>Tokens\<close>

record FdtBeginNodeContext =
  bn_start :: nat
  bn_total_len :: nat
  bn_name_start :: nat

record FdtPropContext =
  pc_start :: nat
  pc_total_len :: nat
  pc_name_start :: nat
  pc_value_start :: nat
  pc_value_len :: nat

record FdtTokenContext =
  tk_start :: nat
  tk_total_len :: nat

datatype FdtToken =
    BeginNode FdtBeginNodeContext
  | EndNode FdtTokenContext
  | Prop FdtPropContext
  | Nop FdtTokenContext
  | End FdtTokenContext

text \<open>\<open>iter().position(|&b| b == 0)\<close>\<close>

definition position0 :: "u8 list \<Rightarrow> nat option" where
  "position0 bs = (if 0 \<in> set bs then Some (length (takeWhile (\<lambda>b. b \<noteq> 0) bs)) else None)"

definition parse_token :: "u8 list \<Rightarrow> nat \<Rightarrow> FdtToken option" where
  "parse_token s i =
     (case Option.bind (get_from s i) bytes_to_u32 of
        None \<Rightarrow> None
      | Some token \<Rightarrow>
          if token = 1 then
            let str_size = (case Option.bind (get_from s (i + 4)) position0 of
                              None \<Rightarrow> 0
                            | Some sz \<Rightarrow> align4 (sz + 1))
            in Some (BeginNode \<lparr>bn_start = i, bn_total_len = 4 + str_size, bn_name_start = i + 4\<rparr>)
          else if token = 2 then Some (EndNode \<lparr>tk_start = i, tk_total_len = 4\<rparr>)
          else if token = 3 then
            let len = (case Option.bind (get_from s (i + 4)) bytes_to_u32 of None \<Rightarrow> 0 | Some n \<Rightarrow> n);
                nameoff = (case Option.bind (get_from s (i + 8)) bytes_to_u32 of None \<Rightarrow> 0 | Some n \<Rightarrow> n)
            in Some (Prop \<lparr>pc_start = i, pc_total_len = 12 + align4 (unat len),
                 pc_name_start = unat nameoff, pc_value_start = i + 12, pc_value_len = unat len\<rparr>)
          else if token = 4 then Some (Nop \<lparr>tk_start = i, tk_total_len = 4\<rparr>)
          else if token = 9 then Some (End \<lparr>tk_start = i, tk_total_len = 4\<rparr>)
          else None)"

text \<open>The length of a token, which every loop adds to its index, is at least four.\<close>

fun token_len :: "FdtToken \<Rightarrow> nat" where
  "token_len (BeginNode c) = bn_total_len c"
| "token_len (EndNode c) = tk_total_len c"
| "token_len (Prop c) = pc_total_len c"
| "token_len (Nop c) = tk_total_len c"
| "token_len (End c) = tk_total_len c"

lemma parse_token_len: "parse_token s i = Some t \<Longrightarrow> 4 \<le> token_len t"
  by (auto simp: parse_token_def Let_def split: option.splits if_splits)

lemma parse_token_lens [simp]:
  "parse_token s i = Some (BeginNode c) \<Longrightarrow> 0 < bn_total_len c"
  "parse_token s i = Some (EndNode d) \<Longrightarrow> 0 < tk_total_len d"
  "parse_token s i = Some (Prop e) \<Longrightarrow> 0 < pc_total_len e"
  "parse_token s i = Some (Nop d) \<Longrightarrow> 0 < tk_total_len d"
  "parse_token s i = Some (End d) \<Longrightarrow> 0 < tk_total_len d"
  using parse_token_len [of s i] by fastforce+

lemma parse_token_starts:
  "parse_token s i = Some (BeginNode c) \<Longrightarrow> bn_start c = i \<and> bn_name_start c = i + 4"
  "parse_token s i = Some (EndNode d) \<Longrightarrow> tk_start d = i \<and> tk_total_len d = 4"
  by (auto simp: parse_token_def Let_def split: option.splits if_splits)

section \<open>Nodes\<close>

record Node =
  nd_start :: nat
  nd_name_start :: nat
  nd_next_token_start :: nat
  nd_total_len :: nat
  nd_depth :: nat

definition node_end :: "Node \<Rightarrow> nat" where
  "node_end n = nd_start n + nd_total_len n"

definition encloses :: "Node \<Rightarrow> Node \<Rightarrow> bool" where
  "encloses n child \<longleftrightarrow>
     nd_start n \<le> nd_start child \<and>
     nd_start n + nd_total_len n \<ge> nd_start child + nd_total_len child"

definition is_root :: "Node \<Rightarrow> bool" where
  "is_root n \<longleftrightarrow> nd_depth n = 0"

text \<open>The node that a begin token and the end token matching it delimit.\<close>

definition mk_node :: "FdtBeginNodeContext \<Rightarrow> nat \<Rightarrow> FdtTokenContext \<Rightarrow> nat \<Rightarrow> Node" where
  "mk_node b nts e d =
     \<lparr>nd_start = bn_start b, nd_name_start = bn_name_start b, nd_next_token_start = nts,
      nd_total_len = (tk_start e + tk_total_len e) - bn_start b, nd_depth = d\<rparr>"

text \<open>The loop of \<open>node_from_index\<close>, with the mutable variables as arguments.\<close>

function node_loop ::
    "u8 list \<Rightarrow> nat \<Rightarrow> nat \<Rightarrow> FdtBeginNodeContext option \<Rightarrow> nat \<Rightarrow> nat \<Rightarrow> Node option rust" where
  "node_loop s node_depth i begin_node_ctx next_token_start depth =
     (if i < length s then
        case parse_token s i of
          Some (BeginNode ctx) \<Rightarrow>
            if depth = node_depth
            then node_loop s node_depth (i + bn_total_len ctx) (Some ctx) (i + bn_total_len ctx) (depth + 1)
            else node_loop s node_depth (i + bn_total_len ctx) begin_node_ctx next_token_start (depth + 1)
        | Some (EndNode ctx) \<Rightarrow>
            if depth = 0 then Inl Arith_Overflow
            else if depth - 1 = node_depth
            then Inr (map_option (\<lambda>b. mk_node b next_token_start ctx node_depth) begin_node_ctx)
            else node_loop s node_depth (i + tk_total_len ctx) begin_node_ctx next_token_start (depth - 1)
        | Some (Prop ctx) \<Rightarrow>
            node_loop s node_depth (i + pc_total_len ctx) begin_node_ctx next_token_start depth
        | Some (Nop ctx) \<Rightarrow>
            node_loop s node_depth (i + tk_total_len ctx) begin_node_ctx next_token_start depth
        | Some (End ctx) \<Rightarrow>
            node_loop s node_depth (i + tk_total_len ctx) begin_node_ctx next_token_start depth
        | None \<Rightarrow> Inr None
      else Inr None)"
  by pat_completeness auto
termination
  by (relation "measure (\<lambda>(s, _, i, _). length s - i)") (auto dest: parse_token_lens intro!: diff_less_mono2)

declare node_loop.simps [simp del]

definition node_from_index :: "DeviceTree \<Rightarrow> nat \<Rightarrow> nat \<Rightarrow> Node option rust" where
  "node_from_index dt start node_depth =
     bind_r (structs dt) (\<lambda>s. node_loop s node_depth start None 0 node_depth)"

definition DeviceTree_root :: "DeviceTree \<Rightarrow> Node option rust" where
  "DeviceTree_root dt = node_from_index dt 0 0"

text \<open>The node found has the depth asked for, and ends after the index where the search began.\<close>

lemma node_loop_progress:
  assumes "node_loop s nd i b nts d = Inr (Some n)" and "\<forall>c. b = Some c \<longrightarrow> bn_start c \<le> i"
  shows "i < length s \<and> i < node_end n \<and> nd_depth n = nd"
  using assms
proof (induction s nd i b nts d rule: node_loop.induct)
  case (1 s nd i b nts d)
  have le: "\<forall>c. b = Some c \<longrightarrow> bn_start c \<le> i + k" for k using "1.prems"(2) by force
  show ?case
  proof (cases "i < length s")
    case False
    with "1.prems" show ?thesis by (simp add: node_loop.simps)
  next
    case True
    then obtain t where t: "parse_token s i = Some t"
      using "1.prems"(1) by (cases "parse_token s i") (auto simp: node_loop.simps)
    note st = parse_token_starts [of s i]
    show ?thesis
    proof (cases t)
      case (BeginNode c)
      then show ?thesis
        using "1.IH"(1,2) [OF True t BeginNode] "1.prems"(1) t True st(1) le
        by (subst (asm) (1) node_loop.simps) (force split: if_splits)
    next
      case (EndNode c)
      then show ?thesis
        using "1.IH"(3) [OF True t EndNode] "1.prems" t True st(2) le
        by (subst (asm) node_loop.simps) (fastforce simp: mk_node_def node_end_def split: if_splits)
    next
      case (Prop c)
      then show ?thesis
        using "1.IH"(4) [OF True t Prop] "1.prems"(1) t True le
        by (subst (asm) node_loop.simps) force
    next
      case (Nop c)
      then show ?thesis
        using "1.IH"(5) [OF True t Nop] "1.prems"(1) t True le
        by (subst (asm) node_loop.simps) force
    next
      case (End c)
      then show ?thesis
        using "1.IH"(6) [OF True t End] "1.prems"(1) t True le
        by (subst (asm) node_loop.simps) force
    qed
  qed
qed

lemmas node_loop_start = node_loop_progress [where b = None, simplified]

text \<open>The iterator of \<open>children\<close>: the next search starts where the last child ends.\<close>

function children_from :: "u8 list \<Rightarrow> nat \<Rightarrow> nat \<Rightarrow> Node seq_r" where
  "children_from s child_depth i =
     (case node_loop s child_depth i None 0 child_depth of
        Inl p \<Rightarrow> Fail p
      | Inr None \<Rightarrow> Done
      | Inr (Some child) \<Rightarrow> Item child (children_from s child_depth (nd_start child + nd_total_len child)))"
  by pat_completeness auto
termination
proof (relation "measure (\<lambda>(s, _, i). length s - i)", goal_cases)
  case 1
  show ?case by simp
next
  case (2 s child_depth i x child)
  then show ?case
    using node_loop_start [of s child_depth i 0 child_depth child]
    by (simp add: node_end_def diff_less_mono2)
qed

declare children_from.simps [simp del]

definition children :: "DeviceTree \<Rightarrow> Node \<Rightarrow> Node seq_r" where
  "children dt parent =
     (case structs dt of
        Inl p \<Rightarrow> Fail p
      | Inr s \<Rightarrow> children_from s (nd_depth parent + 1) (nd_next_token_start parent))"

lemma children_from_depth: "c \<in> set_seq_r (children_from s d i) \<Longrightarrow> nd_depth c = d"
proof (induction s d i rule: children_from.induct)
  case (1 s d i)
  show ?case
  proof (cases "node_loop s d i None 0 d")
    case (Inr r)
    then show ?thesis
      using 1 node_loop_start [of s d i 0 d] by (cases r) (auto simp: children_from.simps [of s d i])
  qed (use 1 in \<open>auto simp: children_from.simps [of s d i]\<close>)
qed

lemma children_depth: "c \<in> set_seq_r (children dt n) \<Longrightarrow> nd_depth c = nd_depth n + 1"
  by (auto simp: children_def children_from_depth split: sum.splits)

function find_parent :: "DeviceTree \<Rightarrow> Node \<Rightarrow> Node \<Rightarrow> Node option rust" where
  "find_parent dt node child =
     (if \<not> encloses node child \<or> nd_depth node \<ge> nd_depth child then Inr None
      else if nd_depth node + 1 < nd_depth child then
        bind_r (first_some (\<lambda>c. find_parent dt c child) (children dt node)) (\<lambda>found.
          case found of Some found_parent \<Rightarrow> Inr (Some found_parent) | None \<Rightarrow> Inr (Some node))
      else Inr (Some node))"
  by pat_completeness auto
termination
  by (relation "measure (\<lambda>(_, node, child). nd_depth child - nd_depth node)")
    (auto dest: children_depth)

declare find_parent.simps [simp del]

definition parent :: "DeviceTree \<Rightarrow> Node \<Rightarrow> Node option rust" where
  "parent dt child =
     bind_r (DeviceTree_root dt) (\<lambda>r.
       case r of None \<Rightarrow> Inr None | Some n \<Rightarrow> find_parent dt n child)"

definition node_name :: "DeviceTree \<Rightarrow> Node \<Rightarrow> u8 list option rust" where
  "node_name dt node = bind_r (structs dt) (\<lambda>s. Inr (inline_str s (nd_name_start node)))"

text \<open>
  \<open>nodes\<close>: one call of the iterator's closure returns the next node with the new values of
  \<open>i\<close> and \<open>depth\<close>.
\<close>

function nodes_next ::
    "u8 list \<Rightarrow> nat \<Rightarrow> nat \<Rightarrow> nat \<Rightarrow> nat \<Rightarrow> FdtBeginNodeContext option \<Rightarrow> (Node \<times> nat \<times> nat) option rust" where
  "nodes_next s i depth node_depth next_token_start begin_node_ctx =
     (if i < length s then
        case parse_token s i of
          Some (BeginNode ctx) \<Rightarrow>
            if begin_node_ctx = None
            then nodes_next s (i + bn_total_len ctx) (depth + 1) depth (i + bn_total_len ctx) (Some ctx)
            else nodes_next s (i + bn_total_len ctx) (depth + 1) node_depth next_token_start begin_node_ctx
        | Some (EndNode ctx) \<Rightarrow>
            if depth = 0 then Inl Arith_Overflow
            else
              (case begin_node_ctx of
                 Some begin_ctx \<Rightarrow>
                   if depth - 1 = node_depth
                   then Inr (Some (mk_node begin_ctx next_token_start ctx node_depth, next_token_start, depth))
                   else nodes_next s (i + tk_total_len ctx) (depth - 1) node_depth next_token_start begin_node_ctx
               | None \<Rightarrow>
                   nodes_next s (i + tk_total_len ctx) (depth - 1) node_depth next_token_start begin_node_ctx)
        | Some (Prop ctx) \<Rightarrow>
            nodes_next s (i + pc_total_len ctx) depth node_depth next_token_start begin_node_ctx
        | Some (Nop ctx) \<Rightarrow>
            nodes_next s (i + tk_total_len ctx) depth node_depth next_token_start begin_node_ctx
        | Some (End ctx) \<Rightarrow>
            nodes_next s (i + tk_total_len ctx) depth node_depth next_token_start begin_node_ctx
        | None \<Rightarrow> Inr None
      else Inr None)"
  by pat_completeness auto
termination
  by (relation "measure (\<lambda>(s, i, _). length s - i)") (auto dest: parse_token_lens intro!: diff_less_mono2)

declare nodes_next.simps [simp del]

lemma nodes_next_progress:
  assumes "nodes_next s i d nd nts b = Inr (Some (n, i', d'))" and "b \<noteq> None \<longrightarrow> i0 < nts"
    and "i0 \<le> i"
  shows "i < length s \<and> i0 < i'"
  using assms
proof (induction s i d nd nts b rule: nodes_next.induct)
  case (1 s i d nd nts b)
  show ?case
  proof (cases "i < length s")
    case False
    with "1.prems" show ?thesis by (simp add: nodes_next.simps)
  next
    case True
    then obtain t where t: "parse_token s i = Some t"
      using "1.prems"(1) by (cases "parse_token s i") (auto simp: nodes_next.simps)
    have ge: "i0 \<le> i + k" "0 < k \<Longrightarrow> i0 < i + k" for k using "1.prems"(3) by auto
    show ?thesis
    proof (cases t)
      case (BeginNode c)
      have "0 < bn_total_len c" using t BeginNode parse_token_lens(1) by blast
      then show ?thesis
        using "1.IH"(1,2) [OF True t BeginNode] "1.prems" t True ge BeginNode
        by (subst (asm) (1) nodes_next.simps) (force split: if_splits)
    next
      case (EndNode c)
      then show ?thesis
        using "1.IH"(3,4) [OF True t EndNode] "1.prems" t True ge
        by (subst (asm) (1) nodes_next.simps) (cases b; force split: if_splits)
    next
      case (Prop c)
      then show ?thesis
        using "1.IH"(5) [OF True t Prop] "1.prems" t True ge
        by (subst (asm) nodes_next.simps) force
    next
      case (Nop c)
      then show ?thesis
        using "1.IH"(6) [OF True t Nop] "1.prems" t True ge
        by (subst (asm) nodes_next.simps) force
    next
      case (End c)
      then show ?thesis
        using "1.IH"(7) [OF True t End] "1.prems" t True ge
        by (subst (asm) nodes_next.simps) force
    qed
  qed
qed

function nodes_from :: "u8 list \<Rightarrow> nat \<Rightarrow> nat \<Rightarrow> Node seq_r" where
  "nodes_from s i depth =
     (case nodes_next s i depth 0 0 None of
        Inl p \<Rightarrow> Fail p
      | Inr None \<Rightarrow> Done
      | Inr (Some (n, i', depth')) \<Rightarrow> Item n (nodes_from s i' depth'))"
  by pat_completeness auto
termination
proof (relation "measure (\<lambda>(s, i, _). length s - i)", goal_cases)
  case 1
  show ?case by simp
next
  case (2 s i depth x y n z i' depth')
  then have "nodes_next s i depth 0 0 None = Inr (Some (n, i', depth'))" by simp
  from nodes_next_progress [OF this, of i] show ?case by (simp add: diff_less_mono2)
qed

declare nodes_from.simps [simp del]

definition nodes :: "DeviceTree \<Rightarrow> Node seq_r" where
  "nodes dt = (case structs dt of Inl p \<Rightarrow> Fail p | Inr s \<Rightarrow> nodes_from s 0 0)"

section \<open>Properties of a node\<close>

record Property =
  pp_start :: nat
  pp_name_start :: nat
  pp_value_start :: nat
  pp_value_len :: nat
  pp_total_len :: nat

definition mk_property :: "FdtPropContext \<Rightarrow> Property" where
  "mk_property ctx =
     \<lparr>pp_start = pc_start ctx, pp_name_start = pc_name_start ctx, pp_value_start = pc_value_start ctx,
      pp_value_len = pc_value_len ctx, pp_total_len = pc_total_len ctx\<rparr>"

function properties_from :: "u8 list \<Rightarrow> nat \<Rightarrow> nat \<Rightarrow> Property seq_r" where
  "properties_from s end_i i =
     (if i < end_i then
        case parse_token s i of
          Some (Prop ctx) \<Rightarrow> Item (mk_property ctx) (properties_from s end_i (i + pc_total_len ctx))
        | Some (Nop ctx) \<Rightarrow> properties_from s end_i (i + tk_total_len ctx)
        | _ \<Rightarrow> Done
      else Done)"
  by pat_completeness auto
termination
  by (relation "measure (\<lambda>(s, e, i). e - i)") (auto dest: parse_token_lens intro!: diff_less_mono2)

declare properties_from.simps [simp del]

definition properties :: "DeviceTree \<Rightarrow> Node \<Rightarrow> Property seq_r" where
  "properties dt node =
     (case structs dt of
        Inl p \<Rightarrow> Fail p
      | Inr s \<Rightarrow> properties_from s (nd_start node + nd_total_len node) (nd_next_token_start node))"

definition property_name :: "DeviceTree \<Rightarrow> Property \<Rightarrow> u8 list option rust" where
  "property_name dt prop = bind_r (strings dt) (\<lambda>s. Inr (inline_str s (pp_name_start prop)))"

definition property :: "DeviceTree \<Rightarrow> Node \<Rightarrow> u8 list \<Rightarrow> Property option rust" where
  "property dt node prop_name =
     find_seq (\<lambda>p. bind_r (property_name dt p) (\<lambda>n. Inr (n = Some prop_name))) (properties dt node)"

definition property_value_bytes :: "DeviceTree \<Rightarrow> Property \<Rightarrow> u8 list option rust" where
  "property_value_bytes dt prop =
     bind_r (structs dt) (\<lambda>s.
       Inr (get_range s (pp_value_start prop) (pp_value_start prop + pp_value_len prop)))"

definition property_value_as_u32 :: "DeviceTree \<Rightarrow> Property \<Rightarrow> u32 option rust" where
  "property_value_as_u32 dt prop =
     bind_r (structs dt) (\<lambda>s.
       Inr (Option.bind (get_range s (pp_value_start prop) (pp_value_start prop + pp_value_len prop))
              bytes_to_u32))"

text \<open>\<open>property_value_as_u32_iter\<close>: the words of the value, one every four bytes; an item that
  cannot be read ends the iteration.\<close>

function u32_items :: "u8 list \<Rightarrow> nat \<Rightarrow> nat \<Rightarrow> u32 seq_r" where
  "u32_items s value_end value_i =
     (if value_i \<ge> value_end then Done
      else case Option.bind (get_range s value_i (value_i + 4)) bytes_to_u32 of
             None \<Rightarrow> Done
           | Some w \<Rightarrow> Item w (u32_items s value_end (value_i + 4)))"
  by pat_completeness auto
termination
  by (relation "measure (\<lambda>(s, e, i). e - i)") auto

declare u32_items.simps [simp del]

definition property_value_as_u32_iter :: "DeviceTree \<Rightarrow> Property \<Rightarrow> u32 seq_r" where
  "property_value_as_u32_iter dt prop =
     (case structs dt of
        Inl p \<Rightarrow> if pp_value_len prop = 0 then Done else Fail p
      | Inr s \<Rightarrow> u32_items s (pp_value_start prop + pp_value_len prop) (pp_value_start prop))"

definition cells_prop :: "DeviceTree \<Rightarrow> Node option \<Rightarrow> u8 list \<Rightarrow> u32 \<Rightarrow> nat rust" where
  "cells_prop dt node nm dflt =
     bind_r (case node of None \<Rightarrow> Inr None | Some n \<Rightarrow> property dt n nm) (\<lambda>p.
     bind_r (case p of None \<Rightarrow> Inr None | Some p' \<Rightarrow> property_value_as_u32 dt p') (\<lambda>v.
       Inr (unat (case v of None \<Rightarrow> dflt | Some w \<Rightarrow> w))))"

definition node_address_size_cells :: "DeviceTree \<Rightarrow> Node option \<Rightarrow> (nat \<times> nat) rust" where
  "node_address_size_cells dt node =
     bind_r (cells_prop dt node (str_bytes ''#address-cells'') 2) (\<lambda>address_cells.
     bind_r (cells_prop dt node (str_bytes ''#size-cells'') 1) (\<lambda>size_cells.
       Inr (address_cells, size_cells)))"

definition consume_cells :: "u8 list \<Rightarrow> nat \<Rightarrow> nat \<Rightarrow> u64 option" where
  "consume_cells s value_i num_cells =
     Option.bind (get_range s value_i (value_i + num_cells * 4))
       (if num_cells = 1 then bytes_to_u32_as_u64 else bytes_to_u64)"

text \<open>
  \<open>property_reg_iter\<close>: the closure's test, reads and advances.  \<open>value_end - value_i\<close>
  would panic below zero.
\<close>

function reg_items :: "u8 list \<Rightarrow> nat \<Rightarrow> nat \<Rightarrow> nat \<Rightarrow> nat \<Rightarrow> RegBlock seq_r" where
  "reg_items s address_cells size_cells value_end value_i =
     (if address_cells = 0 \<or> address_cells > 2 \<or> size_cells > 2 then Done
      else if value_end < value_i then Fail Arith_Overflow
      else if address_cells * 4 + size_cells * 4 > value_end - value_i then Done
      else
        case consume_cells s value_i address_cells of
          None \<Rightarrow> Done
        | Some a \<Rightarrow>
            let value_i' = value_i + address_cells * 4;
                len = (if size_cells > 0 then consume_cells s value_i' size_cells else None)
            in Item \<lparr>rb_addr = a, rb_len = len\<rparr>
                 (reg_items s address_cells size_cells value_end (value_i' + size_cells * 4)))"
  by pat_completeness auto
termination
  by (relation "measure (\<lambda>(s, ac, sc, e, i). e - i)") auto

declare reg_items.simps [simp del]

definition seq_bind :: "'a rust \<Rightarrow> ('a \<Rightarrow> 'b seq_r) \<Rightarrow> 'b seq_r" where
  "seq_bind m f = (case m of Inl p \<Rightarrow> Fail p | Inr a \<Rightarrow> f a)"

definition prop_extent :: "Property option \<Rightarrow> nat \<times> nat" where
  "prop_extent p = (case p of None \<Rightarrow> (0, 0) | Some p \<Rightarrow> (pp_value_start p, pp_value_len p))"

definition property_reg_iter :: "DeviceTree \<Rightarrow> Node \<Rightarrow> RegBlock seq_r" where
  "property_reg_iter dt node =
     seq_bind (parent dt node) (\<lambda>par.
     seq_bind (node_address_size_cells dt par) (\<lambda>(address_cells, size_cells).
     seq_bind (property dt node (str_bytes ''reg'')) (\<lambda>prop.
     seq_bind (structs dt) (\<lambda>s.
       let (value_start, value_len) = prop_extent prop
       in reg_items s address_cells size_cells (value_start + value_len) value_start))))"

section \<open>Address translation\<close>

record RangeMapping =
  child_bus_addr :: u64
  parent_bus_addr :: u64
  rm_len :: u64

datatype Range = Identity | Range_Translated RangeMapping

datatype TranslatedReg = Translated RegBlock | Unreachable

fun regblock :: "TranslatedReg \<Rightarrow> RegBlock option" where
  "regblock (Translated r) = Some r"
| "regblock Unreachable = None"

fun Range_translate :: "Range \<Rightarrow> RegBlock \<Rightarrow> RegBlock option rust" where
  "Range_translate Identity r = Inr (Some r)"
| "Range_translate (Range_Translated m) r =
     (if rb_addr r \<ge> child_bus_addr m then
        bind_r (add_c (child_bus_addr m) (rm_len m)) (\<lambda>e.
          if rb_addr r < e then
            bind_r (sub_c (rb_addr r) (child_bus_addr m)) (\<lambda>d.
            bind_r (add_c d (parent_bus_addr m)) (\<lambda>a.
              Inr (Some \<lparr>rb_addr = a, rb_len = rb_len r\<rparr>)))
          else Inr None)
      else Inr None)"

function range_items ::
    "u8 list \<Rightarrow> nat \<Rightarrow> nat \<Rightarrow> nat \<Rightarrow> nat \<Rightarrow> nat \<Rightarrow> Range seq_r" where
  "range_items s address_cells parent_address_cells size_cells value_end value_i =
     (if address_cells = 0 \<or> size_cells = 0 \<or> address_cells > 2 \<or> size_cells > 2 then Done
      else if parent_address_cells = 0 \<or> parent_address_cells > 2 then Done
      else if value_end < value_i then Fail Arith_Overflow
      else if address_cells * 4 + parent_address_cells * 4 + size_cells * 4 > value_end - value_i then Done
      else
        let i1 = value_i + address_cells * 4; i2 = i1 + parent_address_cells * 4
        in case consume_cells s value_i address_cells of
             None \<Rightarrow> Done
           | Some c \<Rightarrow>
               (case consume_cells s i1 parent_address_cells of
                  None \<Rightarrow> Done
                | Some p \<Rightarrow>
                    (case consume_cells s i2 size_cells of
                       None \<Rightarrow> Done
                     | Some l \<Rightarrow>
                         Item (Range_Translated \<lparr>child_bus_addr = c, parent_bus_addr = p, rm_len = l\<rparr>)
                           (range_items s address_cells parent_address_cells size_cells value_end
                             (i2 + size_cells * 4)))))"
  by pat_completeness auto
termination
  by (relation "measure (\<lambda>(s, ac, pc, sc, e, i). e - i)") auto

declare range_items.simps [simp del]

definition property_range_iter :: "DeviceTree \<Rightarrow> Node \<Rightarrow> Range seq_r" where
  "property_range_iter dt node =
     seq_bind (parent dt node) (\<lambda>par.
     seq_bind (node_address_size_cells dt par) (\<lambda>(parent_address_cells, _).
     seq_bind (node_address_size_cells dt (Some node)) (\<lambda>(address_cells, size_cells).
     seq_bind (property dt node (str_bytes ''ranges'')) (\<lambda>prop.
       let (value_start, value_len) = prop_extent prop
       in if value_start = value_start + value_len then Item Identity Done
          else seq_bind (structs dt) (\<lambda>s.
                 range_items s address_cells parent_address_cells size_cells
                   (value_start + value_len) value_start)))))"

text \<open>The ancestor a walk goes to is closer to the root, so the walk ends.\<close>

lemma find_parent_depth: "find_parent dt n c = Inr (Some p) \<Longrightarrow> nd_depth p < nd_depth c"
proof (induction dt n c rule: find_parent.induct)
  case (1 dt n c)
  have in_range: "\<not> (\<not> encloses n c \<or> nd_depth n \<ge> nd_depth c)"
    using "1.prems" by (auto simp: find_parent.simps [of dt n c] split: if_splits)
  show ?case
  proof (cases "nd_depth n + 1 < nd_depth c")
    case True
    then have "p = n \<or> first_some (\<lambda>x. find_parent dt x c) (children dt n) = Inr (Some p)"
      using "1.prems" in_range
      by (auto simp: find_parent.simps [of dt n c] bind_r_eq_Inr split: option.splits)
    then show ?thesis
      using "1.IH" [OF in_range True] first_some_Some in_range by fastforce
  next
    case False
    then show ?thesis using "1.prems" in_range by (simp add: find_parent.simps [of dt n c])
  qed
qed

lemma parent_depth: "parent dt n = Inr (Some p) \<Longrightarrow> nd_depth p < nd_depth n"
  by (auto simp: parent_def bind_r_eq_Inr dest: find_parent_depth split: option.splits)

text \<open>The \<open>while\<close> loop: translate through the ranges of each ancestor below the root.\<close>

function translate_up :: "DeviceTree \<Rightarrow> RegBlock \<Rightarrow> Node option \<Rightarrow> TranslatedReg option rust" where
  "translate_up dt translated_reg None = Inr None"
| "translate_up dt translated_reg (Some par) =
     (if is_root par then Inr (Some (Translated translated_reg))
      else
        bind_r (first_some (\<lambda>range. Range_translate range translated_reg) (property_range_iter dt par))
          (\<lambda>new_reg.
            case new_reg of
              None \<Rightarrow> Inr (Some Unreachable)
            | Some r \<Rightarrow> bind_r (parent dt par) (\<lambda>p'. translate_up dt r p')))"
  by pat_completeness auto
termination
  by (relation "measure (\<lambda>(_, _, n). case n of None \<Rightarrow> 0 | Some n \<Rightarrow> nd_depth n + 1)")
    (auto dest: parent_depth split: option.splits)

text \<open>The closure fetches the next block before it translates the current one.\<close>

fun translated_items :: "DeviceTree \<Rightarrow> Node \<Rightarrow> RegBlock seq_r \<Rightarrow> TranslatedReg seq_r" where
  "translated_items dt node Done = Done"
| "translated_items dt node (Fail p) = Fail p"
| "translated_items dt node (Item reg rest) =
     (case rest of
        Fail p \<Rightarrow> Fail p
      | _ \<Rightarrow>
          seq_bind (bind_r (parent dt node) (\<lambda>p. translate_up dt reg p)) (\<lambda>t.
            case t of None \<Rightarrow> Done | Some t' \<Rightarrow> Item t' (translated_items dt node rest)))"

definition property_translated_reg_iter :: "DeviceTree \<Rightarrow> Node \<Rightarrow> TranslatedReg seq_r" where
  "property_translated_reg_iter dt node = translated_items dt node (property_reg_iter dt node)"

section \<open>Searching\<close>

definition property_value_contains :: "DeviceTree \<Rightarrow> Property \<Rightarrow> u8 list \<Rightarrow> bool rust" where
  "property_value_contains dt prop bytes_to_find =
     bind_r (property_value_bytes dt prop) (\<lambda>v.
       Inr (case v of None \<Rightarrow> False | Some bs \<Rightarrow> bytes_to_find \<in> set (split_on 0 bs)))"

definition find_compatible :: "DeviceTree \<Rightarrow> u8 list \<Rightarrow> Node seq_r" where
  "find_compatible dt wanted =
     filter_seq (\<lambda>n. bind_r (property dt n (str_bytes ''compatible'')) (\<lambda>cp.
       case cp of None \<Rightarrow> Inr False | Some p \<Rightarrow> property_value_contains dt p wanted)) (nodes dt)"

text \<open>
  \<open>find_by_path\<close>: the path iterator is shared by all the recursive calls, so it is threaded
  through them.  A call that recurses has taken an element off it, which bounds the depth of the
  recursion by the number of elements; \<open>None\<close> stands for a recursion deeper than the fuel.
\<close>

type_synonym path_iter = "u8 list list"

fun find_in_children ::
    "(path_iter \<Rightarrow> Node \<Rightarrow> (Node option \<times> path_iter) rust option) \<Rightarrow> path_iter \<Rightarrow> Node seq_r \<Rightarrow>
     (Node option \<times> path_iter) rust option" where
  "find_in_children f path Done = Some (Inr (None, path))"
| "find_in_children f path (Fail p) = Some (Inl p)"
| "find_in_children f path (Item child rest) =
     (case f path child of
        None \<Rightarrow> None
      | Some (Inl p) \<Rightarrow> Some (Inl p)
      | Some (Inr (Some n, path')) \<Rightarrow> Some (Inr (Some n, path'))
      | Some (Inr (None, path')) \<Rightarrow> find_in_children f path' rest)"

fun find_subpath ::
    "nat \<Rightarrow> DeviceTree \<Rightarrow> path_iter \<Rightarrow> Node \<Rightarrow> u8 list option \<Rightarrow> (Node option \<times> path_iter) rust option"
where
  "find_subpath 0 dt path node elem = None"
| "find_subpath (Suc fuel) dt path node elem =
     (case node_name dt node of
        Inl p \<Rightarrow> Some (Inl p)
      | Inr nm \<Rightarrow>
          if elem = nm then
            (case path of
               [] \<Rightarrow> Some (Inr (Some node, []))
             | e # path' \<Rightarrow>
                 find_in_children (\<lambda>pi c. find_subpath fuel dt pi c (Some e)) path' (children dt node))
          else Some (Inr (None, path)))"

definition find_by_path :: "DeviceTree \<Rightarrow> u8 list \<Rightarrow> Node option rust option" where
  "find_by_path dt path =
     (let elems = split_terminator (of_char CHR ''/'') path
      in case DeviceTree_root dt of
           Inl p \<Rightarrow> Some (Inl p)
         | Inr None \<Rightarrow> Some (Inr None)
         | Inr (Some node) \<Rightarrow>
             (case elems of
                [] \<Rightarrow> map_option (map_sum id fst) (find_subpath 1 dt [] node None)
              | e # es \<Rightarrow>
                  map_option (map_sum id fst) (find_subpath (length elems) dt es node (Some e))))"

text \<open>The fuel is enough.\<close>

lemma find_in_children_total:
  assumes "\<And>pi c. length pi \<le> length path \<Longrightarrow>
      \<exists>r. f pi c = Some r \<and> (\<forall>x pi'. r = Inr (x, pi') \<longrightarrow> length pi' \<le> length pi)"
  shows "\<exists>r. find_in_children f path q = Some r \<and>
      (\<forall>x pi'. r = Inr (x, pi') \<longrightarrow> length pi' \<le> length path)"
  using assms
proof (induction q arbitrary: path)
  case (Item c rest)
  obtain r where r: "f path c = Some r" "\<forall>x pi'. r = Inr (x, pi') \<longrightarrow> length pi' \<le> length path"
    using Item.prems by blast
  show ?case
  proof (cases r)
    case (Inr y)
    then obtain x pi' where y: "r = Inr (x, pi')" by (cases y) auto
    show ?thesis
    proof (cases x)
      case None
      have "length pi' \<le> length path" using r(2) y by simp
      then show ?thesis
        using Item.IH [of pi'] Item.prems r(1) y None
        by (auto dest: le_trans)
    qed (use r y in auto)
  qed (use r in auto)
qed auto

lemma find_subpath_total:
  "length path < fuel \<Longrightarrow> \<exists>r. find_subpath fuel dt path node elem = Some r \<and>
     (\<forall>x pi'. r = Inr (x, pi') \<longrightarrow> length pi' \<le> length path)"
proof (induction fuel arbitrary: path node elem)
  case (Suc fuel)
  show ?case
  proof (cases path)
    case Nil
    then show ?thesis by (auto split: sum.splits)
  next
    case (Cons e path')
    have "\<exists>r. find_in_children (\<lambda>pi c. find_subpath fuel dt pi c (Some e)) path' (children dt node) = Some r \<and>
        (\<forall>x pi'. r = Inr (x, pi') \<longrightarrow> length pi' \<le> length path')"
      using Suc Cons by (intro find_in_children_total) auto
    then show ?thesis using Cons by (auto split: sum.splits)
  qed
qed simp

end
