(* ===== verification/Fdt_Tree.thy ===== *)
theory Fdt_Tree
  imports Fdt
begin

text \<open>
  What the devicetree parser promises: an abstract devicetree, its encoding as a structure
  block following the Devicetree Specification (begin, property and end tokens, big-endian
  words, values padded to four bytes, an end token after the root), and the proof that the
  parser's traversals recover it.
\<close>

section \<open>Encoding\<close>

definition be32 :: "u32 \<Rightarrow> u8 list" where
  "be32 w = [ucast (drop_bit 24 w), ucast (drop_bit 16 w), ucast (drop_bit 8 w), ucast w]"

definition pad4 :: "u8 list \<Rightarrow> u8 list" where
  "pad4 bs = bs @ replicate (align4 (length bs) - length bs) 0"

datatype tok = TBegin "u8 list" | TEnd | TProp u32 "u8 list" | TFin

fun enc_tok :: "tok \<Rightarrow> u8 list" where
  "enc_tok (TBegin nm) = be32 1 @ pad4 (nm @ [0])"
| "enc_tok TEnd = be32 2"
| "enc_tok (TProp off v) = be32 3 @ be32 (word_of_nat (length v)) @ be32 off @ pad4 v"
| "enc_tok TFin = be32 9"

fun wf_tok :: "tok \<Rightarrow> bool" where
  "wf_tok (TBegin nm) \<longleftrightarrow> 0 \<notin> set nm"
| "wf_tok (TProp off v) \<longleftrightarrow> length v < 2 ^ 32"
| "wf_tok _ \<longleftrightarrow> True"

definition tok_len :: "tok \<Rightarrow> nat" where
  "tok_len t = length (enc_tok t)"

text \<open>What \<open>parse_token\<close> should return at offset \<open>i\<close>.\<close>

fun tok_ctx :: "nat \<Rightarrow> tok \<Rightarrow> FdtToken" where
  "tok_ctx i (TBegin nm) =
     BeginNode \<lparr>bn_start = i, bn_total_len = 4 + align4 (length nm + 1), bn_name_start = i + 4\<rparr>"
| "tok_ctx i TEnd = EndNode \<lparr>tk_start = i, tk_total_len = 4\<rparr>"
| "tok_ctx i (TProp off v) =
     Prop \<lparr>pc_start = i, pc_total_len = 12 + align4 (length v), pc_name_start = unat off,
           pc_value_start = i + 12, pc_value_len = length v\<rparr>"
| "tok_ctx i TFin = End \<lparr>tk_start = i, tk_total_len = 4\<rparr>"

lemma align4_ge: "n \<le> align4 n"
  by (simp add: align4_def)

lemma align4_eq: "align4 n = 4 * ((n + 3) div 4)"
proof -
  have "(- int n) AND 3 = (- int n) mod 4"
    using take_bit_eq_mask [of 2 "- int n"] by (simp add: mask_eq_exp_minus_1 take_bit_eq_mod)
  then have "int (align4 n) = int n + (- int n) mod 4" by (simp add: align4_def)
  also have "\<dots> = 4 * ((int n + 3) div 4)" by presburger
  finally have "int (align4 n) = int (4 * ((n + 3) div 4))" by (simp add: zdiv_int)
  then show ?thesis by linarith
qed

lemma length_pad4 [simp]: "length (pad4 bs) = align4 (length bs)"
  using align4_ge [of "length bs"] by (simp add: pad4_def)

lemma length_be32 [simp]: "length (be32 w) = 4"
  by (simp add: be32_def)

lemma tok_len_simps [simp]:
  "tok_len (TBegin nm) = 4 + align4 (length nm + 1)" "tok_len TEnd = 4"
  "tok_len (TProp off v) = 12 + align4 (length v)" "tok_len TFin = 4"
  by (simp_all add: tok_len_def)

lemma from_be_be32: "from_be_bytes (be32 w) = w"
proof (rule bit_word_eqI)
  fix n
  assume "n < LENGTH(32)"
  then show "bit (from_be_bytes (be32 w) :: u32) n = bit w n"
    by (cases "n < 8"; cases "n < 16"; cases "n < 24";
        simp add: from_be_bytes_def be32_def bit_simps not_less) auto
qed

lemma bytes_to_u32_be32: "bytes_to_u32 (be32 w @ rest) = Some w"
  by (simp add: bytes_to_u32_def get_range_def from_be_be32)

lemma get_from_append: "get_from (pre @ bs) (length pre) = Some bs"
  by (simp add: get_from_def)

lemma get_from_shift: "i = length pre + k \<Longrightarrow> get_from (pre @ bs) i = get_from bs k"
  by (simp add: get_from_def)

lemma position0_append: "0 \<notin> set nm \<Longrightarrow> position0 (nm @ 0 # rest) = Some (length nm)"
  unfolding position0_def by (subst takeWhile_append2) auto

lemma parse_enc:
  assumes "wf_tok t"
  shows "parse_token (pre @ enc_tok t @ post) (length pre) = Some (tok_ctx (length pre) t)"
proof -
  let ?s = "pre @ enc_tok t @ post"
  have hd: "get_from ?s (length pre) = Some (enc_tok t @ post)" by (rule get_from_append)
  have off: "get_from ?s (length pre + k) = get_from (enc_tok t @ post) k" for k
    by (rule get_from_shift) simp
  show ?thesis
  proof (cases t)
    case (TBegin nm)
    have "get_from (enc_tok t @ post) 4 = Some (nm @ 0 # replicate (align4 (length nm + 1) - (length nm + 1)) 0 @ post)"
      using get_from_append [of "be32 1"] by (simp add: TBegin pad4_def)
    then have "Option.bind (get_from ?s (length pre + 4)) position0 = Some (length nm)"
      using assms unfolding off by (simp add: TBegin position0_append)
    then show ?thesis using hd by (simp add: parse_token_def TBegin bytes_to_u32_be32)
  next
    case (TProp off' v)
    have "get_from (enc_tok t @ post) 4 =
        Some (be32 (word_of_nat (length v)) @ be32 off' @ pad4 v @ post)"
      using get_from_append [of "be32 3"] by (simp add: TProp)
    moreover have "get_from (enc_tok t @ post) 8 = Some (be32 off' @ pad4 v @ post)"
      using get_from_append [of "be32 3 @ be32 (word_of_nat (length v))"] by (simp add: TProp)
    moreover have "unat (word_of_nat (length v) :: u32) = length v"
      using assms by (simp add: TProp unat_word_of_nat_small)
    ultimately show ?thesis
      using off [of 4] off [of 8] hd by (simp add: parse_token_def TProp bytes_to_u32_be32)
  qed (use hd in \<open>simp_all add: parse_token_def bytes_to_u32_be32\<close>)
qed

section \<open>Token streams\<close>

text \<open>From offset \<open>i\<close> to its end, the structure block holds exactly these tokens.\<close>

definition stream :: "u8 list \<Rightarrow> nat \<Rightarrow> tok list \<Rightarrow> bool" where
  "stream s i ts \<longleftrightarrow> (\<forall>t \<in> set ts. wf_tok t) \<and> i \<le> length s \<and> drop i s = concat (map enc_tok ts)"

lemma stream_Cons:
  assumes "stream s i (t # ts)"
  shows "i < length s" and "parse_token s i = Some (tok_ctx i t)" and "stream s (i + tok_len t) ts"
proof -
  have d: "drop i s = enc_tok t @ concat (map enc_tok ts)" and wf: "wf_tok t" and i: "i \<le> length s"
    using assms by (auto simp: stream_def)
  have "enc_tok t \<noteq> []" by (cases t) (auto simp: be32_def)
  then show "i < length s" using d i by (cases "i = length s") auto
  have s: "s = take i s @ enc_tok t @ concat (map enc_tok ts)" using d by (metis append_take_drop_id)
  have li: "length (take i s) = i" using i by simp
  show "parse_token s i = Some (tok_ctx i t)"
    using parse_enc [OF wf, of "take i s" "concat (map enc_tok ts)"] unfolding li
    by (simp flip: s)
  have "drop (i + tok_len t) s = drop (tok_len t) (drop i s)" by (simp add: add.commute)
  also have "\<dots> = concat (map enc_tok ts)" by (simp add: d tok_len_def)
  finally have "drop (i + tok_len t) s = concat (map enc_tok ts)" .
  moreover have "length (drop i s) = tok_len t + length (concat (map enc_tok ts))"
    by (simp add: d tok_len_def)
  then have "i + tok_len t \<le> length s" using i by simp
  ultimately show "stream s (i + tok_len t) ts" using assms by (simp add: stream_def)
qed

lemma stream_Nil: "stream s i [] \<Longrightarrow> i = length s"
  by (simp add: stream_def)

definition toks_len :: "tok list \<Rightarrow> nat" where
  "toks_len ts = sum_list (map tok_len ts)"

lemma toks_len_simps [simp]:
  "toks_len [] = 0" "toks_len (t # ts) = tok_len t + toks_len ts"
  "toks_len (ts @ us) = toks_len ts + toks_len us"
  by (simp_all add: toks_len_def)

lemma stream_append: "stream s i (ts @ us) \<Longrightarrow> stream s (i + toks_len ts) us"
proof (induction ts arbitrary: i)
  case (Cons t ts)
  from Cons.IH [of "i + tok_len t"] Cons.prems show ?case
    by (simp add: stream_Cons(3) add.assoc)
qed simp

section \<open>Trees\<close>

datatype dt_tree = DtNode (tname: "u8 list") (tprops: "(u32 \<times> u8 list) list") (tkids: "dt_tree list")

fun toks :: "dt_tree \<Rightarrow> tok list" where
  "toks (DtNode nm ps ks) =
     TBegin nm # map (\<lambda>(off, v). TProp off v) ps @ concat (map toks ks) @ [TEnd]"

definition tree_len :: "dt_tree \<Rightarrow> nat" where
  "tree_len t = toks_len (toks t)"

definition props_toks :: "(u32 \<times> u8 list) list \<Rightarrow> tok list" where
  "props_toks ps = map (\<lambda>(off, v). TProp off v) ps"

definition forest_toks :: "dt_tree list \<Rightarrow> tok list" where
  "forest_toks ks = concat (map toks ks)"

lemma toks_alt: "toks t = TBegin (tname t) # props_toks (tprops t) @ forest_toks (tkids t) @ [TEnd]"
  by (cases t) (simp add: props_toks_def forest_toks_def)

lemma forest_toks_simps [simp]:
  "forest_toks [] = []" "forest_toks (t # ts) = toks t @ forest_toks ts"
  by (simp_all add: forest_toks_def)

text \<open>The node that starts at offset \<open>i\<close> at depth \<open>d\<close>, and the offset of its first child.\<close>

definition node_at :: "nat \<Rightarrow> nat \<Rightarrow> dt_tree \<Rightarrow> Node" where
  "node_at i d t =
     \<lparr>nd_start = i, nd_name_start = i + 4, nd_next_token_start = i + tok_len (TBegin (tname t)),
      nd_total_len = tree_len t, nd_depth = d\<rparr>"

definition head_len :: "dt_tree \<Rightarrow> nat" where
  "head_len t = tok_len (TBegin (tname t)) + toks_len (props_toks (tprops t))"

lemma tree_len_alt: "tree_len t = head_len t + toks_len (forest_toks (tkids t)) + 4"
  by (simp add: tree_len_def head_len_def toks_alt [of t])

text \<open>All nodes in document order.\<close>

fun tree_nodes :: "nat \<Rightarrow> nat \<Rightarrow> dt_tree \<Rightarrow> Node list"
  and forest_nodes :: "nat \<Rightarrow> nat \<Rightarrow> dt_tree list \<Rightarrow> Node list" where
  "tree_nodes i d (DtNode nm ps ks) =
     node_at i d (DtNode nm ps ks) # forest_nodes (i + head_len (DtNode nm ps ks)) (d + 1) ks"
| "forest_nodes i d [] = []"
| "forest_nodes i d (t # ts) = tree_nodes i d t @ forest_nodes (i + tree_len t) d ts"

section \<open>Skipping subtrees\<close>

text \<open>
  Both scanning loops, \<open>node_from_index\<close> and \<open>nodes\<close>, pass over a whole subtree below the
  node they delimit and come back to the depth they had before it.  The contract they share: how
  one call moves on at each kind of token while the depth is above the node's.
\<close>

locale skipping =
  fixes s :: "u8 list" and nd :: nat and scan :: "nat \<Rightarrow> nat \<Rightarrow> 'r"
  assumes at_begin: "stream s i (TBegin nm # ts) \<Longrightarrow> nd < d \<Longrightarrow>
      scan i d = scan (i + tok_len (TBegin nm)) (d + 1)"
    and at_prop: "stream s i (TProp off v # ts) \<Longrightarrow> scan i d = scan (i + tok_len (TProp off v)) d"
    and at_end: "stream s i (TEnd # ts) \<Longrightarrow> nd + 1 < d \<Longrightarrow> scan i d = scan (i + tok_len TEnd) (d - 1)"
begin

lemma skip_props: "stream s i (props_toks ps @ ts) \<Longrightarrow> scan i d = scan (i + toks_len (props_toks ps)) d"
proof (induction ps arbitrary: i)
  case (Cons p ps)
  obtain off v where p: "p = (off, v)" by (cases p)
  have st: "stream s i (TProp off v # props_toks ps @ ts)"
    using Cons.prems by (simp add: p props_toks_def)
  have "scan i d = scan (i + tok_len (TProp off v)) d" by (rule at_prop [OF st])
  also have "\<dots> = scan (i + tok_len (TProp off v) + toks_len (props_toks ps)) d"
    by (rule Cons.IH [OF stream_Cons(3) [OF st]])
  finally show ?case by (simp add: p props_toks_def add.assoc)
qed (simp add: props_toks_def)

lemma skip_forest_if:
  assumes "\<And>t i d ts. t \<in> set ks \<Longrightarrow> stream s i (toks t @ ts) \<Longrightarrow> nd < d \<Longrightarrow> scan i d = scan (i + tree_len t) d"
    and "stream s i (forest_toks ks @ ts)" and "nd < d"
  shows "scan i d = scan (i + toks_len (forest_toks ks)) d"
  using assms
proof (induction ks arbitrary: i)
  case (Cons k ks)
  have st: "stream s i (toks k @ forest_toks ks @ ts)" using Cons.prems(2) by simp
  have "scan i d = scan (i + tree_len k) d" using Cons.prems(1) [of k] st Cons.prems(3) by simp
  also have "\<dots> = scan (i + tree_len k + toks_len (forest_toks ks)) d"
    using Cons.prems(1,3) stream_append [OF st] by (intro Cons.IH) (auto simp: tree_len_def)
  finally show ?case by (simp add: tree_len_def add.assoc)
qed simp

lemma skip_tree: "stream s i (toks t @ ts) \<Longrightarrow> nd < d \<Longrightarrow> scan i d = scan (i + tree_len t) d"
proof (induction t arbitrary: i d ts)
  case (DtNode nm ps ks)
  let ?t = "DtNode nm ps ks"
  let ?i1 = "i + tok_len (TBegin nm)"
  let ?i2 = "?i1 + toks_len (props_toks ps)"
  let ?i3 = "?i2 + toks_len (forest_toks ks)"
  have s0: "stream s i (TBegin nm # props_toks ps @ forest_toks ks @ TEnd # ts)"
    using DtNode.prems(1) by (simp add: toks_alt del: toks.simps)
  note s1 = stream_Cons(3) [OF s0] and s2 = stream_append [OF stream_Cons(3) [OF s0]]
  note s3 = stream_append [OF s2]
  have "scan i d = scan ?i1 (d + 1)" by (rule at_begin [OF s0 DtNode.prems(2)])
  also have "\<dots> = scan ?i2 (d + 1)" by (rule skip_props [OF s1])
  also have "\<dots> = scan ?i3 (d + 1)"
    using DtNode.IH DtNode.prems(2) by (intro skip_forest_if [OF _ s2]) auto
  also have "\<dots> = scan (?i3 + tok_len TEnd) d"
    using at_end [OF s3, of "d + 1"] DtNode.prems(2) by simp
  also have "?i3 + tok_len TEnd = i + tree_len ?t"
    by (simp add: tree_len_alt head_len_def)
  finally show ?case .
qed

lemma skip_forest:
  "stream s i (forest_toks ks @ ts) \<Longrightarrow> nd < d \<Longrightarrow> scan i d = scan (i + toks_len (forest_toks ks)) d"
  using skip_tree by (rule skip_forest_if)

end

section \<open>\<open>node_from_index\<close>\<close>

lemma node_loop_stream:
  "stream s i (TBegin nm # ts) \<Longrightarrow> node_loop s nd i b nts d =
     (if d = nd
      then node_loop s nd (i + tok_len (TBegin nm))
        (Some \<lparr>bn_start = i, bn_total_len = tok_len (TBegin nm), bn_name_start = i + 4\<rparr>)
        (i + tok_len (TBegin nm)) (d + 1)
      else node_loop s nd (i + tok_len (TBegin nm)) b nts (d + 1))"
  "stream s i (TProp off v # ts) \<Longrightarrow>
     node_loop s nd i b nts d = node_loop s nd (i + tok_len (TProp off v)) b nts d"
  "stream s i (TEnd # ts) \<Longrightarrow> 0 < d \<Longrightarrow> node_loop s nd i b nts d =
     (if d - 1 = nd
      then Inr (map_option (\<lambda>b. mk_node b nts \<lparr>tk_start = i, tk_total_len = 4\<rparr> nd) b)
      else node_loop s nd (i + tok_len TEnd) b nts (d - 1))"
  "stream s i (TFin # ts) \<Longrightarrow> node_loop s nd i b nts d = node_loop s nd (i + tok_len TFin) b nts d"
  "stream s i [] \<Longrightarrow> node_loop s nd i b nts d = Inr None"
proof goal_cases
  case 1
  then show ?case by (subst node_loop.simps) (simp add: stream_Cons(1,2) [OF 1])
next
  case 2
  then show ?case by (subst node_loop.simps) (simp add: stream_Cons(1,2) [OF 2])
next
  case 3
  then show ?case by (subst node_loop.simps) (simp add: stream_Cons(1,2) [OF 3(1)])
next
  case 4
  then show ?case by (subst node_loop.simps) (simp add: stream_Cons(1,2) [OF 4])
next
  case 5
  then show ?case by (subst node_loop.simps) (simp add: stream_Nil [OF 5])
qed

interpretation node_skip: skipping s nd "\<lambda>i d. node_loop s nd i b nts d" for s nd b nts
proof (unfold_locales, goal_cases)
  case (1 i nm ts d)
  then show ?case using node_loop_stream(1) [OF 1(1), of nd b nts d] by simp
next
  case (2 i off v ts d)
  then show ?case by (rule node_loop_stream(2))
next
  case (3 i ts d)
  then show ?case using node_loop_stream(3) [OF 3(1), of d nd b nts] by auto
qed

lemma node_loop_here:
  assumes "stream s i (toks t @ ts)"
  shows "node_loop s nd i b nts nd = Inr (Some (node_at i nd t))"
proof -
  let ?i1 = "i + tok_len (TBegin (tname t))"
  let ?i2 = "?i1 + toks_len (props_toks (tprops t))"
  let ?i3 = "?i2 + toks_len (forest_toks (tkids t))"
  let ?b = "\<lparr>bn_start = i, bn_total_len = tok_len (TBegin (tname t)), bn_name_start = i + 4\<rparr>"
  have s0: "stream s i (TBegin (tname t) # props_toks (tprops t) @ forest_toks (tkids t) @ TEnd # ts)"
    using assms by (simp add: toks_alt [of t])
  note s1 = stream_Cons(3) [OF s0]
  note s2 = stream_append [OF s1]
  note s3 = stream_append [OF s2]
  have "node_loop s nd i b nts nd = node_loop s nd ?i1 (Some ?b) ?i1 (nd + 1)"
    by (simp add: node_loop_stream(1) [OF s0])
  also have "\<dots> = node_loop s nd ?i2 (Some ?b) ?i1 (nd + 1)" by (rule node_skip.skip_props [OF s1])
  also have "\<dots> = node_loop s nd ?i3 (Some ?b) ?i1 (nd + 1)"
    by (rule node_skip.skip_forest [OF s2]) simp
  also have "\<dots> = Inr (Some (mk_node ?b ?i1 \<lparr>tk_start = ?i3, tk_total_len = 4\<rparr> nd))"
    by (subst node_loop_stream(3) [OF s3]) simp_all
  also have "mk_node ?b ?i1 \<lparr>tk_start = ?i3, tk_total_len = 4\<rparr> nd = node_at i nd t"
    by (simp add: mk_node_def node_at_def tree_len_alt head_len_def)
  finally show ?thesis .
qed

text \<open>
  The rest of a document seen from some point in it: the forests that remain at the current depth
  and at each depth above it, the root level last.
\<close>

fun doc_toks :: "dt_tree list list \<Rightarrow> tok list" where
  "doc_toks [] = []"
| "doc_toks [F] = forest_toks F @ [TFin]"
| "doc_toks (F # Fs) = forest_toks F @ TEnd # doc_toks Fs"

function doc_nodes :: "nat \<Rightarrow> nat \<Rightarrow> dt_tree list list \<Rightarrow> Node list" where
  "doc_nodes i d [] = []"
| "doc_nodes i d ([] # Fs) = doc_nodes (i + 4) (d - 1) Fs"
| "doc_nodes i d ((t # F) # Fs) =
     node_at i d t # doc_nodes (i + head_len t) (d + 1) (tkids t # F # Fs)"
  by pat_completeness auto
termination
proof (relation "measure (\<lambda>(_, _, Fs). sum_list (map (\<lambda>F. Suc (size_list size F)) Fs))", goal_cases)
  case (3 i d t F Fs)
  then show ?case by (cases t) simp
qed auto

lemma doc_toks_Cons:
  "doc_toks ((t # F) # Fs) = TBegin (tname t) # props_toks (tprops t) @ doc_toks (tkids t # F # Fs)"
  by (cases Fs) (simp_all add: toks_alt [of t])

lemma doc_toks_pop: "Fs \<noteq> [] \<Longrightarrow> doc_toks ([] # Fs) = TEnd # doc_toks Fs"
  by (cases Fs) simp_all

text \<open>Entering a node: its begin token and properties lead to its children's forest.\<close>

lemma stream_enter:
  assumes "stream s i (doc_toks ((t # F) # Fs))"
  shows "stream s (i + head_len t) (doc_toks (tkids t # F # Fs))"
    and "stream s (i + tok_len (TBegin (tname t))) (props_toks (tprops t) @ doc_toks (tkids t # F # Fs))"
    and "\<exists>ts. stream s i (toks t @ ts)"
proof -
  have s0: "stream s i (TBegin (tname t) # props_toks (tprops t) @ doc_toks (tkids t # F # Fs))"
    using assms by (simp only: doc_toks_Cons)
  show s1: "stream s (i + tok_len (TBegin (tname t)))
      (props_toks (tprops t) @ doc_toks (tkids t # F # Fs))"
    by (rule stream_Cons(3) [OF s0])
  show "stream s (i + head_len t) (doc_toks (tkids t # F # Fs))"
    using stream_append [OF s1] by (simp add: head_len_def add.assoc)
  have "\<exists>ts. doc_toks ((t # F) # Fs) = toks t @ ts" by (cases Fs) auto
  with assms show "\<exists>ts. stream s i (toks t @ ts)" by auto
qed

text \<open>
  The search for a node at depth \<open>nd\<close>, from a point at most that deep, finds the first such
  node of the rest of the document, whichever subtree it belongs to.
\<close>

lemma node_loop_doc:
  assumes "stream s i (doc_toks Fs)" and "length Fs = Suc d" and "d \<le> nd"
  shows "node_loop s nd i b nts d = Inr (case filter (\<lambda>n. nd_depth n = nd) (doc_nodes i d Fs) of
     [] \<Rightarrow> None | n # _ \<Rightarrow> Some n)"
  using assms
proof (induction i d Fs rule: doc_nodes.induct)
  case (1 i d)
  then show ?case by simp
next
  case (2 i d Fs)
  show ?case
  proof (cases Fs)
    case Nil
    then have s0: "stream s i [TFin]" using "2.prems"(1) by simp
    have "node_loop s nd i b nts d = node_loop s nd (i + tok_len TFin) b nts d"
      by (rule node_loop_stream(4) [OF s0])
    also have "\<dots> = Inr None" by (rule node_loop_stream(5) [OF stream_Cons(3) [OF s0]])
    finally show ?thesis using Nil by simp
  next
    case (Cons G Gs)
    then have s0: "stream s i (TEnd # doc_toks Fs)" and d: "0 < d" "length Fs = Suc (d - 1)"
      using "2.prems" by (simp_all add: doc_toks_pop)
    have "node_loop s nd i b nts d = node_loop s nd (i + 4) b nts (d - 1)"
      using node_loop_stream(3) [OF s0 d(1), of nd b nts] d(1) "2.prems"(3) by auto
    then show ?thesis using "2.IH" stream_Cons(3) [OF s0] d "2.prems"(3) by simp
  qed
next
  case (3 i d t F Fs)
  note en = stream_enter [OF "3.prems"(1)]
  show ?case
  proof (cases "d = nd")
    case True
    from en(3) obtain ts where "stream s i (toks t @ ts)" by blast
    from node_loop_here [OF this] True show ?thesis by (simp add: node_at_def)
  next
    case False
    have s0: "stream s i (TBegin (tname t) # props_toks (tprops t) @ doc_toks (tkids t # F # Fs))"
      using "3.prems"(1) by (simp only: doc_toks_Cons)
    have "node_loop s nd i b nts d = node_loop s nd (i + tok_len (TBegin (tname t))) b nts (d + 1)"
      using node_loop_stream(1) [OF s0, of nd b nts d] False by simp
    also have "\<dots> = node_loop s nd (i + head_len t) b nts (d + 1)"
      using node_skip.skip_props [OF en(2)] by (simp add: head_len_def add.assoc)
    finally show ?thesis
      using "3.IH" [OF en(1)] "3.prems"(2,3) False by (simp add: node_at_def)
  qed
qed

section \<open>Documents and trees\<close>

lemma doc_nodes_forest_if:
  assumes "\<And>t i d F Fs. t \<in> set ks \<Longrightarrow>
      doc_nodes i d ((t # F) # Fs) = tree_nodes i d t @ doc_nodes (i + tree_len t) d (F # Fs)"
  shows "doc_nodes i d ((ks @ F) # Fs) =
      forest_nodes i d ks @ doc_nodes (i + toks_len (forest_toks ks)) d (F # Fs)"
  using assms
proof (induction ks arbitrary: i)
  case (Cons k ks)
  have "doc_nodes i d ((k # ks @ F) # Fs) =
      tree_nodes i d k @ doc_nodes (i + tree_len k) d ((ks @ F) # Fs)"
    by (rule Cons.prems) simp
  also have "doc_nodes (i + tree_len k) d ((ks @ F) # Fs) = forest_nodes (i + tree_len k) d ks @
      doc_nodes (i + tree_len k + toks_len (forest_toks ks)) d (F # Fs)"
    by (rule Cons.IH, rule Cons.prems) simp
  finally show ?case by (simp add: tree_len_def add.assoc)
qed simp

lemma doc_nodes_tree:
  "doc_nodes i d ((t # F) # Fs) = tree_nodes i d t @ doc_nodes (i + tree_len t) d (F # Fs)"
proof (induction t arbitrary: i d F Fs)
  case (DtNode nm ps ks)
  let ?t = "DtNode nm ps ks"
  have "doc_nodes (i + head_len ?t) (d + 1) ((ks @ []) # F # Fs) =
      forest_nodes (i + head_len ?t) (d + 1) ks @
      doc_nodes (i + head_len ?t + toks_len (forest_toks ks)) (d + 1) ([] # F # Fs)"
    using DtNode.IH by (rule doc_nodes_forest_if)
  then show ?case by (simp add: tree_len_alt add.assoc)
qed

lemma doc_nodes_forest:
  "doc_nodes i d (ks # Fs) = forest_nodes i d ks @ doc_nodes (i + toks_len (forest_toks ks) + 4) (d - 1) Fs"
  using doc_nodes_forest_if [of ks i d "[]" Fs] doc_nodes_tree by simp

lemma tree_nodes_depth:
  "n \<in> set (tree_nodes i d t) \<Longrightarrow> d \<le> nd_depth n"
  "n \<in> set (forest_nodes i d ts) \<Longrightarrow> d \<le> nd_depth n"
  by (induction i d t and i d ts rule: tree_nodes_forest_nodes.induct)
    (auto simp: node_at_def)

lemma filter_forest_deeper: "d < nd \<Longrightarrow> filter (\<lambda>n. nd_depth n = d) (forest_nodes i nd ts) = []"
  by (auto simp: filter_empty_conv dest: tree_nodes_depth(2))

text \<open>After the node found, the rest of the document continues at its depth.\<close>

lemma doc_after:
  assumes "stream s i (doc_toks Fs)" and "length Fs = Suc d" and "d \<le> nd"
    and "filter (\<lambda>n. nd_depth n = nd) (doc_nodes i d Fs) = n # ns"
  shows "\<exists>Gs. stream s (node_end n) (doc_toks Gs) \<and> length Gs = Suc nd \<and>
     filter (\<lambda>n. nd_depth n = nd) (doc_nodes (node_end n) nd Gs) = ns"
  using assms
proof (induction i d Fs rule: doc_nodes.induct)
  case (1 i d)
  then show ?case by simp
next
  case (2 i d Fs)
  then have "Fs \<noteq> []" by auto
  then have s0: "stream s i (TEnd # doc_toks Fs)" and "length Fs = Suc (d - 1)"
    using "2.prems" by (auto simp: doc_toks_pop)
  moreover have "filter (\<lambda>n. nd_depth n = nd) (doc_nodes (i + 4) (d - 1) Fs) = n # ns"
    using "2.prems"(4) by simp
  ultimately show ?case using "2.IH" stream_Cons(3) [OF s0] "2.prems"(3) by simp
next
  case (3 i d t F Fs)
  show ?case
  proof (cases "d = nd")
    case True
    then have n: "n = node_at i d t" using "3.prems"(4) by (simp add: node_at_def)
    have "doc_nodes (i + head_len t) (d + 1) (tkids t # F # Fs) = forest_nodes (i + head_len t) (d + 1) (tkids t) @
        doc_nodes (i + tree_len t) d (F # Fs)"
      using doc_nodes_forest [of "i + head_len t" "d + 1" "tkids t" "F # Fs"]
      by (simp add: tree_len_alt add.assoc)
    then have ns: "filter (\<lambda>n. nd_depth n = nd) (doc_nodes (i + tree_len t) d (F # Fs)) = ns"
      using "3.prems"(4) True by (simp add: node_at_def filter_forest_deeper)
    have "doc_toks ((t # F) # Fs) = toks t @ doc_toks (F # Fs)" by (cases Fs) simp_all
    then have "stream s (i + tree_len t) (doc_toks (F # Fs))"
      using "3.prems"(1) stream_append [of s i "toks t" "doc_toks (F # Fs)"] by (simp add: tree_len_def)
    then show ?thesis
      using ns n "3.prems"(2) True
      by (intro exI [of _ "F # Fs"]) (simp add: node_end_def node_at_def)
  next
    case False
    then show ?thesis
      using "3.IH" [OF stream_enter(1) [OF "3.prems"(1)]] "3.prems" by (simp add: node_at_def)
  qed
qed

lemma children_from_doc:
  assumes "stream s i (doc_toks Fs)" and "length Fs = Suc nd"
  shows "children_from s nd i = seq_of (filter (\<lambda>n. nd_depth n = nd) (doc_nodes i nd Fs))"
  using assms
proof (induction "length (filter (\<lambda>n. nd_depth n = nd) (doc_nodes i nd Fs))" arbitrary: i Fs)
  case 0
  then show ?case
    using node_loop_doc [OF 0(2,3) order_refl] by (subst children_from.simps) simp
next
  case (Suc k)
  then obtain n ns where f: "filter (\<lambda>n. nd_depth n = nd) (doc_nodes i nd Fs) = n # ns"
    by (metis length_Suc_conv)
  obtain Gs where G: "stream s (node_end n) (doc_toks Gs)" "length Gs = Suc nd"
      "filter (\<lambda>n. nd_depth n = nd) (doc_nodes (node_end n) nd Gs) = ns"
    using doc_after [OF Suc.prems order_refl f] by blast
  have "children_from s nd (node_end n) = seq_of ns"
    using Suc.hyps(1) [of "node_end n" Gs] Suc.hyps(2) f G by simp
  then show ?case
    using node_loop_doc [OF Suc.prems order_refl, of None 0] f
    by (subst children_from.simps) (simp add: node_end_def)
qed

section \<open>\<open>nodes\<close>\<close>

lemma nodes_next_stream:
  "stream s i (TBegin nm # ts) \<Longrightarrow> nodes_next s i d nd nts b =
     (case b of
        None \<Rightarrow> nodes_next s (i + tok_len (TBegin nm)) (d + 1) d (i + tok_len (TBegin nm))
          (Some \<lparr>bn_start = i, bn_total_len = tok_len (TBegin nm), bn_name_start = i + 4\<rparr>)
      | Some _ \<Rightarrow> nodes_next s (i + tok_len (TBegin nm)) (d + 1) nd nts b)"
  "stream s i (TProp off v # ts) \<Longrightarrow>
     nodes_next s i d nd nts b = nodes_next s (i + tok_len (TProp off v)) d nd nts b"
  "stream s i (TEnd # ts) \<Longrightarrow> 0 < d \<Longrightarrow> nodes_next s i d nd nts b =
     (case b of
        None \<Rightarrow> nodes_next s (i + tok_len TEnd) (d - 1) nd nts b
      | Some c \<Rightarrow>
          if d - 1 = nd
          then Inr (Some (mk_node c nts \<lparr>tk_start = i, tk_total_len = 4\<rparr> nd, nts, d))
          else nodes_next s (i + tok_len TEnd) (d - 1) nd nts b)"
  "stream s i (TFin # ts) \<Longrightarrow> nodes_next s i d nd nts b = nodes_next s (i + tok_len TFin) d nd nts b"
  "stream s i [] \<Longrightarrow> nodes_next s i d nd nts b = Inr None"
proof goal_cases
  case 1
  then show ?case by (subst nodes_next.simps) (simp add: stream_Cons(1,2) [OF 1] split: option.split)
next
  case 2
  then show ?case by (subst nodes_next.simps) (simp add: stream_Cons(1,2) [OF 2])
next
  case 3
  then show ?case by (subst nodes_next.simps) (simp add: stream_Cons(1,2) [OF 3(1)] split: option.split)
next
  case 4
  then show ?case by (subst nodes_next.simps) (simp add: stream_Cons(1,2) [OF 4])
next
  case 5
  then show ?case by (subst nodes_next.simps) (simp add: stream_Nil [OF 5])
qed

interpretation nodes_skip: skipping s nd "\<lambda>i d. nodes_next s i d nd nts (Some c)" for s nd nts c
proof (unfold_locales, goal_cases)
  case (1 i nm ts d)
  then show ?case using nodes_next_stream(1) [OF 1(1), of d nd nts "Some c"] by simp
next
  case (2 i off v ts d)
  then show ?case by (rule nodes_next_stream(2))
next
  case (3 i ts d)
  then show ?case using nodes_next_stream(3) [OF 3(1), of d nd nts "Some c"] by auto
qed

lemma nodes_next_props:
  "stream s i (props_toks ps @ ts) \<Longrightarrow>
     nodes_next s i d nd nts b = nodes_next s (i + toks_len (props_toks ps)) d nd nts b"
proof (induction ps arbitrary: i)
  case (Cons p ps)
  obtain off v where p: "p = (off, v)" by (cases p)
  have st: "stream s i (TProp off v # props_toks ps @ ts)"
    using Cons.prems by (simp add: p props_toks_def)
  show ?case
    using nodes_next_stream(2) [OF st, of d nd nts b] Cons.IH [OF stream_Cons(3) [OF st]]
    by (simp add: p props_toks_def add.assoc)
qed (simp add: props_toks_def)

lemma nodes_next_here:
  assumes "stream s i (toks t @ ts)"
  shows "nodes_next s i d nd nts None =
     Inr (Some (node_at i d t, i + tok_len (TBegin (tname t)), d + 1))"
proof -
  let ?i1 = "i + tok_len (TBegin (tname t))"
  let ?i2 = "?i1 + toks_len (props_toks (tprops t))"
  let ?i3 = "?i2 + toks_len (forest_toks (tkids t))"
  let ?b = "\<lparr>bn_start = i, bn_total_len = tok_len (TBegin (tname t)), bn_name_start = i + 4\<rparr>"
  have s0: "stream s i (TBegin (tname t) # props_toks (tprops t) @ forest_toks (tkids t) @ TEnd # ts)"
    using assms by (simp add: toks_alt [of t])
  note s1 = stream_Cons(3) [OF s0]
  note s2 = stream_append [OF s1]
  note s3 = stream_append [OF s2]
  have "nodes_next s i d nd nts None = nodes_next s ?i1 (d + 1) d ?i1 (Some ?b)"
    by (simp add: nodes_next_stream(1) [OF s0])
  also have "\<dots> = nodes_next s ?i2 (d + 1) d ?i1 (Some ?b)" by (rule nodes_skip.skip_props [OF s1])
  also have "\<dots> = nodes_next s ?i3 (d + 1) d ?i1 (Some ?b)"
    by (rule nodes_skip.skip_forest [OF s2]) simp
  also have "\<dots> = Inr (Some (mk_node ?b ?i1 \<lparr>tk_start = ?i3, tk_total_len = 4\<rparr> d, ?i1, d + 1))"
    by (subst nodes_next_stream(3) [OF s3]) simp_all
  also have "mk_node ?b ?i1 \<lparr>tk_start = ?i3, tk_total_len = 4\<rparr> d = node_at i d t"
    by (simp add: mk_node_def node_at_def tree_len_alt head_len_def)
  finally show ?thesis .
qed

text \<open>
  From a point of a document, before the properties of the node just entered, \<open>nodes\<close> yields
  all the nodes that remain, in document order.
\<close>

lemma nodes_next_pop:
  assumes "stream s i (doc_toks ([] # Fs))" and "length Fs = Suc d'"
  shows "nodes_next s i (Suc d') nd nts None = nodes_next s (i + 4) d' nd nts None"
proof -
  have "Fs \<noteq> []" using assms(2) by auto
  then have s0: "stream s i (TEnd # doc_toks Fs)" using assms(1) by (simp add: doc_toks_pop)
  show ?thesis by (subst nodes_next_stream(3) [OF s0]) simp_all
qed

lemma nodes_from_cong:
  "nodes_next s i d 0 0 None = nodes_next s j e 0 0 None \<Longrightarrow> nodes_from s i d = nodes_from s j e"
  by (simp add: nodes_from.simps [of s i] nodes_from.simps [of s j])

lemma nodes_from_doc:
  assumes "stream s i (doc_toks Fs)" and "length Fs = Suc d"
  shows "nodes_from s i d = seq_of (doc_nodes i d Fs)"
  using assms
proof (induction i d Fs rule: doc_nodes.induct)
  case (1 i d)
  then show ?case by simp
next
  case (2 i d Fs)
  show ?case
  proof (cases d)
    case 0
    then have s0: "stream s i [TFin]" and "Fs = []" using "2.prems" by simp_all
    have "nodes_next s i d 0 0 None = Inr None"
      using nodes_next_stream(4) [OF s0, of d 0 0 None]
        nodes_next_stream(5) [OF stream_Cons(3) [OF s0], of d 0 0 None] by simp
    then show ?thesis using \<open>Fs = []\<close> by (subst nodes_from.simps) simp
  next
    case (Suc d')
    then have l: "length Fs = Suc d'" using "2.prems"(2) by simp
    have "nodes_from s i d = nodes_from s (i + 4) d'"
      using nodes_next_pop [OF "2.prems"(1) l] Suc by (intro nodes_from_cong) simp
    moreover have "Fs \<noteq> []" using l by auto
    then have "stream s (i + 4) (doc_toks Fs)"
      using "2.prems"(1) stream_Cons(3) [of s i TEnd "doc_toks Fs"] by (simp add: doc_toks_pop)
    ultimately show ?thesis using "2.IH" l Suc by simp
  qed
next
  case (3 i d t F Fs)
  note en = stream_enter [OF "3.prems"(1)]
  from en(3) obtain ts where "stream s i (toks t @ ts)" by blast
  from nodes_next_here [OF this]
  have "nodes_from s i d = Item (node_at i d t) (nodes_from s (i + tok_len (TBegin (tname t))) (d + 1))"
    by (subst nodes_from.simps) (simp del: tok_len_simps)
  also have "nodes_from s (i + tok_len (TBegin (tname t))) (d + 1) = nodes_from s (i + head_len t) (d + 1)"
    using nodes_next_props [OF en(2), of "d + 1" 0 0 None]
    by (intro nodes_from_cong) (simp add: head_len_def add.assoc)
  also have "\<dots> = seq_of (doc_nodes (i + head_len t) (d + 1) (tkids t # F # Fs))"
    using "3.IH" [OF en(1)] "3.prems"(2) by simp
  finally show ?case by simp
qed

section \<open>Locations\<close>

text \<open>Every subtree with its offset and depth, in document order.\<close>

fun tree_locs :: "nat \<Rightarrow> nat \<Rightarrow> dt_tree \<Rightarrow> (nat \<times> nat \<times> dt_tree) list"
  and forest_locs :: "nat \<Rightarrow> nat \<Rightarrow> dt_tree list \<Rightarrow> (nat \<times> nat \<times> dt_tree) list" where
  "tree_locs i d (DtNode nm ps ks) =
     (i, d, DtNode nm ps ks) # forest_locs (i + head_len (DtNode nm ps ks)) (d + 1) ks"
| "forest_locs i d [] = []"
| "forest_locs i d (t # ts) = tree_locs i d t @ forest_locs (i + tree_len t) d ts"

lemma tree_nodes_locs:
  "tree_nodes i d t = map (\<lambda>(j, e, u). node_at j e u) (tree_locs i d t)"
  "forest_nodes i d ts = map (\<lambda>(j, e, u). node_at j e u) (forest_locs i d ts)"
  by (induction i d t and i d ts rule: tree_nodes_forest_nodes.induct) simp_all

lemma head_len_pos: "0 < head_len t"
  by (simp add: head_len_def)

lemma forest_len: "toks_len (forest_toks (t # ts)) = tree_len t + toks_len (forest_toks ts)"
  by (simp add: tree_len_def)

lemma tree_nodes_start:
  "n \<in> set (tree_nodes i d t) \<Longrightarrow> i \<le> nd_start n \<and> nd_start n < i + tree_len t"
  "n \<in> set (forest_nodes i d ts) \<Longrightarrow> i \<le> nd_start n \<and> nd_start n < i + toks_len (forest_toks ts)"
proof (induction i d t and i d ts rule: tree_nodes_forest_nodes.induct)
  case (1 i d nm ps ks)
  then show ?case
    using head_len_pos [of "DtNode nm ps ks"] tree_len_alt [of "DtNode nm ps ks"]
    by (auto simp: node_at_def)
next
  case (3 i d t ts)
  then show ?case unfolding forest_len by fastforce
qed auto

lemma doc_nodes_start: "n \<in> set (doc_nodes i d Fs) \<Longrightarrow> i \<le> nd_start n"
  by (induction i d Fs rule: doc_nodes.induct) (auto simp: node_at_def)

lemma doc_toks_tree: "doc_toks ((t # F) # Fs) = toks t @ doc_toks (F # Fs)"
  by (cases Fs) simp_all

text \<open>At the location of a subtree, the rest of the document begins with that subtree.\<close>

lemma loc_doc:
  "(j, e, u) \<in> set (tree_locs i d t) \<Longrightarrow> stream s i (doc_toks ((t # F) # Fs)) \<Longrightarrow> length Fs = d \<Longrightarrow>
     \<exists>pre G Gs. i \<le> j \<and> stream s j (doc_toks ((u # G) # Gs)) \<and> length Gs = e \<and>
       doc_nodes i d ((t # F) # Fs) = pre @ doc_nodes j e ((u # G) # Gs) \<and> (\<forall>m \<in> set pre. nd_start m < j)"
  "(j, e, u) \<in> set (forest_locs i d ts) \<Longrightarrow> stream s i (doc_toks ((ts @ F) # Fs)) \<Longrightarrow> length Fs = d \<Longrightarrow>
     \<exists>pre G Gs. i \<le> j \<and> stream s j (doc_toks ((u # G) # Gs)) \<and> length Gs = e \<and>
       doc_nodes i d ((ts @ F) # Fs) = pre @ doc_nodes j e ((u # G) # Gs) \<and> (\<forall>m \<in> set pre. nd_start m < j)"
proof (induction i d t and i d ts arbitrary: F Fs and F Fs rule: tree_locs_forest_locs.induct)
  case (1 i d nm ps ks)
  let ?t = "DtNode nm ps ks"
  show ?case
  proof (cases "(j, e, u) = (i, d, ?t)")
    case True
    then show ?thesis using "1.prems"(2,3) by (intro exI [of _ "[]"] exI [of _ F] exI [of _ Fs]) auto
  next
    case False
    then have mem: "(j, e, u) \<in> set (forest_locs (i + head_len ?t) (d + 1) ks)"
      using "1.prems"(1) by auto
    have "stream s (i + head_len ?t) (doc_toks ((ks @ []) # F # Fs))"
      using stream_enter(1) [OF "1.prems"(2)] by simp
    from "1.IH" [OF mem this] "1.prems"(3) obtain pre G Gs where
      r: "i + head_len ?t \<le> j" "stream s j (doc_toks ((u # G) # Gs))" "length Gs = e"
        "doc_nodes (i + head_len ?t) (d + 1) (ks # F # Fs) = pre @ doc_nodes j e ((u # G) # Gs)"
        "\<forall>m \<in> set pre. nd_start m < j"
      by auto
    have "doc_nodes i d ((?t # F) # Fs) = (node_at i d ?t # pre) @ doc_nodes j e ((u # G) # Gs)"
      using r(4) by simp
    moreover have "\<forall>m \<in> set (node_at i d ?t # pre). nd_start m < j"
      using r(1,5) head_len_pos [of ?t] by (auto simp: node_at_def)
    moreover have "i \<le> j" using r(1) by simp
    ultimately show ?thesis using r(2,3) by blast
  qed
next
  case (2 i d)
  then show ?case by simp
next
  case (3 i d t ts)
  show ?case
  proof (cases "(j, e, u) \<in> set (tree_locs i d t)")
    case True
    have "stream s i (doc_toks ((t # ts @ F) # Fs))" using "3.prems"(2) by simp
    from "3.IH"(1) [OF True this "3.prems"(3)] show ?thesis by simp
  next
    case False
    then have mem: "(j, e, u) \<in> set (forest_locs (i + tree_len t) d ts)" using "3.prems"(1) by simp
    have "stream s i (toks t @ doc_toks ((ts @ F) # Fs))"
      using "3.prems"(2) by (simp only: append_Cons doc_toks_tree)
    from stream_append [OF this] have "stream s (i + tree_len t) (doc_toks ((ts @ F) # Fs))"
      by (simp add: tree_len_def)
    from "3.IH"(2) [OF mem this "3.prems"(3)] obtain pre G Gs where
      r: "i + tree_len t \<le> j" "stream s j (doc_toks ((u # G) # Gs))" "length Gs = e"
        "doc_nodes (i + tree_len t) d ((ts @ F) # Fs) = pre @ doc_nodes j e ((u # G) # Gs)"
        "\<forall>m \<in> set pre. nd_start m < j"
      by auto
    have "doc_nodes i d (((t # ts) @ F) # Fs) =
        (tree_nodes i d t @ pre) @ doc_nodes j e ((u # G) # Gs)"
      using r(4) doc_nodes_tree [of i d t "ts @ F" Fs] by simp
    moreover have "\<forall>m \<in> set (tree_nodes i d t @ pre). nd_start m < j"
      using r(1,5) tree_nodes_start(1) [of _ i d t] by fastforce
    moreover have "i \<le> j" using r(1) by simp
    ultimately show ?thesis using r(2,3) by blast
  qed
qed

section \<open>Names, properties and values\<close>

lemma stream_get:
  assumes "stream s i (t # ts)"
  shows "get_from s (i + k) = get_from (enc_tok t @ concat (map enc_tok ts)) k"
    and "get_range s (i + k) (i + m) = get_range (enc_tok t @ concat (map enc_tok ts)) k m"
proof -
  have d: "drop i s = enc_tok t @ concat (map enc_tok ts)" and i: "i \<le> length s"
    using assms by (auto simp: stream_def)
  have l: "length s = i + length (enc_tok t @ concat (map enc_tok ts))"
    using i by (simp add: d [symmetric] del: length_append)
  have dr: "drop (i + k) s = drop k (enc_tok t @ concat (map enc_tok ts))" for k
    by (simp only: d [symmetric] drop_drop add.commute)
  show "get_from s (i + k) = get_from (enc_tok t @ concat (map enc_tok ts)) k"
    unfolding get_from_def dr l by simp
  show "get_range s (i + k) (i + m) = get_range (enc_tok t @ concat (map enc_tok ts)) k m"
    unfolding get_range_def dr l by simp
qed

lemma inline_str_at:
  assumes "stream s i (TBegin nm # ts)" and "utf8_ok nm"
  shows "inline_str s (i + 4) = Some nm"
proof -
  have z: "0 \<notin> set nm" using assms(1) by (simp add: stream_def)
  have "get_from s (i + 4) = get_from (be32 1 @ pad4 (nm @ [0]) @ concat (map enc_tok ts)) 4"
    using stream_get(1) [OF assms(1), of 4] by simp
  also have "\<dots> = Some (pad4 (nm @ [0]) @ concat (map enc_tok ts))"
    using get_from_append [of "be32 1"] by simp
  finally have g: "get_from s (i + 4) = Some (nm @ 0 # (replicate (align4 (Suc (length nm)) - Suc (length nm)) 0
      @ concat (map enc_tok ts)))"
    by (simp add: pad4_def)
  have "takeWhile (\<lambda>b. b \<noteq> 0) (nm @ 0 # rest) = nm" for rest :: "u8 list"
    using z by (subst takeWhile_append2) auto
  then show ?thesis using assms(2) by (simp add: inline_str_def g Let_def)
qed

text \<open>The properties the parser should find, starting at offset \<open>i\<close>.\<close>

fun props_at :: "nat \<Rightarrow> (u32 \<times> u8 list) list \<Rightarrow> Property list" where
  "props_at i [] = []"
| "props_at i ((off, v) # ps) =
     \<lparr>pp_start = i, pp_name_start = unat off, pp_value_start = i + 12, pp_value_len = length v,
      pp_total_len = 12 + align4 (length v)\<rparr> # props_at (i + (12 + align4 (length v))) ps"

lemma length_props_at [simp]: "length (props_at i ps) = length ps"
  by (induction i ps rule: props_at.induct) simp_all

lemma properties_from_stream:
  assumes "stream s i (props_toks ps @ t # ts)" and "i + toks_len (props_toks ps) < e"
    and "\<forall>off v. t \<noteq> TProp off v"
  shows "properties_from s e i = seq_of (props_at i ps)"
  using assms
proof (induction ps arbitrary: i)
  case Nil
  then have s0: "stream s i (t # ts)" and "i < e" by (simp_all add: props_toks_def)
  then show ?case
    using Nil.prems(3) stream_Cons(2) [OF s0] by (subst properties_from.simps) (cases t; auto)
next
  case (Cons p ps)
  obtain off v where p: "p = (off, v)" by (cases p)
  have st: "stream s i (TProp off v # props_toks ps @ t # ts)"
    using Cons.prems(1) by (simp add: p props_toks_def)
  have "properties_from s e (i + tok_len (TProp off v)) = seq_of (props_at (i + tok_len (TProp off v)) ps)"
    using Cons.prems(2,3) stream_Cons(3) [OF st]
    by (intro Cons.IH) (auto simp: p props_toks_def add.assoc)
  then show ?case
    using Cons.prems(2) stream_Cons(2) [OF st]
    by (subst properties_from.simps) (auto simp: p mk_property_def props_toks_def)
qed

lemma prop_values_stream:
  assumes "stream s i (props_toks ps @ ts)" and "k < length ps"
  shows "get_range s (pp_value_start (props_at i ps ! k))
     (pp_value_start (props_at i ps ! k) + pp_value_len (props_at i ps ! k)) = Some (snd (ps ! k))"
  using assms
proof (induction ps arbitrary: i k)
  case (Cons p ps)
  obtain off v where p: "p = (off, v)" by (cases p)
  have st: "stream s i (TProp off v # props_toks ps @ ts)"
    using Cons.prems(1) by (simp add: p props_toks_def)
  show ?case
  proof (cases k)
    case 0
    have "get_range s (i + 12) (i + (12 + length v)) = Some v"
      unfolding stream_get(2) [OF st] using align4_ge [of "length v"]
      by (simp add: get_range_def pad4_def)
    then show ?thesis by (simp add: 0 p add.assoc)
  next
    case (Suc k')
    then show ?thesis
      using Cons.IH [OF _, of "i + tok_len (TProp off v)" k'] stream_Cons(3) [OF st] Cons.prems(2)
      by (simp add: p)
  qed
qed simp

lemma prop_names_at: "k < length ps \<Longrightarrow> pp_name_start (props_at i ps ! k) = unat (fst (ps ! k))"
proof (induction i ps arbitrary: k rule: props_at.induct)
  case (2 i off v ps)
  then show ?case by (cases k) simp_all
qed simp

end
