(* ===== verification/Fdt_Blob.thy ===== *)
theory Fdt_Blob
  imports Fdt_Tree
begin

text \<open>
  Whole blobs: the header, the structure and the strings block of an abstract devicetree, and the
  parser's answers on them.
\<close>

section \<open>Blobs\<close>

fun wf_tree :: "dt_tree \<Rightarrow> bool" where
  "wf_tree (DtNode nm ps ks) \<longleftrightarrow>
     0 \<notin> set nm \<and> utf8_ok nm \<and> list_all (\<lambda>(off, v). length v < 2 ^ 32) ps \<and> list_all wf_tree ks"

definition dt_struct :: "dt_tree \<Rightarrow> u8 list" where
  "dt_struct t = concat (map enc_tok (toks t @ [TFin]))"

text \<open>The header words; the memory reservation block holds only its terminating entry.\<close>

definition dtb_words :: "dt_tree \<Rightarrow> u8 list \<Rightarrow> u32 list" where
  "dtb_words t strs =
     [0xd00dfeed, word_of_nat (56 + length (dt_struct t) + length strs), 56,
      word_of_nat (56 + length (dt_struct t)), 40, 17, 16, 0, word_of_nat (length strs),
      word_of_nat (length (dt_struct t))]"

definition dtb :: "dt_tree \<Rightarrow> u8 list \<Rightarrow> u8 list" where
  "dtb t strs = concat (map be32 (dtb_words t strs)) @ replicate 16 0 @ dt_struct t @ strs"

lemma length_concat_be32 [simp]: "length (concat (map be32 ws)) = 4 * length ws"
  by (induction ws) simp_all

lemma length_dtb: "length (dtb t strs) = 56 + length (dt_struct t) + length strs"
  by (simp add: dtb_def dtb_words_def)

lemma get_range_be32:
  "k < length ws \<Longrightarrow> get_range (concat (map be32 ws) @ rest) (4 * k) (4 * k + 4) = Some (be32 (ws ! k))"
proof (induction ws arbitrary: k)
  case (Cons w ws)
  show ?case
  proof (cases k)
    case (Suc k')
    have "get_range (be32 w @ bs) (4 + a) (4 + b) = get_range bs a b" for bs a b
      by (simp add: get_range_def)
    from this [of "concat (map be32 ws) @ rest" "4 * k'" "4 * k' + 4"] Cons.IH [of k'] Cons.prems Suc
    show ?thesis by (simp add: add.assoc)
  qed (simp add: get_range_def)
qed simp

lemma header_word:
  "k < length ws \<Longrightarrow> bytes_to_u32_offset (concat (map be32 ws) @ rest) (4 * k) = Some (ws ! k)"
  by (simp add: bytes_to_u32_offset_def get_range_be32 from_be_be32)

lemma DeviceTree_new_dtb:
  assumes "length (dtb t strs) < 2 ^ 32"
  obtains dt where "DeviceTree_new (dtb t strs) = Inr dt" and "structs dt = Inr (dt_struct t)"
    and "strings dt = Inr strs"
proof -
  let ?ws = "dtb_words t strs"
  let ?n = "length (dt_struct t)" and ?m = "length strs"
  define h where "h = \<lparr>magic = ?ws ! 0, totalsize = ?ws ! 1, off_dt_struct = ?ws ! 2, off_dt_strings = ?ws ! 3,
    off_mem_rsvmap = ?ws ! 4, version = ?ws ! 5, last_comp_version = ?ws ! 6, boot_cpuid_phys = ?ws ! 7,
    size_dt_strings = ?ws ! 8, size_dt_struct = ?ws ! 9\<rparr>"
  have w: "bytes_to_u32_offset (dtb t strs) (4 * k) = Some (?ws ! k)" if "k < 10" for k
    unfolding dtb_def using that by (intro header_word) (simp add: dtb_words_def)
  have "new_header (dtb t strs) = Some h"
    unfolding new_header_def h_def
    using w [of 0] w [of 1] w [of 2] w [of 3] w [of 4] w [of 5] w [of 6] w [of 7] w [of 8] w [of 9]
    by simp
  then have new: "DeviceTree_new (dtb t strs) = Inr \<lparr>dt_data = dtb t strs, dt_header = h\<rparr>"
    by (simp add: DeviceTree_new_def FdtHeader_new_def h_def dtb_words_def length_dtb)
  have small: "56 + ?n + ?m < 2 ^ LENGTH(32)" using assms by (simp add: length_dtb)
  have u: "unat (word_of_nat (56 + ?n) :: u32) = 56 + ?n" "unat (word_of_nat ?n :: u32) = ?n"
      "unat (word_of_nat ?m :: u32) = ?m"
    using small by (intro unat_word_of_nat_small; linarith)+
  let ?dt = "\<lparr>dt_data = dtb t strs, dt_header = h\<rparr>"
  have pre: "dtb t strs = (concat (map be32 ?ws) @ replicate 16 0) @ dt_struct t @ strs"
    by (simp add: dtb_def)
  have lpre: "length (concat (map be32 ?ws) @ replicate 16 0) = 56" by (simp add: dtb_words_def)
  have o1: "unat (off_dt_struct h) = 56" "unat (size_dt_struct h) = ?n"
    and o2: "unat (off_dt_strings h) = 56 + ?n" "unat (size_dt_strings h) = ?m"
    using u by (simp_all add: h_def dtb_words_def)
  have d1: "drop 56 (dtb t strs) = dt_struct t @ strs"
    unfolding pre using lpre by simp
  have d2: "drop (56 + ?n) (dtb t strs) = strs"
    using d1 by (metis add.commute append_eq_conv_conj drop_drop)
  show thesis
  proof (rule that [OF new])
    show "structs ?dt = Inr (dt_struct t)"
      by (simp add: structs_def Let_def slice_r_def o1 length_dtb d1)
    show "strings ?dt = Inr strs"
      by (simp add: strings_def Let_def slice_r_def o2 length_dtb d2)
  qed
qed

section \<open>Well-formed trees\<close>

lemma wf_toks: "wf_tree t \<Longrightarrow> k \<in> set (toks t) \<Longrightarrow> wf_tok k"
proof (induction t arbitrary: k)
  case (DtNode nm ps ks)
  then show ?case by (fastforce simp: list_all_iff)
qed

lemma wf_locs:
  "wf_tree t \<Longrightarrow> (j, e, u) \<in> set (tree_locs i d t) \<Longrightarrow> wf_tree u"
  "list_all wf_tree ts \<Longrightarrow> (j, e, u) \<in> set (forest_locs i d ts) \<Longrightarrow> wf_tree u"
  by (induction i d t and i d ts rule: tree_locs_forest_locs.induct) auto

lemma stream_struct: "wf_tree t \<Longrightarrow> stream (dt_struct t) 0 (doc_toks [[t]])"
  using wf_toks by (auto simp: stream_def dt_struct_def)

lemma doc_nodes_root: "doc_nodes 0 0 [[t]] = tree_nodes 0 0 t"
  by (subst doc_nodes_tree) simp

section \<open>Children\<close>

text \<open>The direct children of a node with their offsets.\<close>

fun kid_offs :: "nat \<Rightarrow> dt_tree list \<Rightarrow> (nat \<times> dt_tree) list" where
  "kid_offs i [] = []"
| "kid_offs i (t # ts) = (i, t) # kid_offs (i + tree_len t) ts"

lemma forest_locs_kids: "forest_locs i d ts = concat (map (\<lambda>(k, t). tree_locs k d t) (kid_offs i ts))"
  by (induction ts arbitrary: i) simp_all

lemma filter_forest_kids:
  "filter (\<lambda>n. nd_depth n = d) (forest_nodes i d ts) = map (\<lambda>(k, t). node_at k d t) (kid_offs i ts)"
proof (induction ts arbitrary: i)
  case (Cons t ts)
  obtain nm ps ks where t: "t = DtNode nm ps ks" by (cases t)
  have "filter (\<lambda>n. nd_depth n = d) (tree_nodes i d t) = [node_at i d t]"
    by (simp add: t filter_forest_deeper) (simp add: node_at_def)
  then show ?case using Cons.IH by simp
qed simp

text \<open>The children the iterator yields: the node's own, then every later node at their depth.\<close>

lemma children_from_loc:
  assumes "stream s j (doc_toks ((u # G) # Gs))" and "length Gs = e"
  shows "children_from s (e + 1) (j + tok_len (TBegin (tname u))) =
      seq_of (filter (\<lambda>n. nd_depth n = e + 1) (doc_nodes (j + head_len u) (e + 1) (tkids u # G # Gs)))"
proof -
  note en = stream_enter [OF assms(1)]
  have "node_loop s (e + 1) (j + tok_len (TBegin (tname u))) None 0 (e + 1) =
      node_loop s (e + 1) (j + head_len u) None 0 (e + 1)"
    using node_skip.skip_props [OF en(2), of "e + 1" None 0 "e + 1"] by (simp add: head_len_def add.assoc)
  then have "children_from s (e + 1) (j + tok_len (TBegin (tname u))) = children_from s (e + 1) (j + head_len u)"
    by (subst (1 2) children_from.simps) (simp only:)
  also have "\<dots> = seq_of (filter (\<lambda>n. nd_depth n = e + 1) (doc_nodes (j + head_len u) (e + 1) (tkids u # G # Gs)))"
    using assms(2) by (intro children_from_doc [OF en(1)]) simp
  finally show ?thesis .
qed

definition kid_nodes :: "nat \<Rightarrow> nat \<Rightarrow> dt_tree \<Rightarrow> Node list" where
  "kid_nodes j e u = map (\<lambda>(k, t). node_at k (e + 1) t) (kid_offs (j + head_len u) (tkids u))"

definition later_nodes :: "nat \<Rightarrow> nat \<Rightarrow> dt_tree \<Rightarrow> Node list" where
  "later_nodes i d t = filter (\<lambda>n. nd_depth n = d \<and> i \<le> nd_start n) (tree_nodes 0 0 t)"

lemma children_loc:
  assumes wf: "wf_tree t" and loc: "(j, e, u) \<in> set (tree_locs 0 0 t)"
  shows "children_from (dt_struct t) (e + 1) (nd_next_token_start (node_at j e u)) =
      seq_of (kid_nodes j e u @ later_nodes (j + tree_len u) (e + 1) t)"
proof -
  let ?s = "dt_struct t" and ?P = "\<lambda>n. nd_depth n = e + 1"
  obtain pre G Gs where g: "stream ?s j (doc_toks ((u # G) # Gs))" "length Gs = e"
    and all: "doc_nodes 0 0 [[t]] = pre @ doc_nodes j e ((u # G) # Gs)"
    and pre: "\<forall>m \<in> set pre. nd_start m < j"
    using loc_doc(1) [OF loc, of ?s "[]" "[]"] stream_struct [OF wf] by auto
  let ?rest = "doc_nodes (j + tree_len u) e (G # Gs)"
  have kids: "doc_nodes (j + head_len u) (e + 1) (tkids u # G # Gs) =
      forest_nodes (j + head_len u) (e + 1) (tkids u) @ ?rest"
    using doc_nodes_forest [of "j + head_len u" "e + 1" "tkids u" "G # Gs"]
    by (simp add: tree_len_alt add.assoc)
  have split: "tree_nodes 0 0 t = (pre @ tree_nodes j e u) @ ?rest"
    using all doc_nodes_tree [of j e u G Gs] unfolding doc_nodes_root by simp
  have "later_nodes (j + tree_len u) (e + 1) t = filter ?P ?rest"
    unfolding later_nodes_def split
  proof (rule filter_split_at)
    show "\<not> j + tree_len u \<le> nd_start n" if "n \<in> set (pre @ tree_nodes j e u)" for n
      using that pre tree_nodes_start(1) [of n j e u] by auto
    show "j + tree_len u \<le> nd_start n" if "n \<in> set ?rest" for n
      using doc_nodes_start [OF that] .
  qed
  moreover have "nd_next_token_start (node_at j e u) = j + tok_len (TBegin (tname u))"
    by (simp add: node_at_def)
  ultimately show ?thesis
    using children_from_loc [OF g] unfolding kids kid_nodes_def
    by (simp only: filter_append filter_forest_kids)
qed

section \<open>Parents\<close>

lemma loc_extent:
  "(j, e, u) \<in> set (tree_locs i d t) \<Longrightarrow> i \<le> j \<and> j + tree_len u \<le> i + tree_len t \<and> d \<le> e"
  "(j, e, u) \<in> set (forest_locs i d ts) \<Longrightarrow> i \<le> j \<and> j + tree_len u \<le> i + toks_len (forest_toks ts) \<and> d \<le> e"
proof (induction i d t and i d ts rule: tree_locs_forest_locs.induct)
  case (1 i d nm ps ks)
  then show ?case using tree_len_alt [of "DtNode nm ps ks"] by auto
next
  case (3 i d t ts)
  then show ?case unfolding forest_len by fastforce
qed auto

lemma tree_len_pos: "0 < tree_len t"
  by (simp add: tree_len_alt)

text \<open>Siblings do not overlap: only the one that contains a location encloses its node.\<close>

lemma kid_offs_extent: "(k, w) \<in> set (kid_offs i ts) \<Longrightarrow> i \<le> k \<and> k + tree_len w \<le> i + toks_len (forest_toks ts)"
  by (induction ts arbitrary: i) (force simp: tree_len_def)+

lemma kid_encloses:
  assumes "(k, w) \<in> set (kid_offs i ts)" and "(j, e, u) \<in> set (forest_locs i d ts)"
    and "encloses (node_at k d w) (node_at j e u)"
  shows "(j, e, u) \<in> set (tree_locs k d w)"
  using assms(1,2)
proof (induction ts arbitrary: i)
  case (Cons t ts)
  have en: "k \<le> j" "j + tree_len u \<le> k + tree_len w"
    using assms(3) by (simp_all add: encloses_def node_at_def)
  show ?case
  proof (cases "(j, e, u) \<in> set (tree_locs i d t)")
    case True
    then have "j + tree_len u \<le> i + tree_len t" using loc_extent(1) by blast
    then have "j < i + tree_len t" using tree_len_pos [of u] by simp
    then have "(k, w) \<notin> set (kid_offs (i + tree_len t) ts)"
      using kid_offs_extent [of k w "i + tree_len t" ts] en by auto
    then show ?thesis using Cons.prems(1) True by auto
  next
    case False
    then have f: "(j, e, u) \<in> set (forest_locs (i + tree_len t) d ts)" using Cons.prems(2) by simp
    then have "i + tree_len t \<le> j" using loc_extent(2) by blast
    then have "(k, w) \<noteq> (i, t)" using en tree_len_pos [of u] by auto
    then show ?thesis using Cons f by auto
  qed
qed simp

lemma first_some_skip:
  "(\<forall>x \<in> set xs. f x = Inr None) \<Longrightarrow> first_some f (seq_of (xs @ ys)) = first_some f (seq_of ys)"
  by (induction xs) simp_all

lemma locs_trans:
  "(j, e, u) \<in> set (tree_locs i d t) \<Longrightarrow> set (tree_locs j e u) \<subseteq> set (tree_locs i d t)"
  "(j, e, u) \<in> set (forest_locs i d ts) \<Longrightarrow> set (tree_locs j e u) \<subseteq> set (forest_locs i d ts)"
  by (induction i d t and i d ts rule: tree_locs_forest_locs.induct) auto

lemma tree_locs_self: "(i, d, t) \<in> set (tree_locs i d t)"
  by (cases t) simp

lemma tree_locs_kids: "set (tree_locs i d t) = insert (i, d, t) (set (forest_locs (i + head_len t) (d + 1) (tkids t)))"
  by (cases t) simp

lemma kid_of_depth:
  assumes "(j, d, u) \<in> set (forest_locs i d ts)"
  shows "(j, u) \<in> set (kid_offs i ts)"
proof -
  obtain k w where k: "(k, w) \<in> set (kid_offs i ts)" "(j, d, u) \<in> set (tree_locs k d w)"
    using assms by (auto simp: forest_locs_kids)
  have "(j, d, u) \<notin> set (forest_locs (k + head_len w) (d + 1) (tkids w))"
    using loc_extent(2) by fastforce
  then show ?thesis using k by (simp add: tree_locs_kids)
qed

lemma kid_offs_mem: "(k, w) \<in> set (kid_offs i ts) \<Longrightarrow> w \<in> set ts"
  by (induction ts arbitrary: i) auto

lemma kid_offs_loc: "(k, w) \<in> set (kid_offs i ts) \<Longrightarrow> (k, d, w) \<in> set (forest_locs i d ts)"
  using tree_locs_self by (force simp: forest_locs_kids)

lemma find_parent_loc:
  assumes dt: "structs dt = Inr (dt_struct t)" and wf: "wf_tree t"
    and "(i, d, w) \<in> set (tree_locs 0 0 t)" and "(j, e, u) \<in> set (tree_locs i d w)" and "d < e"
  shows "\<exists>k v. (k, e - 1, v) \<in> set (tree_locs i d w) \<and> (j, u) \<in> set (kid_offs (k + head_len v) (tkids v)) \<and>
     find_parent dt (node_at i d w) (node_at j e u) = Inr (Some (node_at k (e - 1) v))"
  using assms(3-5)
proof (induction w arbitrary: i d)
  case (DtNode nm ps ks)
  let ?w = "DtNode nm ps ks" and ?c = "node_at j e u"
  let ?i = "i + head_len ?w"
  have inside: "(j, e, u) \<in> set (forest_locs ?i (d + 1) ks)"
    using DtNode.prems(2,3) tree_locs_kids [of i d ?w] by simp
  have enc: "encloses (node_at i d ?w) ?c" and dep: "nd_depth (node_at i d ?w) = d" "nd_depth ?c = e"
    using loc_extent(1) [OF DtNode.prems(2)] by (simp_all add: encloses_def node_at_def)
  show ?case
  proof (cases "d + 1 < e")
    case False
    then have e: "e = d + 1" using DtNode.prems(3) by simp
    then have "(j, u) \<in> set (kid_offs ?i ks)" using inside kid_of_depth by blast
    moreover have "find_parent dt (node_at i d ?w) ?c = Inr (Some (node_at i d ?w))"
      using enc dep e by (subst find_parent.simps) simp
    ultimately show ?thesis
      using e tree_locs_self [of i d ?w] by (intro exI [of _ i] exI [of _ ?w]) (simp del: tree_locs.simps)
  next
    case True
    let ?f = "\<lambda>c. find_parent dt c ?c"
    have ch: "children dt (node_at i d ?w) = seq_of (kid_nodes i d ?w @ later_nodes (i + tree_len ?w) (d + 1) t)"
      using children_loc [OF wf DtNode.prems(1)] dep(1) by (simp add: children_def dt)
    obtain k v where kv: "(k, v) \<in> set (kid_offs ?i ks)" "(j, e, u) \<in> set (tree_locs k (d + 1) v)"
      using inside by (auto simp: forest_locs_kids)
    then have "encloses (node_at k (d + 1) v) ?c"
      using loc_extent(1) [OF kv(2)] by (simp add: encloses_def node_at_def)
    moreover have "node_at k (d + 1) v \<in> set (kid_nodes i d ?w)"
      using kv(1) by (force simp: kid_nodes_def)
    ultimately obtain xs x ys where split: "kid_nodes i d ?w = xs @ x # ys"
        and x: "encloses x ?c" "\<forall>y \<in> set xs. \<not> encloses y ?c"
      using split_list_first_prop [of "kid_nodes i d ?w" "\<lambda>y. encloses y ?c"] by blast
    have "x \<in> set (kid_nodes i d ?w)" by (simp add: split)
    then obtain k' v' where x': "x = node_at k' (d + 1) v'" "(k', v') \<in> set (kid_offs ?i ks)"
      by (auto simp: kid_nodes_def)
    have in': "(j, e, u) \<in> set (tree_locs k' (d + 1) v')"
      using kid_encloses [OF x'(2) inside] x(1) by (simp add: x'(1))
    have "(k', d + 1, v') \<in> set (tree_locs i d ?w)"
      using kid_offs_loc [OF x'(2)] tree_locs_kids [of i d ?w] by simp
    then have "(k', d + 1, v') \<in> set (tree_locs 0 0 t)"
      and sub: "set (tree_locs k' (d + 1) v') \<subseteq> set (tree_locs i d ?w)"
      using locs_trans(1) DtNode.prems(1) by blast+
    from DtNode.IH [OF kid_offs_mem [OF x'(2)] this(1) in' True]
    obtain p q where r: "(p, e - 1, q) \<in> set (tree_locs k' (d + 1) v')"
        "(j, u) \<in> set (kid_offs (p + head_len q) (tkids q))" "?f x = Inr (Some (node_at p (e - 1) q))"
      using x'(1) by blast
    have "?f y = Inr None" if "y \<in> set xs" for y
      using x(2) that by (subst find_parent.simps) simp
    then have "first_some ?f (children dt (node_at i d ?w)) = Inr (Some (node_at p (e - 1) q))"
      unfolding ch split using r(3) by (simp add: first_some_skip)
    then have "?f (node_at i d ?w) = Inr (Some (node_at p (e - 1) q))"
      using enc dep True by (subst find_parent.simps) simp
    then show ?thesis using r(1,2) sub by blast
  qed
qed

section \<open>A small devicetree\<close>

text \<open>
  A root with the children \<open>a\<close>, which has a property and no children, and \<open>b\<close>, which has the
  child \<open>x\<close>; the strings block holds one name.
\<close>

definition small_dt :: dt_tree where
  "small_dt = DtNode [] []
     [DtNode [0x61] [(0, [0, 0, 0, 1])] [], DtNode [0x62] [] [DtNode [0x78] [] []]]"

definition small_strs :: "u8 list" where
  "small_strs = [0x72, 0x65, 0x67, 0]"

lemma small_dt_wf: "wf_tree small_dt"
  by (simp add: small_dt_def)

lemma small_dt_len: "length (dtb small_dt small_strs) < 2 ^ 32"
proof -
  have "length (dt_struct small_dt) = 68" "length small_strs = 4" by code_simp+
  then show ?thesis by (simp add: length_dtb)
qed

lemma small_dt_locs:
  "tree_locs 0 0 small_dt =
     [(0, 0, small_dt), (8, 1, DtNode [0x61] [(0, [0, 0, 0, 1])] []),
      (36, 1, DtNode [0x62] [] [DtNode [0x78] [] []]), (44, 2, DtNode [0x78] [] [])]"
  by code_simp

section \<open>Properties\<close>

text \<open>
  C14. Parsing is the inverse of encoding: for every well-formed devicetree whose blob fits a
  32-bit size, the header is accepted, the root is the encoded root, and \<open>nodes\<close> yields exactly
  the nodes of the tree, in document order, with their offsets, lengths and depths.
\<close>

theorem dtb_nodes:
  assumes "wf_tree t" and "length (dtb t strs) < 2 ^ 32"
  shows "\<exists>dt. DeviceTree_new (dtb t strs) = Inr dt \<and> DeviceTree_root dt = Inr (Some (node_at 0 0 t)) \<and>
    nodes dt = seq_of (tree_nodes 0 0 t)"
proof -
  obtain dt where dt: "DeviceTree_new (dtb t strs) = Inr dt" "structs dt = Inr (dt_struct t)"
    by (rule DeviceTree_new_dtb [OF assms(2)])
  note st = stream_struct [OF assms(1)]
  have "node_loop (dt_struct t) 0 0 None 0 0 = Inr (Some (node_at 0 0 t))"
    using st by (intro node_loop_here [where ts = "[TFin]"]) simp
  moreover have "nodes_from (dt_struct t) 0 0 = seq_of (tree_nodes 0 0 t)"
    using nodes_from_doc [OF st, of 0] unfolding doc_nodes_root by simp
  ultimately show ?thesis
    using dt by (simp add: DeviceTree_root_def node_from_index_def nodes_def)
qed

theorem dtb_nodes_witness:
  "\<exists>dt. DeviceTree_new (dtb small_dt small_strs) = Inr dt \<and>
     nodes dt = seq_of [node_at 0 0 small_dt, node_at 8 1 (DtNode [0x61] [(0, [0, 0, 0, 1])] []),
       node_at 36 1 (DtNode [0x62] [] [DtNode [0x78] [] []]), node_at 44 2 (DtNode [0x78] [] [])]"
  using dtb_nodes [OF small_dt_wf small_dt_len] by (simp only: tree_nodes_locs small_dt_locs) auto

text \<open>
  C15. Every node found answers with its own data: its name, its properties in order, and for each
  property the offset of its name in the strings block and exactly the encoded value bytes.
\<close>

theorem dtb_node_contents:
  assumes "wf_tree t" and "length (dtb t strs) < 2 ^ 32" and "(j, e, u) \<in> set (tree_locs 0 0 t)"
    and "DeviceTree_new (dtb t strs) = Inr dt"
  shows "node_name dt (node_at j e u) = Inr (Some (tname u)) \<and>
    (\<exists>ps. properties dt (node_at j e u) = seq_of ps \<and> length ps = length (tprops u) \<and>
       (\<forall>k < length ps. pp_name_start (ps ! k) = unat (fst (tprops u ! k)) \<and>
          property_value_bytes dt (ps ! k) = Inr (Some (snd (tprops u ! k)))))"
proof -
  have dt: "structs dt = Inr (dt_struct t)"
    using DeviceTree_new_dtb [OF assms(2)] assms(4) by (metis sum.inject(2))
  obtain G Gs where st: "stream (dt_struct t) j (doc_toks ((u # G) # Gs))"
    using loc_doc(1) [OF assms(3), of "dt_struct t" "[]" "[]"] stream_struct [OF assms(1)] by auto
  note en = stream_enter [OF st]
  have s0: "stream (dt_struct t) j (TBegin (tname u) # props_toks (tprops u) @ doc_toks (tkids u # G # Gs))"
    using st by (simp only: doc_toks_Cons)
  have "utf8_ok (tname u)" using wf_locs(1) [OF assms(1,3)] by (cases u) simp
  then have nm: "inline_str (dt_struct t) (j + 4) = Some (tname u)" by (rule inline_str_at [OF s0])
  let ?i = "j + tok_len (TBegin (tname u))"
  obtain k ts where next_tok: "doc_toks (tkids u # G # Gs) = k # ts" "\<forall>off v. k \<noteq> TProp off v"
    by (cases "tkids u") (auto simp: doc_toks_pop toks_alt)
  have "?i + toks_len (props_toks (tprops u)) < j + tree_len u"
    by (simp add: tree_len_alt head_len_def)
  then have "properties_from (dt_struct t) (j + tree_len u) ?i = seq_of (props_at ?i (tprops u))"
    using en(2) next_tok by (intro properties_from_stream) auto
  then have ps: "properties dt (node_at j e u) = seq_of (props_at ?i (tprops u))"
    by (simp add: properties_def dt node_at_def)
  show ?thesis
    using nm ps prop_names_at [of _ "tprops u" ?i] prop_values_stream [OF en(2)]
    by (intro conjI exI [of _ "props_at ?i (tprops u)"])
      (simp_all add: node_name_def dt node_at_def property_value_bytes_def)
qed

theorem dtb_node_contents_witness:
  "\<exists>dt. DeviceTree_new (dtb small_dt small_strs) = Inr dt \<and>
     node_name dt (node_at 8 1 (DtNode [0x61] [(0, [0, 0, 0, 1])] [])) = Inr (Some [0x61])"
proof -
  obtain dt where dt: "DeviceTree_new (dtb small_dt small_strs) = Inr dt"
    by (rule DeviceTree_new_dtb [OF small_dt_len])
  have "(8, 1, DtNode [0x61] [(0, [0, 0, 0, 1])] []) \<in> set (tree_locs 0 0 small_dt)"
    by (simp add: small_dt_locs)
  from dtb_node_contents [OF small_dt_wf small_dt_len this dt] dt show ?thesis by auto
qed

text \<open>
  C16. \<open>parent\<close> is right on every encoded tree: for every node but the root it returns a node one
  level up that has the given node among its direct children.
\<close>

theorem dtb_parent:
  assumes "wf_tree t" and "length (dtb t strs) < 2 ^ 32" and "(j, e, u) \<in> set (tree_locs 0 0 t)" and "0 < e"
    and "DeviceTree_new (dtb t strs) = Inr dt"
  shows "\<exists>k v. parent dt (node_at j e u) = Inr (Some (node_at k (e - 1) v)) \<and>
    (k, e - 1, v) \<in> set (tree_locs 0 0 t) \<and> (j, u) \<in> set (kid_offs (k + head_len v) (tkids v))"
proof -
  have dt: "structs dt = Inr (dt_struct t)"
    using DeviceTree_new_dtb [OF assms(2)] assms(5) by (metis sum.inject(2))
  have "node_loop (dt_struct t) 0 0 None 0 0 = Inr (Some (node_at 0 0 t))"
    using stream_struct [OF assms(1)] by (intro node_loop_here [where ts = "[TFin]"]) simp
  then have "parent dt (node_at j e u) = find_parent dt (node_at 0 0 t) (node_at j e u)"
    by (simp add: parent_def DeviceTree_root_def node_from_index_def dt)
  then show ?thesis
    using find_parent_loc [OF dt assms(1) tree_locs_self assms(3,4)] by metis
qed

theorem dtb_parent_witness:
  "\<exists>dt k v. DeviceTree_new (dtb small_dt small_strs) = Inr dt \<and>
     parent dt (node_at 44 2 (DtNode [0x78] [] [])) = Inr (Some (node_at k 1 v))"
proof -
  obtain dt where dt: "DeviceTree_new (dtb small_dt small_strs) = Inr dt"
    by (rule DeviceTree_new_dtb [OF small_dt_len])
  have "(44, 2, DtNode [0x78] [] []) \<in> set (tree_locs 0 0 small_dt)"
    by (simp add: small_dt_locs)
  from dtb_parent [OF small_dt_wf small_dt_len this _ dt] dt show ?thesis by auto
qed

text \<open>
  C17. \<open>children\<close> yields the node's own children first, in order, but does not stop at the end of
  the node: it goes on with every node at the children's depth that starts after it, so it is
  exact precisely when no such node follows.
\<close>

theorem dtb_children:
  assumes "wf_tree t" and "length (dtb t strs) < 2 ^ 32" and "(j, e, u) \<in> set (tree_locs 0 0 t)"
    and "DeviceTree_new (dtb t strs) = Inr dt"
  shows "children dt (node_at j e u) =
    seq_of (map (\<lambda>(k, v). node_at k (e + 1) v) (kid_offs (j + head_len u) (tkids u)) @
      filter (\<lambda>n. nd_depth n = e + 1 \<and> j + tree_len u \<le> nd_start n) (tree_nodes 0 0 t))"
proof -
  have dt: "structs dt = Inr (dt_struct t)"
    using DeviceTree_new_dtb [OF assms(2)] assms(4) by (metis sum.inject(2))
  have "nd_depth (node_at j e u) = e" by (simp add: node_at_def)
  then show ?thesis
    using children_loc [OF assms(1,3)] by (simp add: children_def dt kid_nodes_def later_nodes_def)
qed

theorem dtb_children_witness:
  "\<exists>dt. DeviceTree_new (dtb small_dt small_strs) = Inr dt \<and>
     children dt (node_at 8 1 (DtNode [0x61] [(0, [0, 0, 0, 1])] [])) =
       seq_of [node_at 44 2 (DtNode [0x78] [] [])]"
proof -
  obtain dt where dt: "DeviceTree_new (dtb small_dt small_strs) = Inr dt"
    by (rule DeviceTree_new_dtb [OF small_dt_len])
  let ?a = "DtNode [0x61] [(0, [0, 0, 0, 1])] []"
  have "(8, 1, ?a) \<in> set (tree_locs 0 0 small_dt)" by (simp add: small_dt_locs)
  note c = dtb_children [OF small_dt_wf small_dt_len this dt]
  have "kid_offs (8 + head_len ?a) (tkids ?a) = []" "tree_len ?a = 28" by code_simp+
  then show ?thesis
    using c dt by (simp add: tree_nodes_locs(1) small_dt_locs) (simp add: node_at_def)
qed

text \<open>
  C20. The header check reports exactly what is wrong: \<open>InvalidHeader\<close> when the buffer is shorter
  than the header, otherwise \<open>InvalidMagic\<close> when the first word is not the magic, otherwise
  \<open>BufferTooSmall\<close> when the length, truncated to 32 bits, is not the recorded size.
\<close>

theorem DeviceTree_new_errors:
  "(DeviceTree_new data = Inl InvalidHeader \<longleftrightarrow> length data < 40) \<and>
   (DeviceTree_new data = Inl InvalidMagic \<longleftrightarrow>
      40 \<le> length data \<and> bytes_to_u32_offset data 0 \<noteq> Some 0xd00dfeed) \<and>
   (DeviceTree_new data = Inl BufferTooSmall \<longleftrightarrow>
      40 \<le> length data \<and> bytes_to_u32_offset data 0 = Some 0xd00dfeed \<and>
      bytes_to_u32_offset data 4 \<noteq> Some (word_of_nat (length data)))"
proof -
  have w: "bytes_to_u32_offset data k = None \<longleftrightarrow> length data < k + 4" for k
    by (auto simp: bytes_to_u32_offset_def get_range_def)
  have short: "new_header data = None \<longleftrightarrow> length data < 40"
    by (cases "length data < 40") (auto simp: new_header_def w bind_eq_None_conv split: bind_splits)
  have flds: "new_header data = Some h \<Longrightarrow>
      bytes_to_u32_offset data 0 = Some (magic h) \<and> bytes_to_u32_offset data 4 = Some (totalsize h)" for h
    by (auto simp: new_header_def option_bind_eq_Some)
  show ?thesis
    using short flds by (auto simp: DeviceTree_new_def FdtHeader_new_def split: option.split)
qed


text \<open>
  \<open>find_by_path\<close> can resolve a path that does not exist: in a tree where \<open>/a\<close> has no
  children and \<open>/b\<close> has the child \<open>x\<close>, the path \<open>/a/x\<close> resolves to \<open>/b/x\<close>, because the
  children of \<open>a\<close> run on into those of its siblings.
\<close>

theorem find_by_path_wrong_branch:
  "tkids (DtNode [0x61] [(0, [0, 0, 0, 1])] []) = [] \<and>
   (case DeviceTree_new (dtb small_dt small_strs) of
      Inl _ \<Rightarrow> False
    | Inr dt \<Rightarrow> find_by_path dt (str_bytes ''/a/x'') = Some (Inr (Some (node_at 44 2 (DtNode [0x78] [] [])))))"
  by code_simp

end
