(* ===== verification/Fdt_Regs.thy ===== *)
theory Fdt_Regs
  imports Fdt_Tree
begin

text \<open>
  Registers and address translation of \<^verbatim>\<open>port/src/fdt.rs\<close>: cells, \<open>reg\<close> and \<open>ranges\<close>
  values, and what translating through a range means.
\<close>

section \<open>Cells\<close>

definition enc_cells :: "nat \<Rightarrow> u64 \<Rightarrow> u8 list" where
  "enc_cells n w =
     (if n = 0 then [] else if n = 1 then be32 (ucast w) else be32 (ucast (drop_bit 32 w)) @ be32 (ucast w))"

text \<open>A value fits the cells it is stored in.\<close>

definition fits_cells :: "nat \<Rightarrow> u64 \<Rightarrow> bool" where
  "fits_cells n w \<longleftrightarrow> n = 2 \<or> n = 1 \<and> w < 2 ^ 32"

lemma length_enc_cells: "n \<le> 2 \<Longrightarrow> length (enc_cells n w) = 4 * n"
  by (auto simp: enc_cells_def)

lemma from_be_cells: "from_be_bytes (be32 (ucast (drop_bit 32 w)) @ be32 (ucast w)) = w"
  for w :: u64
proof -
  have step: "push_bit 8 (drop_bit (k + 8) w) OR ucast (ucast (drop_bit k w) :: u8) = drop_bit k w"
    for k :: nat
  proof (rule bit_word_eqI)
    fix n
    assume n: "n < LENGTH(64)"
    show "bit (push_bit 8 (drop_bit (k + 8) w) OR ucast (ucast (drop_bit k w) :: u8)) n = bit (drop_bit k w) n"
    proof (cases "n < 8")
      case False
      then have "k + 8 + (n - 8) = k + n" by simp
      then show ?thesis using False n by (simp add: bit_simps)
    qed (simp add: bit_simps)
  qed
  have bytes: "be32 (ucast (drop_bit 32 w)) @ be32 (ucast w) =
      map (\<lambda>k. ucast (drop_bit k w)) [56, 48, 40, 32, 24, 16, 8, 0 :: nat]"
    by (auto simp: be32_def intro!: bit_word_eqI simp: bit_simps)
  have base: "push_bit 8 0 OR ucast (ucast (drop_bit 56 w) :: u8) = drop_bit 56 w"
    by (rule bit_word_eqI) (auto simp: bit_simps dest: bit_imp_le_length)
  have steps: "push_bit 8 (drop_bit 56 w) OR ucast (ucast (drop_bit 48 w) :: u8) = drop_bit 48 w"
      "push_bit 8 (drop_bit 48 w) OR ucast (ucast (drop_bit 40 w) :: u8) = drop_bit 40 w"
      "push_bit 8 (drop_bit 40 w) OR ucast (ucast (drop_bit 32 w) :: u8) = drop_bit 32 w"
      "push_bit 8 (drop_bit 32 w) OR ucast (ucast (drop_bit 24 w) :: u8) = drop_bit 24 w"
      "push_bit 8 (drop_bit 24 w) OR ucast (ucast (drop_bit 16 w) :: u8) = drop_bit 16 w"
      "push_bit 8 (drop_bit 16 w) OR ucast (ucast (drop_bit 8 w) :: u8) = drop_bit 8 w"
      "push_bit 8 (drop_bit 8 w) OR ucast (ucast (drop_bit 0 w) :: u8) = drop_bit 0 w"
    using step [of 48] step [of 40] step [of 32] step [of 24] step [of 16] step [of 8] step [of 0]
    by simp_all
  show ?thesis
    unfolding bytes from_be_bytes_def by (simp only: list.map foldl.simps base steps) simp
qed

lemma get_range_mid: "k = length mid \<Longrightarrow> get_range (pre @ mid @ post) (length pre) (length pre + k) = Some mid"
  by (simp add: get_range_def)

lemma consume_cells_at:
  assumes "fits_cells n w"
  shows "consume_cells (pre @ enc_cells n w @ post) (length pre) n = Some w"
proof (cases "n = 1")
  case True
  have "w = ucast (ucast w :: u32)"
  proof -
    have "unat w < 2 ^ 32" using assms True by (simp add: fits_cells_def word_less_nat_alt)
    then have "take_bit 32 (unat w) = unat w" by (simp add: take_bit_nat_eq_self)
    then show ?thesis by (simp add: unat_eq_iff unsigned_ucast_eq unsigned_take_bit_eq take_bit_nat_eq_self)
  qed
  then show ?thesis
    using True get_range_mid [of 4 "be32 (ucast w)" pre post]
    by (simp add: consume_cells_def enc_cells_def bytes_to_u32_as_u64_def get_range_def from_be_be32)
next
  case False
  then have n: "n = 2" using assms by (simp add: fits_cells_def)
  then show ?thesis
    using get_range_mid [of 8 "be32 (ucast (drop_bit 32 w)) @ be32 (ucast w)" pre post] from_be_cells [of w]
    by (simp add: consume_cells_def enc_cells_def bytes_to_u64_def get_range_def)
qed

section \<open>Register lists\<close>

definition reg_ok :: "nat \<Rightarrow> nat \<Rightarrow> RegBlock \<Rightarrow> bool" where
  "reg_ok ac sc r \<longleftrightarrow> fits_cells ac (rb_addr r) \<and>
     (case rb_len r of None \<Rightarrow> sc = 0 | Some l \<Rightarrow> fits_cells sc l)"

definition enc_reg :: "nat \<Rightarrow> nat \<Rightarrow> RegBlock \<Rightarrow> u8 list" where
  "enc_reg ac sc r = enc_cells ac (rb_addr r) @ (case rb_len r of None \<Rightarrow> [] | Some l \<Rightarrow> enc_cells sc l)"

lemma length_enc_reg: "reg_ok ac sc r \<Longrightarrow> length (enc_reg ac sc r) = ac * 4 + sc * 4"
  by (auto simp: reg_ok_def enc_reg_def fits_cells_def length_enc_cells split: option.splits)

lemma reg_ok_cells: "reg_ok ac sc r \<Longrightarrow> (ac = 1 \<or> ac = 2) \<and> sc \<le> 2"
  by (auto simp: reg_ok_def fits_cells_def split: option.splits)

lemma reg_items_one:
  assumes "reg_ok ac sc r"
    and "length pre + length (enc_reg ac sc r) \<le> e"
  shows "reg_items (pre @ enc_reg ac sc r @ post) ac sc e (length pre) =
     Item r (reg_items (pre @ enc_reg ac sc r @ post) ac sc e (length pre + length (enc_reg ac sc r)))"
proof -
  let ?s = "pre @ enc_reg ac sc r @ post"
  note c = reg_ok_cells [OF assms(1)] and l = length_enc_reg [OF assms(1)]
  have a: "consume_cells ?s (length pre) ac = Some (rb_addr r)"
    using assms(1) consume_cells_at [of ac "rb_addr r" pre]
    by (simp add: reg_ok_def enc_reg_def)
  have len: "(if sc > 0 then consume_cells ?s (length pre + ac * 4) sc else None) = rb_len r"
  proof (cases "rb_len r")
    case None
    then show ?thesis using assms(1) by (simp add: reg_ok_def)
  next
    case (Some l)
    have "length (pre @ enc_cells ac (rb_addr r)) = length pre + ac * 4"
      using c by (auto simp: length_enc_cells)
    then show ?thesis
      using Some assms(1) consume_cells_at [of sc l "pre @ enc_cells ac (rb_addr r)" post]
      by (auto simp: reg_ok_def enc_reg_def fits_cells_def)
  qed
  have r: "\<lparr>rb_addr = rb_addr r, rb_len = rb_len r\<rparr> = r" by simp
  show ?thesis
    using c assms(2) l a len r
    by (subst reg_items.simps) (auto simp: Let_def add.assoc)
qed

lemma reg_items_enc:
  assumes "\<forall>r \<in> set rs. reg_ok ac sc r" and "ac = 1 \<or> ac = 2" and "sc \<le> 2"
  shows "reg_items (pre @ concat (map (enc_reg ac sc) rs) @ post) ac sc
      (length pre + length (concat (map (enc_reg ac sc) rs))) (length pre) = seq_of rs"
  using assms(1)
proof (induction rs arbitrary: pre)
  case Nil
  then show ?case using assms(2,3) by (subst reg_items.simps) auto
next
  case (Cons r rs)
  let ?tl = "concat (map (enc_reg ac sc) rs)"
  have "reg_items (pre @ enc_reg ac sc r @ ?tl @ post) ac sc
      (length pre + length (enc_reg ac sc r @ ?tl)) (length pre) =
    Item r (reg_items (pre @ enc_reg ac sc r @ ?tl @ post) ac sc
      (length pre + length (enc_reg ac sc r @ ?tl)) (length pre + length (enc_reg ac sc r)))"
    using Cons.prems by (intro reg_items_one) auto
  also have "\<dots> = Item r (seq_of rs)"
    using Cons.IH [of "pre @ enc_reg ac sc r"] Cons.prems by (simp add: add.assoc)
  finally show ?case by simp
qed

text \<open>
  C21. The register list a node carries is read back exactly: for one or two address cells and at
  most two size cells, decoding the big-endian cells of a list of blocks yields those blocks in
  order, with a length exactly when there are size cells, and then ends.
\<close>

theorem reg_items_roundtrip:
  assumes "list_all (reg_ok ac sc) rs" and "ac = 1 \<or> ac = 2" and "sc \<le> 2"
  shows "reg_items (pre @ concat (map (enc_reg ac sc) rs) @ post) ac sc
      (length pre + length (concat (map (enc_reg ac sc) rs))) (length pre) = seq_of rs"
  using assms by (intro reg_items_enc) (auto simp: list_all_iff)

theorem reg_items_roundtrip_witness:
  "reg_items ([0xaa] @ concat (map (enc_reg 2 1) [\<lparr>rb_addr = 0x100000000, rb_len = Some 0x1000\<rparr>]) @ [0xbb]) 2 1 13 1 =
     Item \<lparr>rb_addr = 0x100000000, rb_len = Some 0x1000\<rparr> Done"
proof -
  let ?r = "\<lparr>rb_addr = 0x100000000, rb_len = Some 0x1000\<rparr>"
  have ok: "list_all (reg_ok 2 1) [?r]" by (simp add: reg_ok_def fits_cells_def)
  then have "length (enc_reg 2 1 ?r) = 12" using length_enc_reg [of 2 1 ?r] by simp
  then show ?thesis using reg_items_roundtrip [OF ok, of "[0xaa]" "[0xbb]"] by simp
qed

section \<open>Translation\<close>

text \<open>
  C22. Translation through a range whose child and parent windows end below the top of the address
  space: a block that starts in the child window moves to the same place in the parent window and
  keeps its length, any other block is not mapped, and the identity range maps every block to
  itself.
\<close>

theorem Range_translate_exact:
  assumes "unat (child_bus_addr m) + unat (rm_len m) < 2 ^ 64"
    and "unat (parent_bus_addr m) + unat (rm_len m) \<le> 2 ^ 64"
  shows "Range_translate Identity r = Inr (Some r) \<and>
    (if child_bus_addr m \<le> rb_addr r \<and> unat (rb_addr r) < unat (child_bus_addr m) + unat (rm_len m)
     then \<exists>r'. Range_translate (Range_Translated m) r = Inr (Some r') \<and> rb_len r' = rb_len r \<and>
       unat (rb_addr r') = unat (parent_bus_addr m) + (unat (rb_addr r) - unat (child_bus_addr m))
     else Range_translate (Range_Translated m) r = Inr None)"
proof -
  let ?c = "child_bus_addr m" and ?p = "parent_bus_addr m" and ?a = "rb_addr r"
  have e: "add_c ?c (rm_len m) = Inr (?c + rm_len m)" "unat (?c + rm_len m) = unat ?c + unat (rm_len m)"
    using add_c_usize [OF assms(1)] unat_add_usize [OF assms(1)] .
  have "add_c (?a - ?c) ?p = Inr (?a - ?c + ?p) \<and> unat (?a - ?c + ?p) = unat ?p + (unat ?a - unat ?c)"
    if "?c \<le> ?a" "unat ?a < unat ?c + unat (rm_len m)"
  proof -
    have d: "unat (?a - ?c) = unat ?a - unat ?c" by (rule unat_sub [OF that(1)])
    then have "unat (?a - ?c) + unat ?p < 2 ^ 64" using that assms(2) unfolding word_le_nat_alt by linarith
    then show ?thesis using add_c_usize unat_add_usize d by (metis add.commute)
  qed
  then show ?thesis by (auto simp: e sub_c_def word_less_nat_alt)
qed

theorem Range_translate_exact_witness:
  "\<exists>r'. Range_translate (Range_Translated \<lparr>child_bus_addr = 0x7e000000, parent_bus_addr = 0x3f000000, rm_len = 0x1000000\<rparr>)
      \<lparr>rb_addr = 0x7e201000, rb_len = Some 0x200\<rparr> = Inr (Some r') \<and> unat (rb_addr r') = 0x3f201000"
  using Range_translate_exact [of "\<lparr>child_bus_addr = 0x7e000000, parent_bus_addr = 0x3f000000, rm_len = 0x1000000\<rparr>"
      "\<lparr>rb_addr = 0x7e201000, rb_len = Some 0x200\<rparr>"] by auto

text \<open>
  A range whose child window ends exactly at the top of the address space, which is a legal
  range, makes every translation of a block at or above its start panic on the computation of
  the window's end.
\<close>

theorem Range_translate_top_panics:
  assumes "unat (child_bus_addr m) + unat (rm_len m) = 2 ^ 64" and "child_bus_addr m \<le> rb_addr r"
  shows "Range_translate (Range_Translated m) r = Inl Arith_Overflow"
  using assms by (simp add: add_c_alt)

theorem Range_translate_top_panics_witness:
  "Range_translate (Range_Translated \<lparr>child_bus_addr = 0xfffffffff0000000, parent_bus_addr = 0, rm_len = 0x10000000\<rparr>)
     \<lparr>rb_addr = 0xfffffffff0000000, rb_len = None\<rparr> = Inl Arith_Overflow"
  by (rule Range_translate_top_panics) simp_all

end
