(* ===== verification/Mcs_Lock.thy ===== *)
theory Mcs_Lock
  imports R9_Prelude
begin

text \<open>
  Model of \<^verbatim>\<open>port/src/mcslock.rs\<close>: the MCS queue lock and the data it guards.

  A thread is named by the \<open>LockNode\<close> it passes to \<open>lock\<close>, which it owns until the guard is
  dropped.  Each atomic operation of the source is one step, and a thread's program counter says
  which one it performs next; the interleaving of the steps of all threads is the step relation.
  The atomics are taken as sequentially consistent.  \<open>compare_exchange_weak\<close> may fail although
  the expected value is there; whether it does on the hardware is the parameter \<open>weak\<close>.
\<close>

section \<open>State\<close>

type_synonym lock_node = nat

datatype pc =
    Idle
  | Lock_Clear_Locked
  | Lock_Swap
  | Lock_Set_Locked lock_node
  | Lock_Link lock_node
  | Lock_Spin
  | Held
  | Unlock_Cas
  | Unlock_Spin
  | Unlock_Load
  | Unlock_Grant lock_node

record 'd mcs =
  queue :: "lock_node option"
  next_node :: "lock_node \<Rightarrow> lock_node option"
  locked :: "lock_node \<Rightarrow> bool"
  pcs :: "lock_node \<Rightarrow> pc"
  data :: 'd

definition LockNode_new :: "lock_node option \<times> bool" where
  "LockNode_new = (None, False)"

definition Lock_new :: "'d \<Rightarrow> 'd mcs" where
  "Lock_new d = \<lparr>queue = None, next_node = (\<lambda>_. fst LockNode_new), locked = (\<lambda>_. snd LockNode_new),
     pcs = (\<lambda>_. Idle), data = d\<rparr>"

definition goto :: "lock_node \<Rightarrow> pc \<Rightarrow> 'd mcs \<Rightarrow> 'd mcs" where
  "goto n p s = s\<lparr>pcs := (pcs s)(n := p)\<rparr>"

section \<open>Operations\<close>

text \<open>\<open>MCSLock::lock\<close>, one atomic operation at a time; in the other states the thread is not in it.\<close>

definition lock_step :: "lock_node \<Rightarrow> 'd mcs \<Rightarrow> 'd mcs" where
  "lock_step n s =
     (case pcs s n of
        Idle \<Rightarrow> goto n Lock_Clear_Locked (s\<lparr>next_node := (next_node s)(n := None)\<rparr>)
      | Lock_Clear_Locked \<Rightarrow> goto n Lock_Swap (s\<lparr>locked := (locked s)(n := False)\<rparr>)
      | Lock_Swap \<Rightarrow>
          (let predecessor = queue s
           in goto n (case predecessor of None \<Rightarrow> Held | Some p \<Rightarrow> Lock_Set_Locked p)
                (s\<lparr>queue := Some n\<rparr>))
      | Lock_Set_Locked p \<Rightarrow> goto n (Lock_Link p) (s\<lparr>locked := (locked s)(n := True)\<rparr>)
      | Lock_Link p \<Rightarrow> goto n Lock_Spin (s\<lparr>next_node := (next_node s)(p := Some n)\<rparr>)
      | Lock_Spin \<Rightarrow> if locked s n then s else goto n Held s
      | _ \<Rightarrow> s)"

text \<open>\<open>MCSLock::unlock\<close>, called when the guard is dropped.  The compare-and-exchange succeeds here
  whenever the queue still points to the caller.\<close>

definition unlock_step :: "lock_node \<Rightarrow> 'd mcs \<Rightarrow> 'd mcs" where
  "unlock_step n s =
     (case pcs s n of
        Held \<Rightarrow> goto n (if next_node s n = None then Unlock_Cas else Unlock_Load) s
      | Unlock_Cas \<Rightarrow>
          if queue s = Some n then goto n Idle (s\<lparr>queue := None\<rparr>) else goto n Unlock_Spin s
      | Unlock_Spin \<Rightarrow> if next_node s n = None then s else goto n Unlock_Load s
      | Unlock_Load \<Rightarrow> (case next_node s n of None \<Rightarrow> s | Some m \<Rightarrow> goto n (Unlock_Grant m) s)
      | Unlock_Grant m \<Rightarrow> goto n Idle (s\<lparr>locked := (locked s)(m := False)\<rparr>)
      | _ \<Rightarrow> s)"

text \<open>A failed exchange that changed nothing, and an update through \<open>LockGuard::deref_mut\<close>.\<close>

definition cas_spurious :: "lock_node \<Rightarrow> 'd mcs \<Rightarrow> 'd mcs" where
  "cas_spurious n s = (if pcs s n = Unlock_Cas then goto n Unlock_Spin s else s)"

definition guard_update :: "lock_node \<Rightarrow> ('d \<Rightarrow> 'd) \<Rightarrow> 'd mcs \<Rightarrow> 'd mcs" where
  "guard_update n f s = (if pcs s n = Held then s\<lparr>data := f (data s)\<rparr> else s)"

inductive mcs_step :: "bool \<Rightarrow> 'd mcs \<Rightarrow> 'd mcs \<Rightarrow> bool" for weak where
  lock: "mcs_step weak s (lock_step n s)"
| unlock: "mcs_step weak s (unlock_step n s)"
| spurious: "weak \<Longrightarrow> mcs_step weak s (cas_spurious n s)"
| update: "mcs_step weak s (guard_update n f s)"

inductive reachable :: "bool \<Rightarrow> 'd mcs \<Rightarrow> bool" for weak where
  init: "reachable weak (Lock_new d)"
| step: "reachable weak s \<Longrightarrow> mcs_step weak s s' \<Longrightarrow> reachable weak s'"

inductive_cases mcs_stepE: "mcs_step weak s s'"

section \<open>The queue behind the pointers\<close>

text \<open>
  The nodes in the order of their swaps.  The first holds the lock or has been granted it; each
  other one waits behind its predecessor, whose \<open>next\<close> pointer leads to it as soon as it has
  linked itself.
\<close>

definition waits :: "'d mcs \<Rightarrow> lock_node \<Rightarrow> lock_node \<Rightarrow> bool" where
  "waits s p n \<longleftrightarrow>
     pcs s n = Lock_Set_Locked p \<and> next_node s p = None \<or>
     pcs s n = Lock_Link p \<and> locked s n \<and> next_node s p = None \<or>
     pcs s n = Lock_Spin \<and> locked s n \<and> next_node s p = Some n"

fun chain :: "'d mcs \<Rightarrow> lock_node \<Rightarrow> lock_node list \<Rightarrow> bool" where
  "chain s p [] \<longleftrightarrow> next_node s p = None"
| "chain s p (n # ns) \<longleftrightarrow> waits s p n \<and> chain s n ns"

definition holds :: "'d mcs \<Rightarrow> lock_node \<Rightarrow> bool" where
  "holds s n \<longleftrightarrow>
     (case pcs s n of Held \<Rightarrow> True | Unlock_Cas \<Rightarrow> True | Unlock_Spin \<Rightarrow> True | Unlock_Load \<Rightarrow> True
      | Unlock_Grant _ \<Rightarrow> True | _ \<Rightarrow> False)"

definition head_ok :: "'d mcs \<Rightarrow> lock_node \<Rightarrow> bool" where
  "head_ok s h \<longleftrightarrow>
     (case pcs s h of
        Lock_Spin \<Rightarrow> \<not> locked s h
      | Held \<Rightarrow> True | Unlock_Cas \<Rightarrow> True | Unlock_Spin \<Rightarrow> True
      | Unlock_Load \<Rightarrow> next_node s h \<noteq> None
      | Unlock_Grant m \<Rightarrow> next_node s h = Some m
      | _ \<Rightarrow> False)"

definition outside :: "'d mcs \<Rightarrow> lock_node \<Rightarrow> bool" where
  "outside s n \<longleftrightarrow> pcs s n = Idle \<or> (pcs s n = Lock_Clear_Locked \<or> pcs s n = Lock_Swap) \<and> next_node s n = None"

definition mcs_inv :: "lock_node list \<Rightarrow> 'd mcs \<Rightarrow> bool" where
  "mcs_inv q s \<longleftrightarrow> distinct q \<and> queue s = (if q = [] then None else Some (last q)) \<and>
     (\<forall>n. n \<notin> set q \<longrightarrow> outside s n) \<and>
     (case q of [] \<Rightarrow> True | h # ns \<Rightarrow> head_ok s h \<and> chain s h ns)"

lemma chain_cong:
  assumes "\<And>n. n \<in> set ns \<Longrightarrow> pcs s n = pcs s' n \<and> locked s n = locked s' n"
    and "\<And>n. n \<in> set (p # ns) \<Longrightarrow> next_node s n = next_node s' n"
  shows "chain s p ns = chain s' p ns"
  using assms by (induction ns arbitrary: p) (simp_all add: waits_def)

lemma chain_waiting: "chain s p ns \<Longrightarrow> n \<in> set ns \<Longrightarrow>
    (\<exists>p. pcs s n = Lock_Set_Locked p \<or> pcs s n = Lock_Link p) \<or> pcs s n = Lock_Spin \<and> locked s n"
  by (induction ns arbitrary: p) (auto simp: waits_def)

lemma chain_pred: "chain s p ns \<Longrightarrow> n \<in> set ns \<Longrightarrow> \<exists>x \<in> set (p # ns). waits s x n"
  by (induction ns arbitrary: p) auto

lemma goto_sel [simp]:
  "pcs (goto n p s) = (pcs s)(n := p)" "queue (goto n p s) = queue s"
  "next_node (goto n p s) = next_node s" "locked (goto n p s) = locked s" "data (goto n p s) = data s"
  by (simp_all add: goto_def)

lemma mcs_inv_Cons:
  "mcs_inv (h # ns) s \<longleftrightarrow> distinct (h # ns) \<and> queue s = Some (last (h # ns)) \<and>
     (\<forall>n. n \<notin> set (h # ns) \<longrightarrow> outside s n) \<and> head_ok s h \<and> chain s h ns"
  by (simp add: mcs_inv_def)

lemma member_pc:
  assumes "mcs_inv q s" and "pcs s n = Idle \<or> pcs s n = Lock_Clear_Locked \<or> pcs s n = Lock_Swap"
  shows "n \<notin> set q"
proof (cases q)
  case (Cons h ns)
  then show ?thesis
    using assms chain_waiting [of s h ns n] by (auto simp: mcs_inv_Cons head_ok_def)
qed simp

lemma nonmember_pc:
  assumes "mcs_inv q s" and "pcs s n \<noteq> Idle" and "pcs s n \<noteq> Lock_Clear_Locked" and "pcs s n \<noteq> Lock_Swap"
  shows "n \<in> set q"
  using assms by (auto simp: mcs_inv_def outside_def)

text \<open>A waiter is never first, and a thread past its waiting is.\<close>

lemma waiter_tail:
  assumes "mcs_inv q s" and "pcs s n = Lock_Set_Locked p \<or> pcs s n = Lock_Link p \<or> pcs s n = Lock_Spin \<and> locked s n"
  obtains h ns where "q = h # ns" and "n \<in> set ns" and "n \<noteq> h"
proof -
  have "n \<in> set q" using nonmember_pc [OF assms(1)] assms(2) by auto
  then obtain h ns where q: "q = h # ns" by (cases q) auto
  then have "n \<noteq> h" using assms by (auto simp: mcs_inv_Cons head_ok_def)
  then show thesis using that q \<open>n \<in> set q\<close> by simp
qed

lemma holder_head:
  assumes "mcs_inv q s" and "holds s n \<or> pcs s n = Lock_Spin \<and> \<not> locked s n"
  obtains ns where "q = n # ns"
proof -
  have "n \<in> set q" using nonmember_pc [OF assms(1), of n] assms(2) by (cases "pcs s n") (auto simp: holds_def)
  then obtain h ns where q: "q = h # ns" by (cases q) auto
  have "n \<notin> set ns"
    using assms q chain_waiting [of s h ns n] by (cases "pcs s n") (auto simp: mcs_inv_Cons holds_def)
  then have "n = h" using \<open>n \<in> set q\<close> q by simp
  then show thesis using that q by simp
qed

section \<open>Every step keeps the queue\<close>

definition same :: "'d mcs \<Rightarrow> 'd mcs \<Rightarrow> lock_node \<Rightarrow> bool" where
  "same s s' m \<longleftrightarrow> pcs s' m = pcs s m \<and> locked s' m = locked s m \<and> next_node s' m = next_node s m"

lemma same_preds:
  "same s s' m \<Longrightarrow> head_ok s' m = head_ok s m" "same s s' m \<Longrightarrow> outside s' m = outside s m"
  "same s s' p \<Longrightarrow> same s s' m \<Longrightarrow> waits s' p m = waits s p m"
  by (simp_all add: same_def head_ok_def outside_def waits_def split: pc.split)

lemma chain_same: "\<forall>m \<in> set (p # ns). same s s' m \<Longrightarrow> chain s' p ns = chain s p ns"
  by (intro chain_cong) (auto simp: same_def)

lemma inv_outsider:
  assumes "mcs_inv q s" and "n \<notin> set q" and "queue s' = queue s"
    and "\<forall>m. m \<noteq> n \<longrightarrow> same s s' m" and "outside s' n"
  shows "mcs_inv q s'"
proof (cases q)
  case (Cons h ns)
  have "chain s' h ns = chain s h ns" using assms(2,4) Cons by (intro chain_same) auto
  moreover have "head_ok s' h = head_ok s h" using assms(2,4) Cons by (intro same_preds) auto
  moreover have "outside s' m" if "m \<notin> set q" for m
  proof (cases "m = n")
    case False
    then have "outside s m" using that assms(1) by (simp add: mcs_inv_def)
    then show ?thesis using False assms(4) same_preds(2) by blast
  qed (use assms(5) in simp)
  ultimately show ?thesis using assms(1,3) Cons by (simp add: mcs_inv_Cons)
next
  case Nil
  have "outside s' m" for m
  proof (cases "m = n")
    case False
    then have "outside s m" using Nil assms(1) by (simp add: mcs_inv_def)
    then show ?thesis using False assms(4) same_preds(2) by blast
  qed (use assms(5) in simp)
  then show ?thesis using assms(1,3) Nil by (simp add: mcs_inv_def)
qed

lemma chain_snoc:
  assumes "chain s p ns" and "distinct (p # ns @ [n])" and "pcs s' n = Lock_Set_Locked (last (p # ns))"
    and "next_node s' n = None"
    and "\<forall>m. m \<noteq> n \<longrightarrow> same s s' m"
  shows "chain s' p (ns @ [n])"
  using assms(1-3)
proof (induction ns arbitrary: p)
  case Nil
  then show ?case using assms(4,5) by (simp add: waits_def same_def)
next
  case (Cons m ns)
  have "waits s' p m" using Cons.prems assms(5) same_preds(3) by fastforce
  then show ?case using Cons by simp
qed

lemma inv_swap:
  assumes inv: "mcs_inv q s" and pc: "pcs s n = Lock_Swap"
  shows "mcs_inv (q @ [n]) (lock_step n s)"
proof -
  let ?s = "lock_step n s"
  have n: "n \<notin> set q" using member_pc [OF inv] pc by blast
  have nx: "next_node s n = None" using inv pc n by (auto simp: mcs_inv_def outside_def)
  have fr: "\<forall>m. m \<noteq> n \<longrightarrow> same s ?s m"
      "queue ?s = Some n" "next_node ?s n = None"
      "pcs ?s n = (case queue s of None \<Rightarrow> Held | Some p \<Rightarrow> Lock_Set_Locked p)"
    using pc nx by (simp_all add: lock_step_def Let_def same_def)
  have out: "\<And>m. m \<notin> set (q @ [n]) \<Longrightarrow> outside ?s m"
    using inv fr(1) same_preds(2) by (fastforce simp: mcs_inv_def)
  show ?thesis
  proof (cases q)
    case Nil
    then have "queue s = None" using inv by (simp add: mcs_inv_def)
    then show ?thesis using Nil fr out by (simp add: mcs_inv_def head_ok_def)
  next
    case (Cons h ns)
    then have qs: "queue s = Some (last (h # ns))" and ch: "chain s h ns" and d: "distinct (h # ns @ [n])"
      using inv n by (auto simp: mcs_inv_Cons)
    have "chain ?s h (ns @ [n])"
      using fr qs by (intro chain_snoc [OF ch d]) simp_all
    moreover have "head_ok ?s h" using inv Cons fr(1) same_preds(1) [of s ?s h] n by (auto simp: mcs_inv_Cons)
    ultimately show ?thesis using Cons fr(2) out d by (simp add: mcs_inv_Cons)
  qed
qed

text \<open>A waiter that sets its flag or links itself.\<close>

lemma chain_waiter:
  assumes "chain s p ns" and "distinct (p # ns)" and "n \<in> set ns"
    and "pcs s n = Lock_Set_Locked r \<or> pcs s n = Lock_Link r"
  shows "chain (lock_step n s) p ns"
  using assms
proof (induction ns arbitrary: p)
  case (Cons m ns)
  let ?s = "lock_step n s"
  show ?case
  proof (cases "m = n")
    case True
    then have w: "waits s p n" and n: "n \<notin> set ns" and ch: "chain s n ns" using Cons.prems by auto
    have pn: "p \<noteq> n" "p \<notin> set ns" using Cons.prems(2) True by auto
    have r: "r = p" using w Cons.prems(4) by (auto simp: waits_def)
    have "chain ?s n ns = chain s n ns"
      using n pn Cons.prems(4) r by (intro chain_cong) (auto simp: lock_step_def split: if_splits)
    moreover have "waits ?s p n"
      using w Cons.prems(4) r by (auto simp: waits_def lock_step_def)
    ultimately show ?thesis using ch True by simp
  next
    case False
    then have "chain ?s m ns" using Cons by auto
    moreover have "waits s p m" using Cons.prems(1) by simp
    moreover obtain x where "x \<in> set (m # ns)" "waits s x n"
      using chain_pred [of s m ns n] Cons.prems(1,3) False by auto
    then have "r \<in> set (m # ns)" using Cons.prems(4) by (auto simp: waits_def)
    then have "r \<noteq> p" using Cons.prems(2) by auto
    ultimately show ?thesis
      using False Cons.prems(4) by (auto simp: waits_def lock_step_def)
  qed
qed simp

lemma inv_waiter:
  assumes inv: "mcs_inv q s" and pc: "pcs s n = Lock_Set_Locked r \<or> pcs s n = Lock_Link r"
  shows "mcs_inv q (lock_step n s)"
proof -
  let ?s = "lock_step n s"
  obtain h ns where q: "q = h # ns" "n \<in> set ns" "n \<noteq> h"
    using waiter_tail [OF inv, of n r] pc by blast
  have ch: "chain s h ns" and d: "distinct (h # ns)" and hd: "head_ok s h"
    using inv q by (simp_all add: mcs_inv_Cons)
  obtain x where "x \<in> set q" "waits s x n" using chain_pred [OF ch q(2)] q(1) by auto
  then have r: "r \<in> set q" "next_node s r = None" using pc by (auto simp: waits_def)
  have "chain ?s h ns" by (rule chain_waiter [OF ch d q(2) pc])
  moreover have "head_ok ?s h"
    using hd pc q(3) r(2) by (auto simp: head_ok_def lock_step_def split: pc.splits)
  moreover have "outside ?s m" if "m \<notin> set q" for m
  proof -
    have "same s ?s m" using that q pc r(1) by (auto simp: same_def lock_step_def split: if_splits)
    moreover have "outside s m" using inv that by (simp add: mcs_inv_def)
    ultimately show ?thesis using same_preds(2) by blast
  qed
  moreover have "queue ?s = queue s" using pc by (auto simp: lock_step_def)
  ultimately show ?thesis using inv q by (simp add: mcs_inv_Cons)
qed

text \<open>A step of the first node that only moves its program counter.\<close>

lemma inv_head_goto:
  assumes inv: "mcs_inv (n # ns) s" and "head_ok (goto n p s) n"
  shows "mcs_inv (n # ns) (goto n p s)"
proof -
  have "chain (goto n p s) n ns = chain s n ns"
    using inv by (intro chain_cong) (auto simp: mcs_inv_Cons)
  then show ?thesis using assms by (auto simp: mcs_inv_Cons outside_def)
qed

lemma lock_step_inv:
  assumes inv: "mcs_inv q s"
  shows "mcs_inv (if pcs s n = Lock_Swap then q @ [n] else q) (lock_step n s)"
proof (cases "pcs s n")
  case Idle
  then have "n \<notin> set q" using member_pc [OF inv] by blast
  then have "mcs_inv q (lock_step n s)"
    using Idle by (intro inv_outsider [OF inv]) (auto simp: lock_step_def same_def outside_def)
  then show ?thesis using Idle by simp
next
  case Lock_Clear_Locked
  then have "n \<notin> set q" using member_pc [OF inv] by blast
  moreover have "next_node s n = None"
    using inv Lock_Clear_Locked calculation by (auto simp: mcs_inv_def outside_def)
  ultimately have "mcs_inv q (lock_step n s)"
    using Lock_Clear_Locked
    by (intro inv_outsider [OF inv]) (auto simp: lock_step_def same_def outside_def)
  then show ?thesis using Lock_Clear_Locked by simp
next
  case Lock_Swap
  then show ?thesis using inv_swap [OF inv] by simp
next
  case (Lock_Set_Locked r)
  then show ?thesis using inv_waiter [OF inv, of n r] by simp
next
  case (Lock_Link r)
  then show ?thesis using inv_waiter [OF inv, of n r] by simp
next
  case Lock_Spin
  show ?thesis
  proof (cases "locked s n")
    case True
    then show ?thesis using Lock_Spin inv by (simp add: lock_step_def)
  next
    case False
    then obtain ns where "q = n # ns" using holder_head [OF inv, of n] Lock_Spin by blast
    then show ?thesis
      using False Lock_Spin inv by (simp add: lock_step_def inv_head_goto head_ok_def)
  qed
qed (use inv in \<open>simp_all add: lock_step_def\<close>)

definition releases :: "lock_node \<Rightarrow> 'd mcs \<Rightarrow> bool" where
  "releases n s \<longleftrightarrow> pcs s n = Unlock_Cas \<and> queue s = Some n \<or> (\<exists>m. pcs s n = Unlock_Grant m)"

lemma inv_grant:
  assumes inv: "mcs_inv q s" and pc: "pcs s n = Unlock_Grant m"
  obtains ns where "q = n # m # ns" and "mcs_inv (m # ns) (unlock_step n s)"
proof -
  let ?s = "unlock_step n s"
  obtain ms where q: "q = n # ms" using holder_head [OF inv, of n] pc by (auto simp: holds_def)
  have nx: "next_node s n = Some m" and ch: "chain s n ms"
    using inv pc by (simp_all add: q mcs_inv_Cons head_ok_def)
  obtain ns where ms: "ms = m # ns" and w: "pcs s m = Lock_Spin"
    using ch nx by (cases ms) (auto simp: waits_def)
  have d: "distinct (n # m # ns)" using inv by (simp add: q ms mcs_inv_Cons)
  have "chain ?s m ns = chain s m ns"
    using d pc by (intro chain_cong) (auto simp: unlock_step_def)
  moreover have "outside ?s k" if "k \<notin> set (m # ns)" for k
  proof (cases "k = n")
    case False
    then have "same s ?s k" "outside s k"
      using that inv pc by (auto simp: q ms mcs_inv_def unlock_step_def same_def)
    then show ?thesis using same_preds(2) by blast
  qed (use pc in \<open>simp add: unlock_step_def outside_def\<close>)
  moreover have "head_ok ?s m" using w d pc by (simp add: unlock_step_def head_ok_def)
  ultimately have "mcs_inv (m # ns) ?s"
    using inv ch d pc by (simp add: q ms mcs_inv_Cons unlock_step_def)
  then show thesis using that q ms by blast
qed

lemma unlock_step_inv:
  assumes inv: "mcs_inv q s"
  shows "mcs_inv (if releases n s then tl q else q) (unlock_step n s) \<and> (releases n s \<longrightarrow> q \<noteq> [] \<and> hd q = n)"
proof (cases "holds s n")
  case False
  then have "unlock_step n s = s" "\<not> releases n s"
    by (auto simp: holds_def unlock_step_def releases_def split: pc.splits)
  then show ?thesis using inv by simp
next
  case True
  then obtain ns where q: "q = n # ns" using holder_head [OF inv] by blast
  have hd: "head_ok s n" and ch: "chain s n ns" using inv by (simp_all add: q mcs_inv_Cons)
  show ?thesis
  proof (cases "pcs s n")
    case Held
    then show ?thesis
      using inv q by (simp add: unlock_step_def releases_def inv_head_goto head_ok_def)
  next
    case Unlock_Cas
    show ?thesis
    proof (cases "queue s = Some n")
      case True
      then have "ns = []" using inv by (cases ns) (auto simp: q mcs_inv_Cons split: if_splits)
      moreover have "outside (unlock_step n s) k" for k
        using inv Unlock_Cas True calculation
        by (auto simp: q mcs_inv_def unlock_step_def outside_def)
      ultimately show ?thesis
        using True Unlock_Cas q by (simp add: unlock_step_def releases_def mcs_inv_def)
    next
      case False
      then show ?thesis
        using inv q Unlock_Cas by (simp add: unlock_step_def releases_def inv_head_goto head_ok_def)
    qed
  next
    case Unlock_Spin
    then show ?thesis
      using inv q by (simp add: unlock_step_def releases_def inv_head_goto head_ok_def)
  next
    case Unlock_Load
    then obtain m where "next_node s n = Some m" using hd by (auto simp: head_ok_def)
    then show ?thesis
      using inv q Unlock_Load by (simp add: unlock_step_def releases_def inv_head_goto head_ok_def)
  next
    case (Unlock_Grant m)
    obtain ns' where "q = n # m # ns'" "mcs_inv (m # ns') (unlock_step n s)"
      by (rule inv_grant [OF inv Unlock_Grant])
    then show ?thesis using Unlock_Grant by (simp add: releases_def)
  qed (use True in \<open>simp_all add: holds_def\<close>)
qed

lemma cas_spurious_inv:
  assumes inv: "mcs_inv q s"
  shows "mcs_inv q (cas_spurious n s)"
proof (cases "pcs s n = Unlock_Cas")
  case True
  then obtain ns where "q = n # ns" using holder_head [OF inv, of n] by (auto simp: holds_def)
  then show ?thesis using inv True by (simp add: cas_spurious_def inv_head_goto head_ok_def)
qed (use inv in \<open>simp add: cas_spurious_def\<close>)

lemma guard_update_inv: "mcs_inv q s \<Longrightarrow> mcs_inv q (guard_update n f s)"
proof -
  assume inv: "mcs_inv q s"
  let ?s = "guard_update n f s"
  have sm: "same s ?s m" for m by (simp add: same_def guard_update_def)
  have "head_ok ?s m = head_ok s m" "outside ?s m = outside s m" for m
    by (rule same_preds [OF sm])+
  moreover have "chain ?s p ns = chain s p ns" for p ns by (rule chain_same) (simp add: sm)
  moreover have "queue ?s = queue s" by (simp add: guard_update_def)
  ultimately show ?thesis using inv by (simp only: mcs_inv_def) simp
qed

section \<open>The contract of a queue lock\<close>

text \<open>
  The abstract lock is the list of the threads that hold it or wait for it: a thread enters at
  the end, only the first holds, and only the first leaves.
\<close>

inductive q_step :: "'n list \<Rightarrow> 'n list \<Rightarrow> bool" where
  stay: "q_step q q"
| enter: "n \<notin> set q \<Longrightarrow> q_step q (q @ [n])"
| leave: "q_step (n # q) q"

inductive_simps q_step_iff: "q_step q q'"

definition ahead :: "'n \<Rightarrow> 'n \<Rightarrow> 'n list \<Rightarrow> bool" where
  "ahead a b q \<longleftrightarrow> (\<exists>xs ys zs. q = xs @ a # ys @ b # zs)"

lemma q_step_ahead:
  assumes "ahead a b q" and "q_step q q'"
  shows "ahead a b q' \<or> (\<exists>r. q = a # r \<and> q' = r)"
proof -
  obtain xs ys zs where q: "q = xs @ a # ys @ b # zs" using assms(1) by (auto simp: ahead_def)
  show ?thesis
    using assms(2)
  proof cases
    case stay
    then show ?thesis using assms(1) by simp
  next
    case (enter n)
    then have "q' = xs @ a # ys @ b # (zs @ [n])" using q by simp
    then show ?thesis unfolding ahead_def by blast
  next
    case (leave n)
    then show ?thesis using q unfolding ahead_def by (cases xs) auto
  qed
qed

locale queue_lock =
  fixes step :: "'s \<Rightarrow> 's \<Rightarrow> bool" and start :: "'s \<Rightarrow> bool" and rel :: "'n list \<Rightarrow> 's \<Rightarrow> bool"
    and owner :: "'s \<Rightarrow> 'n \<Rightarrow> bool"
  assumes rel_start: "start s \<Longrightarrow> rel [] s"
    and rel_step: "rel q s \<Longrightarrow> step s s' \<Longrightarrow> \<exists>q'. rel q' s' \<and> q_step q q'"
    and rel_distinct: "rel q s \<Longrightarrow> distinct q"
    and owner_first: "rel q s \<Longrightarrow> owner s n \<Longrightarrow> \<exists>r. q = n # r"
begin

lemma exclusive: "rel q s \<Longrightarrow> owner s n \<Longrightarrow> owner s m \<Longrightarrow> n = m"
  by (metis owner_first list.inject)

lemma no_overtaking: "rel q s \<Longrightarrow> ahead a b q \<Longrightarrow> \<not> owner s b"
proof
  assume "rel q s" and "ahead a b q" and "owner s b"
  then obtain r where "q = b # r" "distinct (b # r)" using owner_first rel_distinct by metis
  then show False using \<open>ahead a b q\<close> unfolding ahead_def by (auto simp: Cons_eq_append_conv)
qed

lemma order_kept:
  "rel q s \<Longrightarrow> ahead a b q \<Longrightarrow> step s s' \<Longrightarrow> \<exists>q'. rel q' s' \<and> (ahead a b q' \<or> (\<exists>r. q = a # r \<and> q' = r))"
  using rel_step q_step_ahead by metis

end

lemma mcs_step_refines:
  assumes inv: "mcs_inv q s" and "mcs_step weak s s'"
  shows "\<exists>q'. mcs_inv q' s' \<and> q_step q q' \<and>
    (q' \<noteq> q \<longrightarrow> (\<exists>n. pcs s n = Lock_Swap \<and> q' = q @ [n]) \<or> (\<exists>n. releases n s \<and> q = n # q'))"
  using assms(2)
proof cases
  case (lock n)
  have "n \<notin> set q" if "pcs s n = Lock_Swap" using member_pc [OF inv] that by blast
  then show ?thesis
    using lock_step_inv [OF inv, of n] lock
    by (cases "pcs s n = Lock_Swap") (auto intro: q_step.intros)
next
  case (unlock n)
  show ?thesis
  proof (cases "releases n s")
    case True
    then have "q = n # tl q" using unlock_step_inv [OF inv, of n] by (metis list.collapse)
    then show ?thesis
      using unlock_step_inv [OF inv, of n] unlock True by (metis q_step.leave)
  next
    case False
    then show ?thesis
      using unlock_step_inv [OF inv, of n] unlock by (auto intro: q_step.stay)
  qed
next
  case (spurious n)
  then show ?thesis using cas_spurious_inv [OF inv] q_step.stay by blast
next
  case (update n f)
  then show ?thesis using guard_update_inv [OF inv] q_step.stay by blast
qed

interpretation mcs: queue_lock "mcs_step weak" "\<lambda>s. \<exists>d. s = Lock_new d" mcs_inv holds for weak
proof (unfold_locales, goal_cases)
  case (1 s)
  then show ?case by (auto simp: mcs_inv_def Lock_new_def outside_def)
next
  case (2 q s s')
  then show ?case using mcs_step_refines by blast
next
  case (3 q s)
  then show ?case by (simp add: mcs_inv_def)
next
  case (4 q s n)
  then show ?case using holder_head by metis
qed

lemma reachable_rel: "reachable weak s \<Longrightarrow> \<exists>q. mcs_inv q s"
proof (induction rule: reachable.induct)
  case (init d)
  have "mcs_inv [] (Lock_new d)" by (rule mcs.rel_start) blast
  then show ?case by blast
next
  case (step s s')
  then show ?case using mcs.rel_step by blast
qed

section \<open>Progress\<close>

text \<open>Without spurious failures, a releaser waits for a successor only when there is one.\<close>

lemma strong_spin:
  assumes "reachable False s"
  shows "pcs s n = Unlock_Spin \<Longrightarrow> queue s \<noteq> Some n"
proof -
  have "\<forall>n. pcs s n = Unlock_Spin \<longrightarrow> queue s \<noteq> Some n"
    using assms
  proof (induction rule: reachable.induct)
    case (init d)
    then show ?case by (simp add: Lock_new_def)
  next
    case (step s s')
    from step.hyps(2) show ?case
    proof cases
      case (lock n)
      then show ?thesis
        using step.IH by (auto simp: lock_step_def Let_def split: pc.splits option.splits if_splits)
    next
      case (unlock n)
      then show ?thesis
        using step.IH by (auto simp: unlock_step_def split: pc.splits option.splits if_splits)
    next
      case (update n f)
      then show ?thesis using step.IH by (auto simp: guard_update_def)
    qed simp
  qed
  then show "pcs s n = Unlock_Spin \<Longrightarrow> queue s \<noteq> Some n" by blast
qed

lemma head_progress:
  assumes inv: "mcs_inv (h # ns) s" and "pcs s h \<noteq> Unlock_Spin"
  shows "pcs (lock_step h s) h \<noteq> pcs s h \<or> pcs (unlock_step h s) h \<noteq> pcs s h"
  using assms by (auto simp: mcs_inv_Cons head_ok_def lock_step_def unlock_step_def split: pc.splits)

lemma spin_progress:
  assumes inv: "mcs_inv (h # m # ns) s" and "pcs s h = Unlock_Spin"
  shows "pcs (unlock_step h s) h \<noteq> pcs s h \<or> pcs (lock_step m s) m \<noteq> pcs s m"
  using assms by (auto simp: mcs_inv_Cons waits_def lock_step_def unlock_step_def)

section \<open>Properties\<close>

text \<open>
  C29. Mutual exclusion: in every reachable state at most one thread is between the return of
  \<open>lock\<close> and the end of its \<open>unlock\<close>, also when exchanges fail spuriously.
\<close>

theorem mutual_exclusion:
  assumes "reachable weak s" and "holds s n" and "holds s m"
  shows "n = m"
  using reachable_rel [OF assms(1)] mcs.exclusive assms(2,3) by metis

text \<open>A state in which thread 0 holds the lock and thread 1 waits behind it.\<close>

definition small_mcs :: "nat mcs" where
  "small_mcs = lock_step 1 (lock_step 1 (lock_step 1 (lock_step 1 (lock_step 1
     (lock_step 0 (lock_step 0 (lock_step 0 (Lock_new 0))))))))"

lemma small_mcs_pcs: "pcs small_mcs 0 = Held" "pcs small_mcs 1 = Lock_Spin" "locked small_mcs 1"
    "next_node small_mcs 0 = Some 1" "queue small_mcs = Some 1" "data small_mcs = 0"
  by (simp_all add: small_mcs_def lock_step_def Lock_new_def goto_def LockNode_new_def)

lemma small_mcs_reachable: "reachable weak small_mcs"
  unfolding small_mcs_def by (intro reachable.step [OF _ mcs_step.lock] reachable.init)

theorem mutual_exclusion_witness: "reachable True small_mcs \<and> {m. holds small_mcs m} = {0}"
proof -
  have h: "holds small_mcs 0" by (simp add: holds_def small_mcs_pcs)
  then have "{m. holds small_mcs m} = {0}"
    using mutual_exclusion [OF small_mcs_reachable [of True] _ h] by blast
  then show ?thesis using small_mcs_reachable by blast
qed

text \<open>
  C30. The lock refines a first-come first-served queue: every reachable state stands for the
  list of the threads in the order of their swaps, the holder first; a step appends the thread
  that swaps, removes the first when it releases, or leaves the list alone; and a thread with
  another one ahead of it does not hold the lock.
\<close>

theorem mcs_fifo:
  assumes "reachable weak s"
  shows "\<exists>q. mcs_inv q s \<and> (\<forall>a b. ahead a b q \<longrightarrow> \<not> holds s b) \<and>
    (\<forall>s'. mcs_step weak s s' \<longrightarrow> (\<exists>q'. mcs_inv q' s' \<and>
       (q' = q \<or> (\<exists>n. n \<notin> set q \<and> pcs s n = Lock_Swap \<and> q' = q @ [n]) \<or> (\<exists>n. releases n s \<and> q = n # q'))))"
proof -
  obtain q where q: "mcs_inv q s" using reachable_rel [OF assms] by blast
  have "\<exists>q'. mcs_inv q' s' \<and>
      (q' = q \<or> (\<exists>n. n \<notin> set q \<and> pcs s n = Lock_Swap \<and> q' = q @ [n]) \<or> (\<exists>n. releases n s \<and> q = n # q'))"
    if "mcs_step weak s s'" for s'
    using mcs_step_refines [OF q that] member_pc [OF q] by blast
  then show ?thesis using q mcs.no_overtaking [OF q] by blast
qed

theorem mcs_fifo_witness:
  "\<exists>q. mcs_inv q small_mcs \<and> {b. \<exists>a. ahead a b q} \<inter> {b. holds small_mcs b} = {}"
proof -
  obtain q where "mcs_inv q small_mcs" "\<forall>a b. ahead a b q \<longrightarrow> \<not> holds small_mcs b"
    using mcs_fifo [OF small_mcs_reachable [of True]] by (elim exE conjE) (rule that)
  then show ?thesis by blast
qed





text \<open>
  With an exchange that fails spuriously, as \<open>compare_exchange_weak\<close> may, the release of an
  uncontended lock can wedge: the only thread spins for a successor that does not exist, and the
  lock stays taken.
\<close>

theorem weak_unlock_wedges:
  "\<exists>s :: nat mcs. reachable True s \<and> holds s 0 \<and> pcs s = (\<lambda>_. Idle)(0 := Unlock_Spin) \<and>
     unlock_step 0 s = s \<and> lock_step 0 s = s \<and> cas_spurious 0 s = s"
proof -
  let ?a = "lock_step 0 (lock_step 0 (lock_step 0 (Lock_new 0))) :: nat mcs"
  let ?b = "cas_spurious 0 (unlock_step 0 ?a)"
  have "reachable True ?a" by (intro reachable.step [OF _ mcs_step.lock] reachable.init)
  then have "reachable True (unlock_step 0 ?a)" by (rule reachable.step [OF _ mcs_step.unlock])
  then have "reachable True ?b" by (rule reachable.step [OF _ mcs_step.spurious [OF TrueI]])
  moreover have "pcs ?b = (\<lambda>_. Idle)(0 := Unlock_Spin)" "next_node ?b 0 = None"
    by (auto simp: lock_step_def unlock_step_def cas_spurious_def Lock_new_def goto_def LockNode_new_def)
  ultimately show ?thesis
    by (intro exI [of _ ?b]) (simp add: holds_def unlock_step_def [of 0 ?b] lock_step_def [of 0 ?b] cas_spurious_def [of 0 ?b])
qed

end
