(* ===== verification/Quick_Fit.thy ===== *)
theory Quick_Fit
  imports R9_Prelude
begin

text \<open>
  Model of \<^verbatim>\<open>port/src/allocator.rs\<close>: blocks, the bump allocator, the QuickFit heap over it and
  the global allocator.

  Pointers are \<open>usize\<close> words, 0 is null.  The headers that the code writes into free memory and
  reaches through raw pointers are an explicit store from addresses to headers, so lists that
  share nodes are visible.  An operation on the heap returns the new state and its result, a
  panic, or \<open>None\<close> when the walk along a list does not end.  The bytes that \<open>realloc\<close> copies
  are recorded as the copies made, in order; the contents of blocks are not modelled.
\<close>

section \<open>Standard library\<close>

text \<open>\<open>usize::next_power_of_two\<close>, \<open>usize::ilog2\<close> and \<open>pointer::align_offset\<close> for bytes.\<close>

definition next_power_of_two :: "usize \<Rightarrow> usize rust" where
  "next_power_of_two n =
     (case find (\<lambda>k. n \<le> 2 ^ k) [0..<64] of None \<Rightarrow> Inl Arith_Overflow | Some k \<Rightarrow> Inr (2 ^ k))"

definition ilog2 :: "usize \<Rightarrow> nat rust" where
  "ilog2 n = (case find (bit n) (rev [0..<64]) of None \<Rightarrow> Inl Arith_Overflow | Some k \<Rightarrow> Inr k)"

definition align_offset :: "usize \<Rightarrow> usize \<Rightarrow> usize rust" where
  "align_offset p align =
     (if is_power_of_two align then Inr ((0 - p) AND (align - 1)) else Inl Assertion_Failed)"

record Layout =
  l_size :: usize
  l_align :: usize

text \<open>\<open>Layout::from_size_align\<close>: a power of two, and a size that rounds up within \<open>isize\<close>.\<close>

definition layout_from_size_align :: "usize \<Rightarrow> usize \<Rightarrow> Layout option" where
  "layout_from_size_align sz align =
     (if is_power_of_two align \<and> uint sz \<le> 2 ^ 63 - uint align
      then Some \<lparr>l_size = sz, l_align = align\<rparr> else None)"

section \<open>Blocks and the bump allocator\<close>

record Block =
  bk_ptr :: usize
  bk_len :: usize

definition new_from_raw_parts :: "usize \<Rightarrow> usize \<Rightarrow> Block" where
  "new_from_raw_parts p len = \<lparr>bk_ptr = p, bk_len = len\<rparr>"

definition split_at_mut :: "Block \<Rightarrow> usize \<Rightarrow> (Block \<times> Block) option" where
  "split_at_mut b offset =
     (if offset > bk_len b then None
      else Some (new_from_raw_parts (bk_ptr b) offset,
                 new_from_raw_parts (bk_ptr b + offset) (bk_len b - offset)))"

record BumpAlloc =
  arena :: Block
  cursor :: usize

definition BumpAlloc_new :: "Block \<Rightarrow> BumpAlloc" where
  "BumpAlloc_new a = \<lparr>arena = a, cursor = 0\<rparr>"

definition expect_r :: "'a option \<Rightarrow> 'a rust" where
  "expect_r = unwrap_r"

definition try_alloc :: "BumpAlloc \<Rightarrow> usize \<Rightarrow> usize \<Rightarrow> (BumpAlloc \<times> (Block \<times> Block) option) rust" where
  "try_alloc a align sz =
     (let first = bk_ptr (arena a) + cursor a
      in bind_r (align_offset first align) (\<lambda>adjust.
         bind_r (expect_r (checked_add (cursor a) adjust)) (\<lambda>offset.
         bind_r (expect_r (checked_add offset sz)) (\<lambda>next.
           if next \<le> bk_len (arena a)
           then Inr (a\<lparr>cursor := next\<rparr>,
                     Some (new_from_raw_parts first adjust, new_from_raw_parts (first + adjust) sz))
           else Inr (a, None)))))"

text \<open>The \<open>Allocator\<close> implementation of the bump allocator.\<close>

definition BumpAlloc_allocate :: "BumpAlloc \<Rightarrow> Layout \<Rightarrow> (BumpAlloc \<times> Block option) rust" where
  "BumpAlloc_allocate a layout =
     bind_r (try_alloc a (l_size layout) (l_align layout)) (\<lambda>(a', r).
       Inr (a', map_option (\<lambda>(_, block). new_from_raw_parts (bk_ptr block) (bk_len block)) r))"

definition BumpAlloc_deallocate :: "BumpAlloc \<Rightarrow> usize \<Rightarrow> Layout \<Rightarrow> BumpAlloc rust" where
  "BumpAlloc_deallocate a p layout = Inl Not_Implemented"

section \<open>QuickFit\<close>

definition ALLOC_UNIT_SHIFT :: nat where "ALLOC_UNIT_SHIFT = 6"
definition MIN_ALLOC_SIZE :: usize where "MIN_ALLOC_SIZE = push_bit ALLOC_UNIT_SHIFT 1"
definition MAX_QUICK_SIZE :: usize where "MAX_QUICK_SIZE = push_bit 14 1"
definition NUM_QLISTS :: nat where "NUM_QLISTS = 14 - ALLOC_UNIT_SHIFT + 1"
definition NUM_HASH_BUCKETS :: usize where "NUM_HASH_BUCKETS = 31"

record Header =
  h_next :: "usize option"
  h_addr :: usize
  h_size :: usize
  h_align :: usize

definition Header_new :: "usize \<Rightarrow> usize \<Rightarrow> usize \<Rightarrow> usize option \<Rightarrow> Header" where
  "Header_new addr sz align next = \<lparr>h_next = next, h_addr = addr, h_size = sz, h_align = align\<rparr>"

text \<open>\<open>Layout::new::<Header>()\<close>: four words, padded to the alignment of 64.\<close>

definition header_layout :: Layout where
  "header_layout = \<lparr>l_size = 64, l_align = 64\<rparr>"

record QuickFit =
  tail :: BumpAlloc
  qlists :: "usize option list"
  misc :: "usize option"
  allocated_misc :: "usize option list"
  hdrs :: "usize \<Rightarrow> Header option"
  copies :: "(usize \<times> usize \<times> usize) list"

definition QuickFit_new :: "BumpAlloc \<Rightarrow> QuickFit" where
  "QuickFit_new t = \<lparr>tail = t, qlists = replicate NUM_QLISTS None, misc = None,
     allocated_misc = replicate (unat NUM_HASH_BUCKETS) None, hdrs = (\<lambda>_. None), copies = []\<rparr>"

type_synonym 'a qf = "(QuickFit \<times> 'a) rust option"

definition ret_q :: "QuickFit \<Rightarrow> 'a \<Rightarrow> 'a qf" where
  "ret_q q x = Some (Inr (q, x))"

definition lift_q :: "QuickFit \<Rightarrow> 'a rust \<Rightarrow> 'a qf" where
  "lift_q q m = Some (bind_r m (\<lambda>x. Inr (q, x)))"

definition bind_q :: "'a qf \<Rightarrow> (QuickFit \<Rightarrow> 'a \<Rightarrow> 'b qf) \<Rightarrow> 'b qf" where
  "bind_q m f = (case m of None \<Rightarrow> None | Some (Inl p) \<Rightarrow> Some (Inl p) | Some (Inr (q, x)) \<Rightarrow> f q x)"

lemma bind_q_simps [simp]:
  "bind_q None f = None" "bind_q (Some (Inl p)) f = Some (Inl p)" "bind_q (ret_q q x) f = f q x"
  "bind_q (lift_q q (Inl p)) f = Some (Inl p)" "bind_q (lift_q q (Inr x)) f = f q x"
  "bind_q (Some (Inr (q, x))) f = f q x"
  by (simp_all add: bind_q_def ret_q_def lift_q_def)

text \<open>
  \<open>unlink\<close>: the walk with the mutable variables \<open>list\<close> and \<open>prev\<close>.  On a match that is not
  the first node, \<open>list\<close> still points to the matching node when it is returned; after a walk
  without a match it is \<open>None\<close>.
\<close>

partial_function (option) unlink_loop ::
    "(Header \<Rightarrow> bool) \<Rightarrow> (usize \<Rightarrow> Header option) \<Rightarrow> usize option \<Rightarrow> usize option \<Rightarrow>
     ((usize \<Rightarrow> Header option) \<times> usize option \<times> usize option) rust option" where
  "unlink_loop P hs list prev =
     (case list of
        None \<Rightarrow> Some (Inr (hs, None, None))
      | Some node \<Rightarrow>
          (case hs node of
             None \<Rightarrow> Some (Inl Undefined_Behaviour)
           | Some h \<Rightarrow>
               if P h then
                 let next = h_next h; hs1 = hs(node \<mapsto> h\<lparr>h_next := None\<rparr>)
                 in case prev of
                      Some p \<Rightarrow>
                        (case hs1 p of
                           None \<Rightarrow> Some (Inl Undefined_Behaviour)
                         | Some ph \<Rightarrow> Some (Inr (hs1(p \<mapsto> ph\<lparr>h_next := next\<rparr>), Some node, Some node)))
                    | None \<Rightarrow> Some (Inr (hs1, Some node, next))
               else unlink_loop P hs (h_next h) (Some node)))"

declare unlink_loop.simps [code]

definition unlink :: "QuickFit \<Rightarrow> usize option \<Rightarrow> (Header \<Rightarrow> bool) \<Rightarrow> (usize option \<times> usize option) qf" where
  "unlink q list P =
     (case unlink_loop P (hdrs q) list None of
        None \<Rightarrow> None
      | Some r \<Rightarrow> Some (bind_r r (\<lambda>(hs, node, list'). Inr (q\<lparr>hdrs := hs\<rparr>, (node, list')))))"

definition head :: "QuickFit \<Rightarrow> usize option \<Rightarrow> (usize option \<times> usize option) qf" where
  "head q list = unlink q list (\<lambda>_. True)"

definition hash :: "usize \<Rightarrow> usize" where
  "hash p =
     (let k = p;
          k = k XOR drop_bit 33 k;
          k = k * 0xff51afd7ed558ccd;
          k = k XOR drop_bit 33 k;
          k = k * 0xc4ceb9fe1a85ec53
      in drop_bit 33 k mod NUM_HASH_BUCKETS)"

definition adjust :: "Layout \<Rightarrow> (usize \<times> usize) rust" where
  "adjust layout =
     (let sz = l_size layout; align = l_align layout
      in if sz > MAX_QUICK_SIZE then Inr (sz, align)
         else bind_r (next_power_of_two sz) (\<lambda>np.
                let sz' = max MIN_ALLOC_SIZE np
                in Inr (sz', max (l_align layout) sz')))"

text \<open>\<open>size.ilog2() as usize - ALLOC_UNIT_SHIFT\<close>, the quick list of a size.\<close>

definition quick_index :: "usize \<Rightarrow> nat rust" where
  "quick_index sz =
     bind_r (ilog2 sz) (\<lambda>l. if l < ALLOC_UNIT_SHIFT then Inl Arith_Overflow else Inr (l - ALLOC_UNIT_SHIFT))"

text \<open>Reading the header behind a pointer.\<close>

definition deref :: "QuickFit \<Rightarrow> usize \<Rightarrow> Header rust" where
  "deref q p = (case hdrs q p of None \<Rightarrow> Inl Undefined_Behaviour | Some h \<Rightarrow> Inr h)"

definition alloc_misc :: "QuickFit \<Rightarrow> usize \<Rightarrow> usize \<Rightarrow> usize option qf" where
  "alloc_misc q sz align =
     bind_q (unlink (q\<lparr>misc := None\<rparr>) (misc q) (\<lambda>node. sz \<le> h_size node \<and> align \<le> h_align node))
       (\<lambda>q1 (node, list).
         let q2 = q1\<lparr>misc := list\<rparr>
         in case node of
              None \<Rightarrow> ret_q q2 None
            | Some hp \<Rightarrow>
                bind_q (lift_q q2 (deref q2 hp)) (\<lambda>q2 header.
                  let k = unat (hash (h_addr header))
                  in ret_q (q2\<lparr>hdrs := (hdrs q2)(hp \<mapsto> header\<lparr>h_next := allocated_misc q2 ! k\<rparr>),
                                allocated_misc := (allocated_misc q2)[k := Some hp]\<rparr>)
                       (Some (h_addr header))))"

definition alloc_quick :: "QuickFit \<Rightarrow> usize \<Rightarrow> usize \<Rightarrow> usize option qf" where
  "alloc_quick q sz align =
     (if sz \<le> MAX_QUICK_SIZE \<and> align = sz then
        bind_q (lift_q q (quick_index sz)) (\<lambda>q k.
        bind_q (lift_q q (index_r (qlists q) k)) (\<lambda>q l.
        bind_q (head (q\<lparr>qlists := (qlists q)[k := None]\<rparr>) l) (\<lambda>q (node, list).
          let q' = q\<lparr>qlists := (qlists q)[k := list]\<rparr>
          in case node of
               None \<Rightarrow> ret_q q' None
             | Some hp \<Rightarrow> bind_q (lift_q q' (deref q' hp)) (\<lambda>q' h. ret_q q' (Some (h_addr h))))))
      else alloc_misc q sz align)"

text \<open>
  \<open>free\<close> up to the call of \<open>free_misc\<close>, which is an argument here: \<open>free_misc\<close> allocates, an
  allocation from the tail frees the prefix, and that calls \<open>free\<close> again, but only for sizes
  that go to a quick list.
\<close>

definition free_with ::
    "(QuickFit \<Rightarrow> usize \<Rightarrow> usize \<Rightarrow> usize \<Rightarrow> unit qf) \<Rightarrow> QuickFit \<Rightarrow> usize \<Rightarrow> Layout \<Rightarrow> unit qf" where
  "free_with misc_free q block layout =
     (if block = 0 then ret_q q ()
      else
        bind_q (lift_q q (adjust layout)) (\<lambda>q (sz, align).
          if sz \<le> MAX_QUICK_SIZE \<and> align = sz then
            bind_q (lift_q q (quick_index sz)) (\<lambda>q k.
            bind_q (lift_q q (index_r (qlists q) k)) (\<lambda>q l.
            bind_q (lift_q q (bind_r (align_offset block 64) (\<lambda>r. assert_r (r = 0)))) (\<lambda>q _.
              ret_q (q\<lparr>hdrs := (hdrs q)(block \<mapsto> Header_new block sz align l),
                       qlists := (qlists q)[k := Some block]\<rparr>) ())))
          else misc_free q block sz align))"

definition align_prefix :: "Block \<Rightarrow> Block rust" where
  "align_prefix prefix =
     bind_r (align_offset (bk_ptr prefix) MIN_ALLOC_SIZE) (\<lambda>offset.
     bind_r (assert_r (offset \<le> bk_len prefix)) (\<lambda>_.
       Inr (new_from_raw_parts (bk_ptr prefix + offset) (bk_len prefix - offset))))"

text \<open>The loop \<open>for k in (0..NUM_QLISTS).rev()\<close> of \<open>try_free_prefix\<close>.\<close>

fun try_free_loop :: "QuickFit \<Rightarrow> Block \<Rightarrow> nat list \<Rightarrow> Block option qf" where
  "try_free_loop q prefix [] = ret_q q None"
| "try_free_loop q prefix (k # ks) =
     (let sz = push_bit (k + ALLOC_UNIT_SHIFT) 1
      in if bk_len prefix \<ge> sz then
           bind_q (lift_q q (align_offset (bk_ptr prefix) sz)) (\<lambda>q r.
             if r = 0 then
               (case split_at_mut prefix sz of
                  None \<Rightarrow> ret_q q None
                | Some (_, rest) \<Rightarrow>
                    bind_q (lift_q q (unwrap_r (layout_from_size_align sz sz))) (\<lambda>q layout.
                    bind_q (free_with (\<lambda>_ _ _ _. Some (Inl Undefined_Behaviour)) q (bk_ptr prefix) layout) (\<lambda>q _.
                      ret_q q (if bk_len rest \<ge> MIN_ALLOC_SIZE then Some rest else None))))
             else try_free_loop q prefix ks)
         else try_free_loop q prefix ks)"

definition try_free_prefix :: "QuickFit \<Rightarrow> Block \<Rightarrow> Block option qf" where
  "try_free_prefix q prefix = try_free_loop q prefix (rev [0..<NUM_QLISTS])"

partial_function (option) free_prefix_loop :: "QuickFit \<Rightarrow> Block \<Rightarrow> unit qf" where
  "free_prefix_loop q prefix =
     (case try_free_prefix q prefix of
        None \<Rightarrow> None
      | Some (Inl p) \<Rightarrow> Some (Inl p)
      | Some (Inr (q', None)) \<Rightarrow> Some (Inr (q', ()))
      | Some (Inr (q', Some rest)) \<Rightarrow> free_prefix_loop q' rest)"

declare free_prefix_loop.simps [code]

definition free_prefix :: "QuickFit \<Rightarrow> Block \<Rightarrow> unit qf" where
  "free_prefix q prefix = bind_q (lift_q q (align_prefix prefix)) free_prefix_loop"

definition alloc_tail :: "QuickFit \<Rightarrow> usize \<Rightarrow> usize \<Rightarrow> usize option qf" where
  "alloc_tail q sz align =
     (case try_alloc (tail q) sz align of
        Inl p \<Rightarrow> Some (Inl p)
      | Inr (t, None) \<Rightarrow> ret_q (q\<lparr>tail := t\<rparr>) None
      | Inr (t, Some (prefix, block)) \<Rightarrow>
          bind_q (free_prefix (q\<lparr>tail := t\<rparr>) prefix) (\<lambda>q _. ret_q q (Some (bk_ptr block))))"

definition malloc :: "QuickFit \<Rightarrow> Layout \<Rightarrow> usize qf" where
  "malloc q layout =
     bind_q (lift_q q (adjust layout)) (\<lambda>q (sz, align).
     bind_q (alloc_quick q sz align) (\<lambda>q p.
     bind_q (case p of None \<Rightarrow> alloc_tail q sz align | Some x \<Rightarrow> ret_q q (Some x)) (\<lambda>q r.
       ret_q q (case r of None \<Rightarrow> 0 | Some x \<Rightarrow> x))))"

definition unlink_allocated_misc :: "QuickFit \<Rightarrow> usize \<Rightarrow> usize option qf" where
  "unlink_allocated_misc q block =
     (let k = unat (hash block)
      in bind_q (unlink (q\<lparr>allocated_misc := (allocated_misc q)[k := None]\<rparr>) (allocated_misc q ! k)
                  (\<lambda>node. h_addr node = block)) (\<lambda>q (node, list).
           ret_q (q\<lparr>allocated_misc := (allocated_misc q)[k := list]\<rparr>) node))"

text \<open>The closure that makes a header: \<open>is_null().then(..)\<close> is \<open>None\<close> when the allocation
  succeeded, and \<open>expect\<close> then panics.\<close>

definition new_misc_header :: "QuickFit \<Rightarrow> usize \<Rightarrow> usize \<Rightarrow> usize \<Rightarrow> usize option qf" where
  "new_misc_header q block sz align =
     bind_q (malloc q header_layout) (\<lambda>q hblock.
       if hblock \<noteq> 0 then Some (Inl Unwrap_Failed)
       else
         bind_q (lift_q q (bind_r (align_offset block MIN_ALLOC_SIZE) (\<lambda>offset.
                           bind_r (add_c offset MIN_ALLOC_SIZE) (\<lambda>d.
                           bind_r (sub_c sz d) (\<lambda>sz'. Inr (offset, sz')))))) (\<lambda>q (offset, sz').
           let hblock' = block + offset; block' = hblock' + MIN_ALLOC_SIZE
           in ret_q (q\<lparr>hdrs := (hdrs q)(hblock' \<mapsto> Header_new block' sz' MIN_ALLOC_SIZE None)\<rparr>)
                (if hblock' = 0 then None else Some hblock')))"

definition free_misc :: "QuickFit \<Rightarrow> usize \<Rightarrow> usize \<Rightarrow> usize \<Rightarrow> unit qf" where
  "free_misc q block sz align =
     bind_q (unlink_allocated_misc q block) (\<lambda>q found.
     bind_q (case found of Some h \<Rightarrow> ret_q q (Some h) | None \<Rightarrow> new_misc_header q block sz align)
       (\<lambda>q header.
         bind_q (lift_q q (unwrap_r header)) (\<lambda>q hp.
         bind_q (lift_q q (deref q hp)) (\<lambda>q h.
           ret_q (q\<lparr>hdrs := (hdrs q)(hp \<mapsto> h\<lparr>h_next := misc q\<rparr>), misc := Some hp\<rparr>) ()))))"

definition free :: "QuickFit \<Rightarrow> usize \<Rightarrow> Layout \<Rightarrow> unit qf" where
  "free q block layout = free_with free_misc q block layout"

definition realloc :: "QuickFit \<Rightarrow> usize \<Rightarrow> Layout \<Rightarrow> usize \<Rightarrow> usize qf" where
  "realloc q block layout new_size =
     (if block = 0 then malloc q layout
      else
        bind_q (lift_q q (expect_r (layout_from_size_align new_size (l_align layout)))) (\<lambda>q new_layout.
        bind_q (lift_q q (adjust new_layout)) (\<lambda>q (sz, align).
          if sz = l_size layout \<and> align = l_align layout then ret_q q block
          else
            bind_q (malloc q new_layout) (\<lambda>q np.
              if np \<noteq> 0 then
                bind_q (free (q\<lparr>copies := copies q @ [(block, np, min (l_size layout) new_size)]\<rparr>) block layout)
                  (\<lambda>q _. ret_q q np)
              else ret_q q np))))"

section \<open>The global allocator\<close>

text \<open>The atomic pointer is taken for the duration of a call and put back after it; a nested or
  concurrent call finds null.\<close>

definition GLOBAL_HEAP_SIZE :: usize where "GLOBAL_HEAP_SIZE = 4 * 1024 * 1024"

definition GLOBAL_ALLOCATOR :: "usize \<Rightarrow> QuickFit option" where
  "GLOBAL_ALLOCATOR heap = Some (QuickFit_new (BumpAlloc_new (new_from_raw_parts heap GLOBAL_HEAP_SIZE)))"

definition with_allocator :: "QuickFit option \<Rightarrow> (QuickFit \<Rightarrow> 'a qf) \<Rightarrow> (QuickFit option \<times> 'a) rust option" where
  "with_allocator g thunk =
     (case g of
        None \<Rightarrow> Some (Inl Assertion_Failed)
      | Some a \<Rightarrow>
          (case thunk a of
             None \<Rightarrow> None
           | Some (Inl p) \<Rightarrow> Some (Inl p)
           | Some (Inr (a', r)) \<Rightarrow> Some (Inr (Some a', r))))"

definition global_alloc :: "QuickFit option \<Rightarrow> Layout \<Rightarrow> (QuickFit option \<times> usize) rust option" where
  "global_alloc g layout = with_allocator g (\<lambda>quick. malloc quick layout)"

definition global_dealloc :: "QuickFit option \<Rightarrow> usize \<Rightarrow> Layout \<Rightarrow> (QuickFit option \<times> unit) rust option" where
  "global_dealloc g p layout = with_allocator g (\<lambda>quick. free quick p layout)"

definition global_realloc ::
    "QuickFit option \<Rightarrow> usize \<Rightarrow> Layout \<Rightarrow> usize \<Rightarrow> (QuickFit option \<times> usize) rust option" where
  "global_realloc g p layout new_size = with_allocator g (\<lambda>quick. realloc quick p layout new_size)"

end
