(* ===== verification/Quick_Fit_Correct.thy ===== *)
theory Quick_Fit_Correct
  imports Quick_Fit
begin

text \<open>
  What the heap of \<^verbatim>\<open>port/src/allocator.rs\<close> guarantees: size classes, the bump allocator's
  blocks, the quick lists as stacks, and how far the first-fit list falls short.
\<close>

section \<open>Arithmetic of the size classes\<close>

lemma find_upt_least:
  assumes "k < n" and "P k" and "\<And>j. j < k \<Longrightarrow> \<not> P j"
  shows "find P [0..<n] = Some k"
  using assms by (auto simp: find_Some_iff)

lemma pow2_le_iff: "j < 64 \<Longrightarrow> n \<le> 2 ^ j \<longleftrightarrow> unat n \<le> 2 ^ j" for n :: usize
  by (simp add: word_le_nat_alt unat_pow2)

lemma next_power_of_two_eq:
  assumes "k < 64" and "unat n \<le> 2 ^ k" and "\<And>j. j < k \<Longrightarrow> 2 ^ j < unat n"
  shows "next_power_of_two n = Inr (2 ^ k)"
proof -
  have "find (\<lambda>k. n \<le> 2 ^ k) [0..<64] = Some k"
    using assms by (intro find_upt_least) (auto simp: pow2_le_iff not_le)
  then show ?thesis by (simp add: next_power_of_two_def)
qed

lemma least_power:
  fixes n m :: nat
  assumes "n \<le> 2 ^ m"
  obtains k where "k \<le> m" and "n \<le> 2 ^ k" and "\<And>j. j < k \<Longrightarrow> 2 ^ j < n"
proof
  let ?k = "LEAST k. n \<le> 2 ^ k"
  show "?k \<le> m" using assms by (rule Least_le)
  show "n \<le> 2 ^ ?k" using assms by (rule LeastI)
  show "\<And>j. j < ?k \<Longrightarrow> 2 ^ j < n" using not_less_Least by fastforce
qed

text \<open>The class of a small request: the least power of two from 64 to 16384 that holds it.\<close>

lemma adjust_quick:
  assumes "l_size l \<le> MAX_QUICK_SIZE"
  obtains k where "6 \<le> k" and "k \<le> 14" and "unat (l_size l) \<le> 2 ^ k"
    and "6 < k \<longrightarrow> 2 ^ (k - 1) < unat (l_size l)"
    and "adjust l = Inr (2 ^ k, max (l_align l) (2 ^ k))"
proof -
  have le: "unat (l_size l) \<le> 2 ^ 14" using assms by (simp add: MAX_QUICK_SIZE_def word_le_nat_alt)
  obtain j where j: "j \<le> 14" "unat (l_size l) \<le> 2 ^ j" "\<And>i. i < j \<Longrightarrow> 2 ^ i < unat (l_size l)"
    using least_power [OF le] by blast
  have np: "next_power_of_two (l_size l) = Inr (2 ^ j)" using j by (intro next_power_of_two_eq) auto
  define k where "k = max 6 j"
  have min6: "MIN_ALLOC_SIZE = 2 ^ 6" by (simp add: MIN_ALLOC_SIZE_def ALLOC_UNIT_SHIFT_def)
  have "max MIN_ALLOC_SIZE (2 ^ j) = 2 ^ k"
  proof (cases "j \<le> 6")
    case True
    have "unat (2 ^ j :: usize) \<le> unat (2 ^ 6 :: usize)"
      using True power_increasing [of j 6 "2 :: nat"] by (subst (1 2) unat_pow2) simp_all
    then have "(2 ^ j :: usize) \<le> 2 ^ 6" by (simp only: word_le_nat_alt)
    then show ?thesis using True unfolding min6 by (simp only: max_absorb1 k_def)
  next
    case False
    have "unat (2 ^ 6 :: usize) \<le> unat (2 ^ j :: usize)"
      using False j(1) power_increasing [of 6 j "2 :: nat"] by (subst (1 2) unat_pow2) simp_all
    then have "(2 ^ 6 :: usize) \<le> 2 ^ j" by (simp only: word_le_nat_alt)
    then show ?thesis using False unfolding min6 by (simp add: max_absorb2 k_def del: power_numeral)
  qed
  then have "adjust l = Inr (2 ^ k, max (l_align l) (2 ^ k))"
    using leD [OF assms] by (simp add: adjust_def Let_def np)
  moreover have "unat (l_size l) \<le> 2 ^ k"
    using le_trans [OF j(2) power_increasing [of j k "2 :: nat"]] by (simp add: k_def)
  moreover have "6 < k \<longrightarrow> 2 ^ (k - 1) < unat (l_size l)"
    using j(3) [of "k - 1"] by (auto simp: k_def)
  ultimately show thesis using that [of k] j(1) by (simp add: k_def)
qed

lemma ilog2_pow2: "k < 64 \<Longrightarrow> ilog2 (2 ^ k) = Inr k"
proof -
  assume k: "k < 64"
  have "bit (2 ^ k :: usize) j \<longleftrightarrow> j = k" if "j < 64" for j
    using that by (auto simp: bit_simps)
  then have "find (bit (2 ^ k :: usize)) (rev [0..<64]) = find (\<lambda>j. j = k) (rev [0..<64])"
    by (intro find_cong) auto
  also have "\<dots> = Some k"
  proof -
    have "k \<in> set (rev [0..<64])" using k by simp
    then have "find (\<lambda>j. j = k) (rev [0..<64]) \<noteq> None" by (auto simp: find_None_iff)
    then show ?thesis by (auto simp: find_Some_iff)
  qed
  finally show ?thesis by (simp add: ilog2_def)
qed

lemma quick_index_pow2: "6 \<le> k \<Longrightarrow> k < 64 \<Longrightarrow> quick_index (2 ^ k) = Inr (k - 6)"
  by (simp add: quick_index_def ilog2_pow2 ALLOC_UNIT_SHIFT_def)

lemma is_power_of_two_pow: "k < 64 \<Longrightarrow> is_power_of_two (2 ^ k :: usize)"
  by (auto simp: is_power_of_two_iff)

lemma hash_bound: "hash p < NUM_HASH_BUCKETS"
  by (simp add: hash_def Let_def NUM_HASH_BUCKETS_def word_less_nat_alt unat_mod)

lemma align_offset_eq:
  assumes "is_power_of_two align"
  obtains r where "align_offset p align = Inr r" and "r < align" and "unat align dvd (unat p + unat r)"
proof -
  obtain k where k: "k < 64" "align = 2 ^ k" "unat align = 2 ^ k"
    using assms by (auto elim!: is_power_of_twoE)
  let ?r = "(0 - p) AND (align - 1)"
  have r: "?r = take_bit k (- p)" by (simp add: k(2) take_bit_eq_mask mask_eq_decr_exp)
  have "unat ?r < 2 ^ k"
    unfolding r by (simp add: unsigned_take_bit_eq)
  moreover have "(unat p + unat ?r) mod 2 ^ k = 0"
  proof -
    have word: "(unat p + unat (- p)) mod 2 ^ 64 = 0"
      using unat_word_ariths(1) [of p "- p"] by simp
    have "unat ?r = unat (- p) mod 2 ^ k"
      unfolding r unsigned_take_bit_eq by (simp only: take_bit_eq_mod)
    then have "(unat p + unat ?r) mod 2 ^ k = (unat p + unat (- p)) mod 2 ^ k"
      by (simp only: mod_add_right_eq)
    also have "\<dots> = (unat p + unat (- p)) mod 2 ^ 64 mod 2 ^ k"
    proof (rule mod_mod_cancel [symmetric])
      show "(2 :: nat) ^ k dvd 2 ^ 64" using k(1) by (intro le_imp_power_dvd) simp
    qed
    finally show ?thesis by (simp only: word mod_0)
  qed
  ultimately show thesis
    using assms k by (intro that [of ?r]) (auto simp: align_offset_def word_less_nat_alt)
qed

section \<open>The bump allocator\<close>

text \<open>The blocks handed out lie in the arena one after the other.\<close>

lemma try_alloc_eq:
  assumes "is_power_of_two align" and "unat (bk_ptr (arena a)) + unat (bk_len (arena a)) < 2 ^ 64"
    and "cursor a \<le> bk_len (arena a)" and "unat (bk_len (arena a)) + unat align + unat sz < 2 ^ 64"
  obtains adj where "adj < align"
    and "unat align dvd (unat (bk_ptr (arena a)) + unat (cursor a) + unat adj)"
    and "if unat (cursor a) + unat adj + unat sz \<le> unat (bk_len (arena a))
      then \<exists>c. try_alloc a align sz = Inr (a\<lparr>cursor := c\<rparr>,
          Some (new_from_raw_parts (bk_ptr (arena a) + cursor a) adj,
                new_from_raw_parts (bk_ptr (arena a) + cursor a + adj) sz)) \<and>
        unat c = unat (cursor a) + unat adj + unat sz
      else try_alloc a align sz = Inr (a, None)"
proof -
  let ?p = "bk_ptr (arena a)" and ?c = "cursor a" and ?n = "bk_len (arena a)"
  have cn: "unat ?c \<le> unat ?n" using assms(3) by (simp add: word_le_nat_alt)
  have pc: "unat (?p + ?c) = unat ?p + unat ?c" using assms(2) cn by (intro unat_add_usize) linarith
  obtain adj where adj: "align_offset (?p + ?c) align = Inr adj" "adj < align"
      "unat align dvd (unat (?p + ?c) + unat adj)"
    by (rule align_offset_eq [OF assms(1)])
  have al: "unat adj < unat align" using adj(2) by (simp add: word_less_nat_alt)
  have s1: "unat ?c + unat adj < 2 ^ 64" using cn al assms(4) by linarith
  have u1: "unat (?c + adj) = unat ?c + unat adj" by (rule unat_add_usize [OF s1])
  have s2: "unat (?c + adj) + unat sz < 2 ^ 64" unfolding u1 using cn al assms(4) by linarith
  have u2: "unat (?c + adj + sz) = unat ?c + unat adj + unat sz"
    using unat_add_usize [OF s2] u1 by simp
  have ok: "checked_add ?c adj = Some (?c + adj)" "checked_add (?c + adj) sz = Some (?c + adj + sz)"
    using s1 s2 by (simp_all add: checked_add_alt)
  show thesis
  proof (rule that [OF adj(2)])
    show "unat align dvd (unat ?p + unat ?c + unat adj)" using adj(3) by (simp only: pc)
    show "if unat ?c + unat adj + unat sz \<le> unat ?n
      then \<exists>c. try_alloc a align sz = Inr (a\<lparr>cursor := c\<rparr>,
          Some (new_from_raw_parts (?p + ?c) adj, new_from_raw_parts (?p + ?c + adj) sz)) \<and>
        unat c = unat ?c + unat adj + unat sz
      else try_alloc a align sz = Inr (a, None)"
      using u2 by (auto simp: try_alloc_def Let_def adj(1) ok expect_r_def word_le_nat_alt)
  qed
qed

section \<open>The quick lists\<close>

lemma adjust_class: "6 \<le> k \<Longrightarrow> k \<le> 14 \<Longrightarrow> adjust \<lparr>l_size = 2 ^ k, l_align = 2 ^ k\<rparr> = Inr (2 ^ k, 2 ^ k)"
proof -
  assume k: "6 \<le> k" "k \<le> 14"
  let ?l = "\<lparr>l_size = 2 ^ k, l_align = 2 ^ k\<rparr> :: Layout"
  have uk: "unat (2 ^ k :: usize) = 2 ^ k" using k by (intro unat_pow2) simp
  have "(2 :: nat) ^ k \<le> 2 ^ 14" using k(2) by (rule power_increasing) simp
  then have "l_size ?l \<le> MAX_QUICK_SIZE" using uk by (simp add: MAX_QUICK_SIZE_def word_le_nat_alt)
  then obtain j where j: "6 \<le> j" "j \<le> 14" "unat (l_size ?l) \<le> 2 ^ j" "6 < j \<longrightarrow> 2 ^ (j - 1) < unat (l_size ?l)"
      "adjust ?l = Inr (2 ^ j, max (l_align ?l) (2 ^ j))"
    by (rule adjust_quick)
  have "j = k"
  proof (rule antisym)
    show "k \<le> j" using j(3) uk by (simp add: power_le_imp_le_exp)
    show "j \<le> k"
    proof (cases "6 < j")
      case True
      then have "(2 :: nat) ^ (j - 1) < 2 ^ k" using j(4) uk by simp
      then have "j - 1 < k" by (rule power_less_imp_less_exp [rotated]) simp
      then show ?thesis by simp
    qed (use k j in simp)
  qed
  then show ?thesis using j(5) by simp
qed

text \<open>Putting a free block of a class on its list.\<close>

lemma free_quick_eq:
  assumes "adjust l = Inr (2 ^ k, 2 ^ k)" and "6 \<le> k" and "k \<le> 14" and "length (qlists q) = NUM_QLISTS"
    and "b \<noteq> 0" and "align_offset b 64 = Inr 0"
  shows "free_with h q b l =
    ret_q (q\<lparr>hdrs := (hdrs q)(b \<mapsto> Header_new b (2 ^ k) (2 ^ k) (qlists q ! (k - 6))),
             qlists := (qlists q)[k - 6 := Some b]\<rparr>) ()"
proof -
  have "(2 ^ k :: usize) \<le> MAX_QUICK_SIZE"
  proof -
    have "(2 :: nat) ^ k \<le> 2 ^ 14" using assms(3) by (rule power_increasing) simp
    moreover have "unat (2 ^ k :: usize) = 2 ^ k" using assms(3) by (intro unat_pow2) simp
    ultimately show ?thesis by (simp add: MAX_QUICK_SIZE_def word_le_nat_alt)
  qed
  moreover have "k - 6 < length (qlists q)"
    using assms(2-4) by (simp add: NUM_QLISTS_def ALLOC_UNIT_SHIFT_def)
  ultimately show ?thesis
    using assms by (simp add: free_with_def quick_index_pow2 index_r_def)
qed

text \<open>Taking the first block of a class.\<close>

lemma head_eq:
  assumes "hdrs q b = Some h"
  shows "head q (Some b) = ret_q (q\<lparr>hdrs := (hdrs q)(b \<mapsto> h\<lparr>h_next := None\<rparr>)\<rparr>) (Some b, h_next h)"
  using assms by (simp add: head_def unlink_def ret_q_def) (subst unlink_loop.simps, simp add: Let_def)

lemma malloc_quick_eq:
  assumes "adjust l = Inr (2 ^ k, 2 ^ k)" and "6 \<le> k" and "k \<le> 14" and "length (qlists q) = NUM_QLISTS"
    and "qlists q ! (k - 6) = Some b" and "hdrs q b = Some h"
  shows "malloc q l = ret_q (q\<lparr>hdrs := (hdrs q)(b \<mapsto> h\<lparr>h_next := None\<rparr>),
     qlists := (qlists q)[k - 6 := h_next h]\<rparr>) (h_addr h)"
proof -
  have "(2 ^ k :: usize) \<le> MAX_QUICK_SIZE"
  proof -
    have "(2 :: nat) ^ k \<le> 2 ^ 14" using assms(3) by (rule power_increasing) simp
    moreover have "unat (2 ^ k :: usize) = 2 ^ k" using assms(3) by (intro unat_pow2) simp
    ultimately show ?thesis by (simp add: MAX_QUICK_SIZE_def word_le_nat_alt)
  qed
  moreover have "k - 6 < length (qlists q)"
    using assms(2-4) by (simp add: NUM_QLISTS_def ALLOC_UNIT_SHIFT_def)
  ultimately show ?thesis
    using assms by (simp add: malloc_def alloc_quick_def quick_index_pow2 index_r_def head_eq deref_def)
qed

section \<open>The first-fit list\<close>

text \<open>The nodes a list pointer leads to.\<close>

fun linked :: "(usize \<Rightarrow> Header option) \<Rightarrow> usize option \<Rightarrow> usize list \<Rightarrow> bool" where
  "linked hs p [] \<longleftrightarrow> p = None"
| "linked hs p (n # ns) \<longleftrightarrow> p = Some n \<and> (\<exists>h. hs n = Some h \<and> linked hs (h_next h) ns)"

lemma unlink_loop_none:
  assumes "linked hs p ns" and "\<forall>n \<in> set ns. \<forall>h. hs n = Some h \<longrightarrow> \<not> P h"
  shows "unlink_loop P hs p prev = Some (Inr (hs, None, None))"
  using assms
proof (induction ns arbitrary: p prev)
  case Nil
  then show ?case by (subst unlink_loop.simps) simp
next
  case (Cons n ns)
  then show ?case by (subst unlink_loop.simps) auto
qed

lemma alloc_misc_none:
  assumes "linked (hdrs q) (misc q) ns"
    and "\<forall>n \<in> set ns. \<forall>h. hdrs q n = Some h \<longrightarrow> \<not> (sz \<le> h_size h \<and> align \<le> h_align h)"
  shows "alloc_misc q sz align = ret_q (q\<lparr>misc := None\<rparr>) None"
  using unlink_loop_none [OF assms, of None] by (simp add: alloc_misc_def unlink_def Let_def ret_q_def)

text \<open>A match at the first node is removed; a match at the second stays the head of the list.\<close>

lemma alloc_misc_first:
  assumes "misc q = Some n" and "hdrs q n = Some h" and "sz \<le> h_size h \<and> align \<le> h_align h"
  shows "\<exists>q'. alloc_misc q sz align = ret_q q' (Some (h_addr h)) \<and> misc q' = h_next h"
proof -
  let ?P = "\<lambda>node. sz \<le> h_size node \<and> align \<le> h_align node"
  have "unlink_loop ?P (hdrs q) (Some n) None =
      Some (Inr ((hdrs q)(n \<mapsto> h\<lparr>h_next := None\<rparr>), Some n, h_next h))"
    using assms by (subst unlink_loop.simps) (simp add: Let_def)
  then show ?thesis
    using assms(1) by (simp add: alloc_misc_def unlink_def deref_def ret_q_def lift_q_def Let_def bind_q_def)
qed

lemma alloc_misc_second:
  assumes "misc q = Some n" and "hdrs q n = Some h" and "\<not> (sz \<le> h_size h \<and> align \<le> h_align h)"
    and "h_next h = Some m" and "m \<noteq> n" and "hdrs q m = Some g" and "sz \<le> h_size g \<and> align \<le> h_align g"
  shows "\<exists>q' x. alloc_misc q sz align = ret_q q' (Some (h_addr g)) \<and> misc q' = Some m \<and>
    hdrs q' m = Some (g\<lparr>h_next := x\<rparr>)"
proof -
  let ?P = "\<lambda>node. sz \<le> h_size node \<and> align \<le> h_align node"
  let ?hs = "(hdrs q)(m \<mapsto> g\<lparr>h_next := None\<rparr>, n \<mapsto> h\<lparr>h_next := h_next g\<rparr>)"
  have "unlink_loop ?P (hdrs q) (Some n) None = Some (Inr (?hs, Some m, Some m))"
    using assms by (subst unlink_loop.simps, simp, subst unlink_loop.simps, simp add: Let_def)
  then show ?thesis
    using assms(1,5)
    by (simp add: alloc_misc_def unlink_def deref_def ret_q_def lift_q_def Let_def bind_q_def) blast
qed

section \<open>Large requests\<close>

lemma large_alloc_quick:
  assumes "MAX_QUICK_SIZE < l_size l" and "misc q = None"
  shows "adjust l = Inr (l_size l, l_align l)"
    and "alloc_quick q (l_size l) (l_align l) = ret_q q None"
proof -
  show "adjust l = Inr (l_size l, l_align l)" using assms(1) by (simp add: adjust_def)
  have "alloc_misc q (l_size l) (l_align l) = ret_q (q\<lparr>misc := None\<rparr>) None"
    using assms(2) by (intro alloc_misc_none [of _ "[]"]) auto
  moreover have "q\<lparr>misc := None\<rparr> = q" using assms(2) by (cases q) simp
  ultimately show "alloc_quick q (l_size l) (l_align l) = ret_q q None"
    using assms(1) leD by (auto simp: alloc_quick_def)
qed

lemma malloc_large:
  assumes "MAX_QUICK_SIZE < l_size l" and "misc q = None"
  shows "malloc q l = bind_q (alloc_tail q (l_size l) (l_align l)) (\<lambda>q r. ret_q q (case r of None \<Rightarrow> 0 | Some x \<Rightarrow> x))"
  using large_alloc_quick [OF assms] by (simp add: malloc_def)

section \<open>A heap\<close>

definition heap0 :: QuickFit where
  "heap0 = QuickFit_new (BumpAlloc_new (new_from_raw_parts 0x100000 GLOBAL_HEAP_SIZE))"

text \<open>Two requests in a row, and the addresses they return.\<close>

definition malloc_two :: "QuickFit \<Rightarrow> Layout \<Rightarrow> Layout \<Rightarrow> (usize \<times> usize) option" where
  "malloc_two q l l' =
     (case bind_q (malloc q l) (\<lambda>q1 a. bind_q (malloc q1 l') (\<lambda>q2 c. ret_q q2 (a, c))) of
        Some (Inr (_, r)) \<Rightarrow> Some r
      | _ \<Rightarrow> None)"

lemma malloc_two_elim:
  assumes "malloc_two q l l' = Some (a, c)"
  shows "\<exists>q1 q2. malloc q l = Some (Inr (q1, a)) \<and> malloc q1 l' = Some (Inr (q2, c))"
  using assms by (auto simp: malloc_two_def bind_q_def ret_q_def split: option.splits sum.splits)

section \<open>Properties\<close>

text \<open>
  C33. Quick lists are stacks that give back what was freed: freeing a block of a quick class, at
  a non-null address aligned to 64, succeeds, and the next request with the same layout returns
  that block and leaves the lists as they were before the free.
\<close>

theorem free_malloc_roundtrip:
  assumes "adjust l = Inr (c, c)" and "l_size l \<le> MAX_QUICK_SIZE" and "length (qlists q) = NUM_QLISTS"
    and "b \<noteq> 0" and "align_offset b 64 = Inr 0"
  shows "\<exists>q1 q2. free q b l = Some (Inr (q1, ())) \<and> malloc q1 l = Some (Inr (q2, b)) \<and>
    qlists q2 = qlists q \<and> misc q2 = misc q \<and> tail q2 = tail q \<and> allocated_misc q2 = allocated_misc q"
proof -
  obtain k where k: "6 \<le> k" "k \<le> 14" "adjust l = Inr (2 ^ k, max (l_align l) (2 ^ k))"
    by (rule adjust_quick [OF assms(2)])
  then have a: "adjust l = Inr (2 ^ k, 2 ^ k)" using assms(1) by simp
  let ?q = "q\<lparr>hdrs := (hdrs q)(b \<mapsto> Header_new b (2 ^ k) (2 ^ k) (qlists q ! (k - 6))),
             qlists := (qlists q)[k - 6 := Some b]\<rparr>"
  have f: "free q b l = ret_q ?q ()"
    unfolding free_def by (rule free_quick_eq [OF a k(1,2) assms(3-5)])
  have len: "k - 6 < length (qlists q)" using k assms(3) by (simp add: NUM_QLISTS_def ALLOC_UNIT_SHIFT_def)
  have "malloc ?q l = ret_q (?q\<lparr>hdrs := (hdrs ?q)(b \<mapsto> (Header_new b (2 ^ k) (2 ^ k) (qlists q ! (k - 6)))\<lparr>h_next := None\<rparr>),
      qlists := (qlists ?q)[k - 6 := qlists q ! (k - 6)]\<rparr>) b"
    using malloc_quick_eq [OF a k(1,2), of ?q b] assms(3) len by (simp add: Header_new_def)
  then show ?thesis using f len by (simp add: ret_q_def)
qed

theorem free_malloc_roundtrip_witness:
  "\<exists>q1 q2. free heap0 0x140000 \<lparr>l_size = 100, l_align = 8\<rparr> = Some (Inr (q1, ())) \<and>
     malloc q1 \<lparr>l_size = 100, l_align = 8\<rparr> = Some (Inr (q2, 0x140000))"
proof -
  have "adjust \<lparr>l_size = 100, l_align = 8\<rparr> = Inr (128, 128)" "l_size \<lparr>l_size = 100, l_align = 8\<rparr> \<le> MAX_QUICK_SIZE"
      "length (qlists heap0) = NUM_QLISTS" "(0x140000 :: usize) \<noteq> 0" "align_offset 0x140000 64 = Inr 0"
    by code_simp+
  from free_malloc_roundtrip [OF this] show ?thesis by blast
qed



text \<open>
  The bump allocator: for an alignment that is a power of two, with no overflow at the top of
  the address space, it skips fewer bytes than the alignment, returns the skipped prefix and an
  aligned block of the requested size directly behind it, and moves the cursor to the block's
  end, or changes nothing when the block does not fit.
\<close>

theorem try_alloc_exact:
  assumes "is_power_of_two align" and "unat (bk_ptr (arena a)) + unat (bk_len (arena a)) < 2 ^ 64"
    and "cursor a \<le> bk_len (arena a)" and "unat (bk_len (arena a)) + unat align + unat sz < 2 ^ 64"
  shows "\<exists>adj. adj < align \<and> unat align dvd (unat (bk_ptr (arena a)) + unat (cursor a) + unat adj) \<and>
    (if unat (cursor a) + unat adj + unat sz \<le> unat (bk_len (arena a))
     then \<exists>c. try_alloc a align sz = Inr (a\<lparr>cursor := c\<rparr>,
          Some (new_from_raw_parts (bk_ptr (arena a) + cursor a) adj,
                new_from_raw_parts (bk_ptr (arena a) + cursor a + adj) sz)) \<and>
        unat c = unat (cursor a) + unat adj + unat sz
     else try_alloc a align sz = Inr (a, None))"
  by (rule try_alloc_eq [OF assms]) blast

theorem try_alloc_exact_witness:
  "\<exists>adj :: usize. adj < 64 \<and> unat (64 :: usize) dvd (0x100000 + 10 + unat adj) \<and>
     try_alloc \<lparr>arena = \<lparr>bk_ptr = 0x100000, bk_len = 4096\<rparr>, cursor = 10\<rparr> 64 100 \<noteq>
       Inr (\<lparr>arena = \<lparr>bk_ptr = 0x100000, bk_len = 4096\<rparr>, cursor = 10\<rparr>, None)"
proof -
  let ?a = "\<lparr>arena = \<lparr>bk_ptr = 0x100000, bk_len = 4096\<rparr>, cursor = 10\<rparr> :: BumpAlloc"
  have "is_power_of_two (64 :: usize)" by code_simp
  moreover have "unat (bk_ptr (arena ?a)) + unat (bk_len (arena ?a)) < 2 ^ 64" "cursor ?a \<le> bk_len (arena ?a)"
      "unat (bk_len (arena ?a)) + unat (64 :: usize) + unat (100 :: usize) < 2 ^ 64"
    by simp_all
  ultimately obtain adj :: usize where adj: "adj < 64" "unat (64 :: usize) dvd (unat (bk_ptr (arena ?a)) + unat (cursor ?a) + unat adj)"
    and r: "if unat (cursor ?a) + unat adj + unat (100 :: usize) \<le> unat (bk_len (arena ?a))
      then \<exists>c. try_alloc ?a 64 100 = Inr (?a\<lparr>cursor := c\<rparr>,
          Some (new_from_raw_parts (bk_ptr (arena ?a) + cursor ?a) adj,
                new_from_raw_parts (bk_ptr (arena ?a) + cursor ?a + adj) 100)) \<and>
        unat c = unat (cursor ?a) + unat adj + unat (100 :: usize)
      else try_alloc ?a 64 100 = Inr (?a, None)"
    using try_alloc_exact [of 64 ?a 100] by blast
  have "unat adj < 64" using adj(1) by (simp add: word_less_nat_alt)
  then have "unat (cursor ?a) + unat adj + unat (100 :: usize) \<le> unat (bk_len (arena ?a))" by simp
  then obtain c where "try_alloc ?a 64 100 = Inr (?a\<lparr>cursor := c\<rparr>,
          Some (new_from_raw_parts (bk_ptr (arena ?a) + cursor ?a) adj,
                new_from_raw_parts (bk_ptr (arena ?a) + cursor ?a + adj) 100))"
    using r by (simp only: if_True) (elim exE conjE, rule that)
  then have "try_alloc ?a 64 100 \<noteq> Inr (?a, None)" by simp
  moreover have "unat (64 :: usize) dvd (0x100000 + 10 + unat adj)" using adj(2) by simp
  ultimately show ?thesis using adj(1) by blast
qed

text \<open>
  A first-fit search that finds nothing loses the free blocks: when no block on the list of
  freed large blocks is big enough, the search returns nothing and the list is empty afterwards,
  so its blocks are never handed out again.
\<close>

theorem alloc_misc_loses_list:
  assumes "linked (hdrs q) (misc q) ns"
    and "\<forall>n \<in> set ns. \<forall>h. hdrs q n = Some h \<longrightarrow> \<not> (sz \<le> h_size h \<and> align \<le> h_align h)"
  shows "\<exists>q'. alloc_misc q sz align = Some (Inr (q', None)) \<and> misc q' = None \<and> hdrs q' = hdrs q"
  using alloc_misc_none [OF assms] by (simp add: ret_q_def)

definition misc_heap :: QuickFit where
  "misc_heap = heap0\<lparr>misc := Some 0x200000,
     hdrs := [0x200000 \<mapsto> Header_new 0x200040 20000 64 (Some 0x300000),
              0x300000 \<mapsto> Header_new 0x300040 40000 64 None]\<rparr>"

theorem alloc_misc_loses_list_witness:
  "\<exists>q'. alloc_misc misc_heap 50000 64 = Some (Inr (q', None)) \<and> misc misc_heap = Some 0x200000 \<and> misc q' = None"
proof -
  have "linked (hdrs misc_heap) (misc misc_heap) [0x200000, 0x300000]"
    by (simp add: misc_heap_def Header_new_def)
  moreover have "\<forall>n \<in> set [0x200000, 0x300000]. \<forall>h. hdrs misc_heap n = Some h \<longrightarrow> \<not> (50000 \<le> h_size h \<and> 64 \<le> h_align h)"
    by (simp add: misc_heap_def Header_new_def)
  ultimately show ?thesis using alloc_misc_loses_list [of misc_heap "[0x200000, 0x300000]"]
    by (auto simp: misc_heap_def)
qed

text \<open>
  A first-fit search can hand out one block twice: when the first block on the list is too
  small and the second fits, the second stays the head of the list, and the same request made
  again returns the same address while the first one is still in use.
\<close>

theorem alloc_misc_twice:
  assumes "misc q = Some n" and "hdrs q n = Some h" and "\<not> (sz \<le> h_size h \<and> align \<le> h_align h)"
    and "h_next h = Some m" and "m \<noteq> n" and "hdrs q m = Some g" and "sz \<le> h_size g \<and> align \<le> h_align g"
  shows "\<exists>q1 q2. alloc_misc q sz align = Some (Inr (q1, Some (h_addr g))) \<and>
    alloc_misc q1 sz align = Some (Inr (q2, Some (h_addr g)))"
proof -
  obtain q1 x where 1: "alloc_misc q sz align = ret_q q1 (Some (h_addr g))" "misc q1 = Some m"
      "hdrs q1 m = Some (g\<lparr>h_next := x\<rparr>)"
    using alloc_misc_second [OF assms] by blast
  obtain q2 where 2: "alloc_misc q1 sz align = ret_q q2 (Some (h_addr (g\<lparr>h_next := x\<rparr>)))"
    using alloc_misc_first [OF 1(2,3), of sz align] assms(7) by auto
  show ?thesis using 1(1) 2 by (simp add: ret_q_def)
qed

theorem alloc_misc_twice_witness:
  "\<exists>q1 q2. alloc_misc misc_heap 30000 64 = Some (Inr (q1, Some 0x300040)) \<and>
     alloc_misc q1 30000 64 = Some (Inr (q2, Some 0x300040))"
  using alloc_misc_twice [of misc_heap "0x200000" "Header_new 0x200040 20000 64 (Some 0x300000)" 30000 64 "0x300000"
      "Header_new 0x300040 40000 64 None"]
  by (simp add: misc_heap_def Header_new_def)

text \<open>
  Above the quick sizes, size and alignment reach the bump allocator exchanged.  With no
  freed large block, a request whose size is not a power of two panics; any other request that
  is granted gets a block of only \<open>l_align\<close> bytes.
\<close>

theorem large_request_swapped:
  assumes "MAX_QUICK_SIZE < l_size l" and "misc q = None"
  shows "if is_power_of_two (l_size l)
    then \<forall>q' p. malloc q l = Some (Inr (q', p)) \<longrightarrow> p \<noteq> 0 \<longrightarrow>
      (\<exists>t prefix. try_alloc (tail q) (l_size l) (l_align l) = Inr (t, Some (prefix, new_from_raw_parts p (l_align l))))
    else malloc q l = Some (Inl Assertion_Failed)"
proof (cases "is_power_of_two (l_size l)")
  case True
  have "\<exists>t prefix. try_alloc (tail q) (l_size l) (l_align l) = Inr (t, Some (prefix, new_from_raw_parts p (l_align l)))"
    if m: "malloc q l = Some (Inr (q', p))" and p: "p \<noteq> 0" for q' p
  proof (cases "try_alloc (tail q) (l_size l) (l_align l)")
    case (Inr r)
    then obtain t o' where r: "try_alloc (tail q) (l_size l) (l_align l) = Inr (t, o')" by (cases r) simp
    show ?thesis
    proof (cases o')
      case None
      then show ?thesis using m p r by (simp add: malloc_large [OF assms] alloc_tail_def ret_q_def)
    next
      case (Some pb)
      then obtain prefix block where pb: "pb = (prefix, block)" by (cases pb)
      have "bk_ptr block = p"
        using m r Some pb
        by (auto simp: malloc_large [OF assms] alloc_tail_def ret_q_def bind_q_def split: option.splits sum.splits)
      moreover have "bk_len block = l_align l"
        using r Some pb unfolding try_alloc_def Let_def
        by (auto simp: bind_r_def new_from_raw_parts_def split: sum.splits if_splits)
      ultimately have "block = new_from_raw_parts p (l_align l)" by (cases block) (simp add: new_from_raw_parts_def)
      then show ?thesis using r Some pb by simp
    qed
  qed (use m in \<open>simp add: malloc_large [OF assms] alloc_tail_def\<close>)
  then show ?thesis using True by simp
next
  case False
  then have "try_alloc (tail q) (l_size l) (l_align l) = Inl Assertion_Failed"
    by (simp add: try_alloc_def align_offset_def)
  then show ?thesis using False by (simp add: malloc_large [OF assms] alloc_tail_def)
qed

theorem large_request_swapped_witness:
  "malloc heap0 \<lparr>l_size = 20000, l_align = 4096\<rparr> = Some (Inl Assertion_Failed)"
proof -
  have "MAX_QUICK_SIZE < l_size \<lparr>l_size = 20000, l_align = 4096\<rparr>" "misc heap0 = None"
      "\<not> is_power_of_two (l_size \<lparr>l_size = 20000, l_align = 4096\<rparr>)"
    by code_simp+
  from large_request_swapped [OF this(1,2)] this(3) show ?thesis by simp
qed

text \<open>
  Large blocks overlap later ones: on a fresh heap, a request for 32768 bytes aligned to 8
  succeeds, and a request for 64 bytes after it returns an address inside the first block.
\<close>

theorem large_blocks_overlap:
  "\<exists>q1 a q2 c. malloc heap0 \<lparr>l_size = 32768, l_align = 8\<rparr> = Some (Inr (q1, a)) \<and>
     malloc q1 \<lparr>l_size = 64, l_align = 64\<rparr> = Some (Inr (q2, c)) \<and> a \<le> c \<and> c + 64 \<le> a + 32768"
proof -
  have "malloc_two heap0 \<lparr>l_size = 32768, l_align = 8\<rparr> \<lparr>l_size = 64, l_align = 64\<rparr> = Some (0x100000, 0x100040)"
    by code_simp
  from malloc_two_elim [OF this] show ?thesis by fastforce
qed

text \<open>
  Freeing a large block for the first time panics: when no header for the block is found
  and the heap can still allocate one, the allocated header is taken for a failure.
\<close>

theorem free_large_panics:
  assumes "b \<noteq> 0" and "MAX_QUICK_SIZE < l_size l" and "linked (hdrs q) (allocated_misc q ! unat (hash b)) ns"
    and "\<forall>n \<in> set ns. \<forall>h. hdrs q n = Some h \<longrightarrow> h_addr h \<noteq> b"
    and "malloc (q\<lparr>allocated_misc := (allocated_misc q)[unat (hash b) := None]\<rparr>) header_layout = Some (Inr (q', hp))"
    and "hp \<noteq> 0"
  shows "free q b l = Some (Inl Unwrap_Failed)"
proof -
  have "adjust l = Inr (l_size l, l_align l)" using assms(2) by (simp add: adjust_def)
  moreover have "unlink_allocated_misc q b =
      ret_q (q\<lparr>allocated_misc := (allocated_misc q)[unat (hash b) := None]\<rparr>) None"
    using unlink_loop_none [OF assms(3), of "\<lambda>node. h_addr node = b"] assms(4)
    by (simp add: unlink_allocated_misc_def unlink_def Let_def ret_q_def)
  ultimately show ?thesis
    using assms(1,2,5,6) leD by (auto simp: free_def free_with_def free_misc_def new_misc_header_def)
qed

theorem free_large_panics_witness:
  "free heap0 0x140000 \<lparr>l_size = 32768, l_align = 8\<rparr> = Some (Inl Unwrap_Failed)"
proof -
  have empty: "(allocated_misc heap0)[unat (hash 0x140000) := None] = allocated_misc heap0"
      "allocated_misc heap0 ! unat (hash 0x140000) = None"
    by code_simp+
  then have same: "heap0\<lparr>allocated_misc := (allocated_misc heap0)[unat (hash 0x140000) := None]\<rparr> = heap0"
    by (cases heap0) simp
  have "malloc_two heap0 header_layout header_layout = Some (0x100000, 0x100040)" by code_simp
  then obtain q' where q': "malloc heap0 header_layout = Some (Inr (q', 0x100000))"
    using malloc_two_elim by blast
  show ?thesis
  proof (rule free_large_panics)
    show "linked (hdrs heap0) (allocated_misc heap0 ! unat (hash 0x140000)) []" using empty(2) by simp
    show "malloc (heap0\<lparr>allocated_misc := (allocated_misc heap0)[unat (hash 0x140000) := None]\<rparr>) header_layout
        = Some (Inr (q', 0x100000))" unfolding same by (rule q')
  qed (simp_all add: MAX_QUICK_SIZE_def)
qed

end
