(* ===== verification/Quick_Fit_Heap.thy ===== *)
theory Quick_Fit_Heap
  imports Quick_Fit_Correct
begin

text \<open>
  Memory safety of the heap for the sizes served by the quick lists: the blocks on the lists and
  the blocks in use are pairwise disjoint parts of the used arena, for every sequence of requests.
\<close>

section \<open>Blocks and the invariant\<close>

text \<open>A block is an address and the index of its quick list.\<close>

definition brange :: "usize \<times> nat \<Rightarrow> nat set" where
  "brange x = {unat (fst x)..<unat (fst x) + 2 ^ (snd x + 6)}"

text \<open>The nodes of a quick list; the header of a node names its own address.\<close>

fun qchain :: "(usize \<Rightarrow> Header option) \<Rightarrow> usize option \<Rightarrow> usize list \<Rightarrow> bool" where
  "qchain hs p [] \<longleftrightarrow> p = None"
| "qchain hs p (n # ns) \<longleftrightarrow> p = Some n \<and> (\<exists>h. hs n = Some h \<and> h_addr h = n \<and> qchain hs (h_next h) ns)"

definition free_blocks :: "(nat \<Rightarrow> usize list) \<Rightarrow> (usize \<times> nat) set" where
  "free_blocks fl = {(n, k). k < 9 \<and> n \<in> set (fl k)}"

definition used_arena :: "QuickFit \<Rightarrow> nat set" where
  "used_arena q = {unat (bk_ptr (arena (tail q)))..<unat (bk_ptr (arena (tail q))) + unat (cursor (tail q))}"

definition blocks_ok :: "nat set \<Rightarrow> (usize \<times> nat) set \<Rightarrow> bool" where
  "blocks_ok R B \<longleftrightarrow>
     (\<forall>x \<in> B. snd x < 9 \<and> 2 ^ (snd x + 6) dvd unat (fst x) \<and> brange x \<subseteq> R) \<and>
     (\<forall>x \<in> B. \<forall>y \<in> B. x \<noteq> y \<longrightarrow> brange x \<inter> brange y = {})"

definition tail_ok :: "BumpAlloc \<Rightarrow> bool" where
  "tail_ok t \<longleftrightarrow> bk_ptr (arena t) \<noteq> 0 \<and> unat (bk_ptr (arena t)) + unat (bk_len (arena t)) + 2 ^ 15 < 2 ^ 64 \<and>
     cursor t \<le> bk_len (arena t)"

definition heap_inv :: "QuickFit \<Rightarrow> (usize \<times> nat) set \<Rightarrow> (nat \<Rightarrow> usize list) \<Rightarrow> bool" where
  "heap_inv q live fl \<longleftrightarrow>
     length (qlists q) = NUM_QLISTS \<and> tail_ok (tail q) \<and>
     (\<forall>k < 9. qchain (hdrs q) (qlists q ! k) (fl k) \<and> distinct (fl k)) \<and>
     free_blocks fl \<inter> live = {} \<and> blocks_ok (used_arena q) (free_blocks fl \<union> live)"

lemma NUM_QLISTS_9 [simp]: "NUM_QLISTS = 9"
  by (simp add: NUM_QLISTS_def ALLOC_UNIT_SHIFT_def)

lemma qchain_cong: "(\<And>n. n \<in> set ns \<Longrightarrow> hs n = hs' n) \<Longrightarrow> qchain hs p ns = qchain hs' p ns"
  by (induction ns arbitrary: p) auto

lemma addr_in_brange: "unat (fst x) \<in> brange x"
  by (simp add: brange_def)

lemma blocks_ok_insert:
  assumes "blocks_ok R B" and "snd x < 9" and "2 ^ (snd x + 6) dvd unat (fst x)" and "brange x \<subseteq> R"
    and "\<And>y. y \<in> B \<Longrightarrow> brange x \<inter> brange y = {}"
  shows "blocks_ok R (insert x B)"
  using assms unfolding blocks_ok_def by (auto simp: Int_commute)

lemma blocks_ok_mono: "blocks_ok R B \<Longrightarrow> B' \<subseteq> B \<Longrightarrow> R \<subseteq> R' \<Longrightarrow> blocks_ok R' B'"
  unfolding blocks_ok_def by blast

lemma free_blocks_upd:
  "k < 9 \<Longrightarrow> free_blocks (fl(k := b # ns)) = insert (b, k) (free_blocks (fl(k := ns)))"
  by (auto simp: free_blocks_def split: if_splits)

text \<open>An address of a free block determines the block.\<close>

lemma blocks_addr_unique:
  assumes "blocks_ok R B" and "x \<in> B" and "y \<in> B" and "fst x = fst y"
  shows "x = y"
proof (rule ccontr)
  assume "x \<noteq> y"
  then have "brange x \<inter> brange y = {}" using assms unfolding blocks_ok_def by blast
  then show False using addr_in_brange [of x] addr_in_brange [of y] assms(4) by auto
qed

section \<open>Freeing and taking blocks\<close>

lemma class_pow2: "k < 9 \<Longrightarrow> unat (2 ^ (k + 6) :: usize) = 2 ^ (k + 6)"
  by (rule unat_pow2) simp

lemma align_offset_zero:
  assumes "is_power_of_two align"
  obtains r where "align_offset p align = Inr r" and "r = 0 \<longleftrightarrow> unat align dvd unat p"
proof -
  obtain r where r: "align_offset p align = Inr r" "r < align" "unat align dvd (unat p + unat r)"
    by (rule align_offset_eq [OF assms])
  have "r = 0 \<longleftrightarrow> unat align dvd unat p"
  proof
    assume "unat align dvd unat p"
    then have "unat align dvd unat r" using r(3) by (simp add: dvd_add_right_iff)
    moreover have "unat r < unat align" using r(2) by (simp add: word_less_nat_alt)
    ultimately have "unat r = 0" using nat_dvd_not_less by blast
    then show "r = 0" by (simp add: unat_eq_0)
  qed (use r in auto)
  then show thesis using that r(1) by blast
qed

lemma heap_inv_push:
  assumes inv: "heap_inv q live fl" and k: "k < 9" and al: "2 ^ (k + 6) dvd unat b" and b: "b \<noteq> 0"
    and R: "brange (b, k) \<subseteq> used_arena q" and dj: "\<And>y. y \<in> free_blocks fl \<union> live \<Longrightarrow> brange (b, k) \<inter> brange y = {}"
    and adj: "adjust l = Inr (2 ^ (k + 6), 2 ^ (k + 6))"
  shows "\<exists>q'. free_with h q b l = ret_q q' () \<and> heap_inv q' live (fl(k := b # fl k)) \<and> tail q' = tail q"
proof -
  let ?q = "q\<lparr>hdrs := (hdrs q)(b \<mapsto> Header_new b (2 ^ (k + 6)) (2 ^ (k + 6)) (qlists q ! k)),
             qlists := (qlists q)[k := Some b]\<rparr>"
  let ?fl = "fl(k := b # fl k)"
  have len: "length (qlists q) = 9" using inv by (simp add: heap_inv_def)
  have "(2 :: nat) ^ 6 dvd 2 ^ (k + 6)" by (rule le_imp_power_dvd) simp
  then have "64 dvd unat b" using al dvd_trans by fastforce
  moreover obtain r where r: "align_offset b 64 = Inr r" "r = 0 \<longleftrightarrow> unat (64 :: usize) dvd unat b"
    by (rule align_offset_zero [of 64 b]) (auto simp: is_power_of_two_iff intro: exI [of _ 6])
  ultimately have "align_offset b 64 = Inr 0" by simp
  then have f: "free_with h q b l = ret_q ?q ()"
    using free_quick_eq [OF adj, of q b h] k b len by simp
  have new: "b \<notin> set (fl j)" if "j < 9" for j
  proof
    assume "b \<in> set (fl j)"
    then have "brange (b, k) \<inter> brange (b, j) = {}" using dj [of "(b, j)"] that by (simp add: free_blocks_def)
    then show False using addr_in_brange [of "(b, k)"] addr_in_brange [of "(b, j)"] by auto
  qed
  have "(b, k) \<notin> free_blocks fl \<union> live" using dj [of "(b, k)"] addr_in_brange [of "(b, k)"] by auto
  then have "free_blocks ?fl \<inter> live = {}" using inv by (auto simp: free_blocks_upd [OF k] heap_inv_def)
  moreover have "qchain (hdrs ?q) (qlists ?q ! j) (?fl j) \<and> distinct (?fl j)" if j: "j < 9" for j
  proof -
    have "qchain (hdrs ?q) p (fl j) = qchain (hdrs q) p (fl j)" for p
      using new [OF j] by (intro qchain_cong) auto
    then show ?thesis using inv j len new [OF j] by (auto simp: heap_inv_def Header_new_def)
  qed
  moreover have "blocks_ok (used_arena ?q) (free_blocks ?fl \<union> live)"
    using blocks_ok_insert [of "used_arena q" "free_blocks fl \<union> live" "(b, k)"] inv k al R dj
    by (simp add: free_blocks_upd [OF k] heap_inv_def used_arena_def)
  ultimately have "heap_inv ?q live ?fl" using inv len by (simp add: heap_inv_def)
  then show ?thesis using f by auto
qed

lemma heap_inv_pop:
  assumes inv: "heap_inv q live fl" and k: "k < 9" and fl: "fl k = b # ns"
    and adj: "adjust l = Inr (2 ^ (k + 6), 2 ^ (k + 6))"
  shows "\<exists>q'. malloc q l = ret_q q' b \<and> heap_inv q' (insert (b, k) live) (fl(k := ns)) \<and> tail q' = tail q"
proof -
  have len: "length (qlists q) = 9" and ch: "qchain (hdrs q) (qlists q ! k) (b # ns)" and d: "distinct (b # ns)"
    using inv k by (auto simp: heap_inv_def fl [symmetric])
  then obtain h where h: "hdrs q b = Some h" "h_addr h = b" "qchain (hdrs q) (h_next h) ns" "qlists q ! k = Some b"
    by auto
  let ?q = "q\<lparr>hdrs := (hdrs q)(b \<mapsto> h\<lparr>h_next := None\<rparr>), qlists := (qlists q)[k := h_next h]\<rparr>"
  let ?fl = "fl(k := ns)"
  have m: "malloc q l = ret_q ?q b" using malloc_quick_eq [OF adj, of q b h] h k len by simp
  have ok: "blocks_ok (used_arena q) (free_blocks fl \<union> live)" using inv by (simp add: heap_inv_def)
  have bk: "(b, k) \<in> free_blocks fl" using fl k by (simp add: free_blocks_def)
  have other: "b \<notin> set (?fl j)" if "j < 9" for j
  proof
    assume a: "b \<in> set (?fl j)"
    then have "(b, j) \<in> free_blocks fl" using that fl by (auto simp: free_blocks_def split: if_splits)
    then have "j = k" using blocks_addr_unique [OF ok, of "(b, j)" "(b, k)"] bk by simp
    then show False using a d by simp
  qed
  have "qchain (hdrs ?q) (qlists ?q ! j) (?fl j) \<and> distinct (?fl j)" if j: "j < 9" for j
  proof -
    have "qchain (hdrs ?q) p (?fl j) = qchain (hdrs q) p (?fl j)" for p
      using other [OF j] by (intro qchain_cong) auto
    then show ?thesis using inv j len h d by (auto simp: heap_inv_def)
  qed
  moreover have fb: "free_blocks fl = insert (b, k) (free_blocks ?fl)"
    using free_blocks_upd [OF k, of fl b ns] fl by (metis fun_upd_triv)
  then have "free_blocks ?fl \<union> insert (b, k) live = free_blocks fl \<union> live" by auto
  moreover have "(b, k) \<notin> free_blocks ?fl" using other [OF k] by (auto simp: free_blocks_def)
  then have "free_blocks ?fl \<inter> insert (b, k) live = {}" using inv fb by (auto simp: heap_inv_def)
  ultimately have "heap_inv ?q (insert (b, k) live) ?fl"
    using inv len by (simp add: heap_inv_def used_arena_def)
  then show ?thesis using m by auto
qed

section \<open>Freeing the prefix of a tail allocation\<close>

text \<open>Free space: part of the used arena that overlaps no block.\<close>

definition spare :: "QuickFit \<Rightarrow> (usize \<times> nat) set \<Rightarrow> nat \<Rightarrow> nat \<Rightarrow> bool" where
  "spare q B from n \<longleftrightarrow> {from..<from + n} \<subseteq> used_arena q \<and> (\<forall>y \<in> B. {from..<from + n} \<inter> brange y = {})"

lemma class_layout: "k < 9 \<Longrightarrow> layout_from_size_align (2 ^ (k + 6)) (2 ^ (k + 6)) = Some \<lparr>l_size = 2 ^ (k + 6), l_align = 2 ^ (k + 6)\<rparr>"
proof -
  assume k: "k < 9"
  have "uint (2 ^ (k + 6) :: usize) = 2 ^ (k + 6)"
    using class_pow2 [OF k] by (metis of_nat_numeral of_nat_power uint_nat)
  moreover have "(2 :: int) ^ (k + 6) \<le> 2 ^ 14" using k by (intro power_increasing) auto
  ultimately show ?thesis
    using k is_power_of_two_pow [of "k + 6"] by (simp add: layout_from_size_align_def)
qed

lemma used_arena_bound:
  assumes "tail_ok (tail q)" and "n \<in> used_arena q"
  shows "0 < n \<and> n < 2 ^ 64"
proof -
  have "0 < unat (bk_ptr (arena (tail q)))" using assms(1) by (simp add: tail_ok_def unat_gt_0)
  then show ?thesis using assms by (auto simp: tail_ok_def used_arena_def word_le_nat_alt)
qed

lemma try_free_loop_step:
  assumes inv: "heap_inv q live fl" and k: "k < 9" and sp: "spare q (free_blocks fl \<union> live) (unat (bk_ptr p)) (unat (bk_len p))"
    and fit: "2 ^ (k + 6) \<le> unat (bk_len p)" and al: "2 ^ (k + 6) dvd unat (bk_ptr p)"
  shows "\<exists>q' fl'. try_free_loop q p (k # ks) = ret_q q'
      (if MIN_ALLOC_SIZE \<le> bk_len p - 2 ^ (k + 6)
       then Some (new_from_raw_parts (bk_ptr p + 2 ^ (k + 6)) (bk_len p - 2 ^ (k + 6))) else None) \<and>
    heap_inv q' live fl' \<and> tail q' = tail q \<and>
    spare q' (free_blocks fl' \<union> live) (unat (bk_ptr p) + 2 ^ (k + 6)) (unat (bk_len p) - 2 ^ (k + 6))"
proof -
  let ?s = "2 ^ (k + 6) :: usize"
  have us: "unat ?s = 2 ^ (k + 6)" by (rule class_pow2 [OF k])
  have pos: "(0 :: nat) < 2 ^ (k + 6)" by simp
  have in_R: "unat (bk_ptr p) \<in> used_arena q"
    using sp fit pos unfolding spare_def by (metis atLeastLessThan_iff le_add1 le_trans less_add_same_cancel1 less_le_trans order_refl subsetD)
  then have nz: "bk_ptr p \<noteq> 0"
    using used_arena_bound [of q] inv by (fastforce simp: heap_inv_def)
  obtain r where r: "align_offset (bk_ptr p) ?s = Inr r" "r = 0 \<longleftrightarrow> unat ?s dvd unat (bk_ptr p)"
    by (rule align_offset_zero [OF is_power_of_two_pow, of "k + 6" "bk_ptr p"]) (use k in simp)
  then have ao: "align_offset (bk_ptr p) ?s = Inr 0" using al us by simp
  have le: "?s \<le> bk_len p" using fit us by (simp add: word_le_nat_alt)
  have sub: "brange (bk_ptr p, k) \<subseteq> {unat (bk_ptr p)..<unat (bk_ptr p) + unat (bk_len p)}"
    using fit by (auto simp: brange_def)
  have "\<exists>q'. free_with (\<lambda>_ _ _ _. Some (Inl Undefined_Behaviour)) q (bk_ptr p) \<lparr>l_size = ?s, l_align = ?s\<rparr> = ret_q q' () \<and>
      heap_inv q' live (fl(k := bk_ptr p # fl k)) \<and> tail q' = tail q"
  proof (rule heap_inv_push [OF inv k al nz])
    show "brange (bk_ptr p, k) \<subseteq> used_arena q" using sub sp by (auto simp: spare_def)
    show "brange (bk_ptr p, k) \<inter> brange y = {}" if "y \<in> free_blocks fl \<union> live" for y
      using sub sp that by (auto simp: spare_def)
    show "adjust \<lparr>l_size = ?s, l_align = ?s\<rparr> = Inr (?s, ?s)" using adjust_class [of "k + 6"] k by simp
  qed
  then obtain q' where q': "free_with (\<lambda>_ _ _ _. Some (Inl Undefined_Behaviour)) q (bk_ptr p) \<lparr>l_size = ?s, l_align = ?s\<rparr> = ret_q q' ()"
      "heap_inv q' live (fl(k := bk_ptr p # fl k))" "tail q' = tail q"
    by (elim exE conjE) (rule that)
  let ?fl = "fl(k := bk_ptr p # fl k)"
  have "spare q' (free_blocks ?fl \<union> live) (unat (bk_ptr p) + 2 ^ (k + 6)) (unat (bk_len p) - 2 ^ (k + 6))"
  proof -
    have "free_blocks ?fl \<union> live = insert (bk_ptr p, k) (free_blocks fl \<union> live)"
      using free_blocks_upd [OF k, of fl "bk_ptr p" "fl k"] by simp
    then show ?thesis using sp fit by (auto simp: spare_def used_arena_def q'(3) brange_def)
  qed
  moreover have "push_bit (k + ALLOC_UNIT_SHIFT) 1 = ?s" by (simp add: ALLOC_UNIT_SHIFT_def push_bit_eq_mult)
  then have "try_free_loop q p (k # ks) = ret_q q'
      (if MIN_ALLOC_SIZE \<le> bk_len p - ?s then Some (new_from_raw_parts (bk_ptr p + ?s) (bk_len p - ?s)) else None)"
    using le leD [OF le] ao class_layout [OF k] q'(1)
    by (simp add: split_at_mut_def Let_def) (simp add: new_from_raw_parts_def)
  ultimately show ?thesis using q'(2,3) by auto
qed

text \<open>A list index that does not fit or is not aligned is passed over.\<close>

lemma try_free_loop_skip:
  assumes "k < 9" and "\<not> (2 ^ (k + 6) \<le> unat (bk_len p) \<and> 2 ^ (k + 6) dvd unat (bk_ptr p))"
  shows "try_free_loop q p (k # ks) = try_free_loop q p ks"
proof -
  let ?s = "2 ^ (k + 6) :: usize"
  have us: "unat ?s = 2 ^ (k + 6)" by (rule class_pow2 [OF assms(1)])
  obtain r where r: "align_offset (bk_ptr p) ?s = Inr r" "r = 0 \<longleftrightarrow> unat ?s dvd unat (bk_ptr p)"
    by (rule align_offset_zero [OF is_power_of_two_pow, of "k + 6" "bk_ptr p"]) (use assms in simp)
  have "?s \<le> bk_len p \<longleftrightarrow> 2 ^ (k + 6) \<le> unat (bk_len p)" using us by (simp only: word_le_nat_alt)
  moreover have "push_bit (k + ALLOC_UNIT_SHIFT) 1 = ?s" by (simp add: ALLOC_UNIT_SHIFT_def push_bit_eq_mult)
  ultimately show ?thesis using r us assms(2) by (simp add: Let_def)
qed

lemma try_free_loop_none:
  assumes "\<forall>k \<in> set ks. k < 9" and "unat (bk_len p) < 64"
  shows "try_free_loop q p ks = ret_q q None"
  using assms(1)
proof (induction ks)
  case (Cons k ks)
  have "(2 :: nat) ^ 6 \<le> 2 ^ (k + 6)" by (rule power_increasing) auto
  then have "\<not> 2 ^ (k + 6) \<le> unat (bk_len p)" using assms(2) by simp
  then have "try_free_loop q p (k # ks) = try_free_loop q p ks"
    using Cons.prems by (intro try_free_loop_skip) auto
  then show ?case using Cons by simp
qed simp

lemma try_free_loop_some:
  assumes "heap_inv q live fl" and "spare q (free_blocks fl \<union> live) (unat (bk_ptr p)) (unat (bk_len p))"
    and "\<forall>k \<in> set ks. k < 9" and "0 \<in> set ks" and "64 \<le> unat (bk_len p)" and "64 dvd unat (bk_ptr p)"
  obtains k q' fl' where "k < 9" and "2 ^ (k + 6) \<le> unat (bk_len p)"
    and "try_free_loop q p ks = ret_q q'
      (if MIN_ALLOC_SIZE \<le> bk_len p - 2 ^ (k + 6)
       then Some (new_from_raw_parts (bk_ptr p + 2 ^ (k + 6)) (bk_len p - 2 ^ (k + 6))) else None)"
    and "heap_inv q' live fl'" and "tail q' = tail q"
    and "spare q' (free_blocks fl' \<union> live) (unat (bk_ptr p) + 2 ^ (k + 6)) (unat (bk_len p) - 2 ^ (k + 6))"
  using assms(3,4)
proof (induction ks arbitrary: thesis)
  case (Cons k ks)
  show ?case
  proof (cases "2 ^ (k + 6) \<le> unat (bk_len p) \<and> 2 ^ (k + 6) dvd unat (bk_ptr p)")
    case True
    then have "2 ^ (k + 6) \<le> unat (bk_len p)" "2 ^ (k + 6) dvd unat (bk_ptr p)" and k: "k < 9"
      using Cons.prems(2) by auto
    from try_free_loop_step [OF assms(1) k assms(2) this(1,2), of ks] show ?thesis
      by (elim exE conjE) (rule Cons.prems(1) [OF k conjunct1 [OF True]])
  next
    case False
    then have "k \<noteq> 0" using assms(5,6) by (cases k) auto
    then have prems: "\<forall>k \<in> set ks. k < 9" "0 \<in> set ks" using Cons.prems(2,3) by auto
    have "try_free_loop q p (k # ks) = try_free_loop q p ks"
      using False Cons.prems(2) by (intro try_free_loop_skip) auto
    then show ?thesis using Cons.IH [OF _ prems] Cons.prems(1) by (metis (no_types, lifting))
  qed
qed simp

lemma free_prefix_loop_ok:
  assumes "heap_inv q live fl" and "spare q (free_blocks fl \<union> live) (unat (bk_ptr p)) (unat (bk_len p))"
    and "64 dvd unat (bk_ptr p)"
  shows "\<exists>q' fl'. free_prefix_loop q p = ret_q q' () \<and> heap_inv q' live fl' \<and> tail q' = tail q"
  using assms
proof (induction "unat (bk_len p)" arbitrary: q p fl rule: less_induct)
  case less
  have ks: "\<forall>k \<in> set (rev [0..<NUM_QLISTS]). k < 9" "0 \<in> set (rev [0..<NUM_QLISTS])" by auto
  show ?case
  proof (cases "64 \<le> unat (bk_len p)")
    case False
    then have "try_free_prefix q p = ret_q q None"
      unfolding try_free_prefix_def by (intro try_free_loop_none [OF ks(1)]) simp
    then show ?thesis using less.prems(1) by (subst free_prefix_loop.simps) (auto simp: ret_q_def)
  next
    case True
    obtain k q' fl' where k: "k < 9" "2 ^ (k + 6) \<le> unat (bk_len p)"
      and t: "try_free_loop q p (rev [0..<NUM_QLISTS]) = ret_q q'
        (if MIN_ALLOC_SIZE \<le> bk_len p - 2 ^ (k + 6)
         then Some (new_from_raw_parts (bk_ptr p + 2 ^ (k + 6)) (bk_len p - 2 ^ (k + 6))) else None)"
      and q': "heap_inv q' live fl'" "tail q' = tail q"
        "spare q' (free_blocks fl' \<union> live) (unat (bk_ptr p) + 2 ^ (k + 6)) (unat (bk_len p) - 2 ^ (k + 6))"
      by (rule try_free_loop_some [OF less.prems(1,2) ks True less.prems(3)])
    have us: "unat (2 ^ (k + 6) :: usize) = 2 ^ (k + 6)" by (rule class_pow2 [OF k(1)])
    have ul: "unat (bk_len p - 2 ^ (k + 6)) = unat (bk_len p) - 2 ^ (k + 6)"
      using k(2) us by (simp only: word_le_nat_alt unat_sub)
    show ?thesis
    proof (cases "MIN_ALLOC_SIZE \<le> bk_len p - 2 ^ (k + 6)")
      case True
      let ?p = "new_from_raw_parts (bk_ptr p + 2 ^ (k + 6)) (bk_len p - 2 ^ (k + 6))"
      have pos: "0 < unat (bk_len p) - 2 ^ (k + 6)"
        using True ul by (simp add: MIN_ALLOC_SIZE_def ALLOC_UNIT_SHIFT_def word_le_nat_alt)
      then have "unat (bk_ptr p) + 2 ^ (k + 6) \<in> used_arena q'" using q'(3) by (auto simp: spare_def)
      then have "unat (bk_ptr p) + 2 ^ (k + 6) < 2 ^ 64"
        using used_arena_bound q'(1) unfolding heap_inv_def by blast
      then have up: "unat (bk_ptr p + 2 ^ (k + 6)) = unat (bk_ptr p) + 2 ^ (k + 6)"
        using unat_add_usize [of "bk_ptr p" "2 ^ (k + 6)"] us by simp
      have small: "unat (bk_len ?p) < unat (bk_len p)" using pos ul by (simp add: new_from_raw_parts_def)
      have sp: "spare q' (free_blocks fl' \<union> live) (unat (bk_ptr ?p)) (unat (bk_len ?p))"
        using q'(3) by (simp only: new_from_raw_parts_def up ul Block.select_convs)
      have "(2 :: nat) ^ 6 dvd 2 ^ (k + 6)" by (rule le_imp_power_dvd) simp
      then have al: "64 dvd unat (bk_ptr ?p)" using less.prems(3) up by (simp add: new_from_raw_parts_def)
      obtain q'' fl'' where "free_prefix_loop q' ?p = ret_q q'' ()" "heap_inv q'' live fl''" "tail q'' = tail q'"
        using less.hyps [OF small q'(1) sp al] by (elim exE conjE) (rule that)
      moreover have "try_free_prefix q p = Some (Inr (q', Some ?p))" using t True by (simp add: try_free_prefix_def ret_q_def)
      ultimately show ?thesis using q'(2) by (subst free_prefix_loop.simps) auto
    next
      case False
      then have "try_free_prefix q p = Some (Inr (q', None))" using t by (simp add: try_free_prefix_def ret_q_def)
      then show ?thesis using q'(1,2) by (subst free_prefix_loop.simps) (auto simp: ret_q_def)
    qed
  qed
qed

lemma free_prefix_ok:
  assumes inv: "heap_inv q live fl" and sp: "spare q (free_blocks fl \<union> live) (unat (bk_ptr p)) (unat (bk_len p))"
    and al: "64 dvd unat (bk_ptr p) + unat (bk_len p)" and ov: "unat (bk_ptr p) + unat (bk_len p) < 2 ^ 64"
  shows "\<exists>q' fl'. free_prefix q p = ret_q q' () \<and> heap_inv q' live fl' \<and> tail q' = tail q"
proof -
  have m: "MIN_ALLOC_SIZE = 64" by (simp add: MIN_ALLOC_SIZE_def ALLOC_UNIT_SHIFT_def)
  obtain r where r: "align_offset (bk_ptr p) 64 = Inr r" "r < 64" "unat (64 :: usize) dvd (unat (bk_ptr p) + unat r)"
    by (rule align_offset_eq [of 64 "bk_ptr p"]) (auto simp: is_power_of_two_iff intro: exI [of _ 6])
  have r64: "unat r < 64" using r(2) by (simp add: word_less_nat_alt)
  have le: "unat r \<le> unat (bk_len p)"
  proof (rule ccontr)
    assume a: "\<not> unat r \<le> unat (bk_len p)"
    have "64 dvd (unat (bk_ptr p) + unat r) - (unat (bk_ptr p) + unat (bk_len p))"
      using r(3) al by (intro dvd_diff_nat) auto
    then have "64 dvd unat r - unat (bk_len p)" by simp
    then show False using a r64 by (auto dest: dvd_imp_le)
  qed
  let ?p = "new_from_raw_parts (bk_ptr p + r) (bk_len p - r)"
  have up: "unat (bk_ptr ?p) = unat (bk_ptr p) + unat r"
    using ov le by (simp add: new_from_raw_parts_def unat_add_usize)
  have ul: "unat (bk_len ?p) = unat (bk_len p) - unat r"
    using le by (simp add: new_from_raw_parts_def word_le_nat_alt unat_sub)
  have "spare q (free_blocks fl \<union> live) (unat (bk_ptr ?p)) (unat (bk_len ?p))"
  proof -
    have "{unat (bk_ptr ?p)..<unat (bk_ptr ?p) + unat (bk_len ?p)} \<subseteq> {unat (bk_ptr p)..<unat (bk_ptr p) + unat (bk_len p)}"
      unfolding up ul using le by auto
    then show ?thesis using sp unfolding spare_def by blast
  qed
  then have "\<exists>q' fl'. free_prefix_loop q ?p = ret_q q' () \<and> heap_inv q' live fl' \<and> tail q' = tail q"
    using free_prefix_loop_ok [OF inv] up r(3) by simp
  moreover have "align_prefix p = Inr ?p"
    using r(1) le by (simp add: align_prefix_def m assert_r_def word_le_nat_alt)
  ultimately show ?thesis by (simp add: free_prefix_def)
qed

section \<open>Allocation\<close>

lemma alloc_quick_empty:
  assumes "length (qlists q) = NUM_QLISTS" and "k < 9" and "qlists q ! k = None"
  shows "alloc_quick q (2 ^ (k + 6)) (2 ^ (k + 6)) = ret_q q None"
proof -
  have "(2 :: nat) ^ (k + 6) \<le> 2 ^ 14" using assms(2) by (intro power_increasing) auto
  then have "(2 ^ (k + 6) :: usize) \<le> MAX_QUICK_SIZE"
    using class_pow2 [OF assms(2)] by (simp add: MAX_QUICK_SIZE_def word_le_nat_alt)
  moreover have "(qlists q)[k := None] = qlists q" using assms(3) by (metis list_update_id)
  then have "q\<lparr>qlists := (qlists q)[k := None]\<rparr> = q" by (cases q) simp
  moreover have "head q None = ret_q q (None, None)"
    by (simp add: head_def unlink_def ret_q_def) (subst unlink_loop.simps, simp)
  ultimately show ?thesis
    using assms quick_index_pow2 [of "k + 6"] by (simp add: alloc_quick_def index_r_def)
qed

lemma heap_inv_grow:
  assumes inv: "heap_inv q live fl" and t: "t = (tail q)\<lparr>cursor := c\<rparr>" "c \<le> bk_len (arena (tail q))"
    and c: "unat c = unat (cursor (tail q)) + adj + 2 ^ (k + 6)" and k: "k < 9"
    and b: "unat b = unat (bk_ptr (arena (tail q))) + unat (cursor (tail q)) + adj" and al: "2 ^ (k + 6) dvd unat b"
  shows "heap_inv (q\<lparr>tail := t\<rparr>) (insert (b, k) live) fl"
    and "spare (q\<lparr>tail := t\<rparr>) (free_blocks fl \<union> insert (b, k) live)
      (unat (bk_ptr (arena (tail q))) + unat (cursor (tail q))) adj"
    and "(b, k) \<notin> live"
proof -
  let ?base = "unat (bk_ptr (arena (tail q)))" and ?cur = "unat (cursor (tail q))"
  let ?R = "used_arena q" and ?R' = "used_arena (q\<lparr>tail := t\<rparr>)"
  have ok: "blocks_ok ?R (free_blocks fl \<union> live)" using inv by (simp add: heap_inv_def)
  then have ok': "blocks_ok ?R' (free_blocks fl \<union> live)"
    by (rule blocks_ok_mono) (auto simp: used_arena_def t(1) c)
  have old: "brange y \<subseteq> {?base..<?base + ?cur}" if "y \<in> free_blocks fl \<union> live" for y
    using ok that by (auto simp: blocks_ok_def used_arena_def)
  have br: "brange (b, k) = {?base + ?cur + adj..<?base + ?cur + adj + 2 ^ (k + 6)}" by (simp add: brange_def b)
  have dj: "brange (b, k) \<inter> brange y = {}" if "y \<in> free_blocks fl \<union> live" for y
    using old [OF that] unfolding br by auto
  then have new: "(b, k) \<notin> free_blocks fl \<union> live" using addr_in_brange [of "(b, k)"] by auto
  then show "(b, k) \<notin> live" by simp
  have "blocks_ok ?R' (insert (b, k) (free_blocks fl \<union> live))"
    using ok' dj k al by (intro blocks_ok_insert) (auto simp: br used_arena_def t(1) c)
  then show "heap_inv (q\<lparr>tail := t\<rparr>) (insert (b, k) live) fl"
    using inv new t by (auto simp: heap_inv_def tail_ok_def)
  have "{?base + ?cur..<?base + ?cur + adj} \<inter> brange y = {}" if "y \<in> free_blocks fl \<union> insert (b, k) live" for y
  proof (cases "y = (b, k)")
    case False
    then show ?thesis using old [of y] that by auto
  qed (auto simp: br)
  then show "spare (q\<lparr>tail := t\<rparr>) (free_blocks fl \<union> insert (b, k) live) (?base + ?cur) adj"
    unfolding spare_def by (auto simp: used_arena_def t(1) c)
qed

text \<open>The quick list of a layout, if it has one.\<close>

definition quick_class :: "Layout \<Rightarrow> nat option" where
  "quick_class l =
     (if l_size l \<le> MAX_QUICK_SIZE then
        (case adjust l of Inr (s, a) \<Rightarrow>
           if a = s then (case quick_index s of Inr k \<Rightarrow> Some k | Inl _ \<Rightarrow> None) else None
         | Inl _ \<Rightarrow> None)
      else None)"

lemma quick_classD:
  assumes "quick_class l = Some k"
  shows "k < 9" and "adjust l = Inr (2 ^ (k + 6), 2 ^ (k + 6))" and "l_align l \<le> 2 ^ (k + 6)"
    and "unat (l_size l) \<le> 2 ^ (k + 6)"
proof -
  have "l_size l \<le> MAX_QUICK_SIZE" using assms by (simp add: quick_class_def split: if_splits)
  then obtain j where j: "6 \<le> j" "j \<le> 14" "unat (l_size l) \<le> 2 ^ j" "adjust l = Inr (2 ^ j, max (l_align l) (2 ^ j))"
    by (rule adjust_quick)
  have m: "max (l_align l) (2 ^ j) = 2 ^ j" and "quick_index (2 ^ j) = Inr k"
    using assms j(4) by (auto simp: quick_class_def split: if_splits sum.splits)
  then have "j = k + 6" using quick_index_pow2 [of j] j by simp
  then show "k < 9" "adjust l = Inr (2 ^ (k + 6), 2 ^ (k + 6))" "unat (l_size l) \<le> 2 ^ (k + 6)"
    using j m by auto
  show "l_align l \<le> 2 ^ (k + 6)" using m \<open>j = k + 6\<close> by (metis max.cobounded1)
qed

lemma malloc_tail_ok:
  assumes inv: "heap_inv q live fl" and cl: "quick_class l = Some k" and e: "fl k = []"
  shows "\<exists>q' p. malloc q l = ret_q q' p \<and> arena (tail q') = arena (tail q) \<and>
    (if p = 0 then \<exists>fl'. heap_inv q' live fl' else (p, k) \<notin> live \<and> (\<exists>fl'. heap_inv q' (insert (p, k) live) fl'))"
proof -
  note k = quick_classD(1) [OF cl] and ad = quick_classD(2) [OF cl]
  let ?s = "2 ^ (k + 6) :: usize" and ?t = "tail q"
  let ?base = "bk_ptr (arena ?t)" and ?cur = "cursor ?t"
  have tok: "tail_ok ?t" and len: "length (qlists q) = NUM_QLISTS" and ch: "qlists q ! k = None"
    using inv k e by (auto simp: heap_inv_def)
  have us: "unat ?s = 2 ^ (k + 6)" by (rule class_pow2 [OF k])
  have s14: "(2 :: nat) ^ (k + 6) \<le> 2 ^ 14" using k by (intro power_increasing) auto
  have m: "malloc q l = bind_q (alloc_tail q ?s ?s) (\<lambda>q r. ret_q q (case r of None \<Rightarrow> 0 | Some x \<Rightarrow> x))"
    using alloc_quick_empty [OF len k ch] by (simp add: malloc_def ad)
  obtain adj where adj: "adj < ?s" "unat ?s dvd (unat ?base + unat ?cur + unat adj)"
    and r: "if unat ?cur + unat adj + unat ?s \<le> unat (bk_len (arena ?t))
      then \<exists>c. try_alloc ?t ?s ?s = Inr (?t\<lparr>cursor := c\<rparr>,
          Some (new_from_raw_parts (?base + ?cur) adj, new_from_raw_parts (?base + ?cur + adj) ?s)) \<and>
        unat c = unat ?cur + unat adj + unat ?s
      else try_alloc ?t ?s ?s = Inr (?t, None)"
    by (rule try_alloc_eq [of ?s ?t ?s]) (use tok k us s14 in \<open>auto simp: tail_ok_def is_power_of_two_pow\<close>)
  show ?thesis
  proof (cases "unat ?cur + unat adj + unat ?s \<le> unat (bk_len (arena ?t))")
    case False
    then have "try_alloc ?t ?s ?s = Inr (?t, None)" using r by argo
    then have "malloc q l = ret_q q 0" by (simp add: m alloc_tail_def)
    then show ?thesis using inv by auto
  next
    case True
    then obtain c where c: "try_alloc ?t ?s ?s = Inr (?t\<lparr>cursor := c\<rparr>,
          Some (new_from_raw_parts (?base + ?cur) adj, new_from_raw_parts (?base + ?cur + adj) ?s))"
        "unat c = unat ?cur + unat adj + unat ?s"
      using r by (simp only: if_True) (elim exE conjE, rule that)
    let ?q = "q\<lparr>tail := ?t\<lparr>cursor := c\<rparr>\<rparr>" and ?b = "?base + ?cur + adj"
    have ov: "unat ?base + unat ?cur + unat adj < 2 ^ 64"
      using True tok by (simp add: tail_ok_def)
    then have uf: "unat (?base + ?cur) = unat ?base + unat ?cur" by (intro unat_add_usize) simp
    then have ub: "unat ?b = unat ?base + unat ?cur + unat adj" using ov by (subst unat_add_usize) simp_all
    have al: "2 ^ (k + 6) dvd unat ?b" using adj(2) us ub by simp
    have cl: "c \<le> bk_len (arena ?t)" using True c(2) by (simp add: word_le_nat_alt)
    have c2: "unat c = unat ?cur + unat adj + 2 ^ (k + 6)" using c(2) us by simp
    note grow = heap_inv_grow [OF inv refl cl c2 k ub al]
    have "(2 :: nat) ^ 6 dvd 2 ^ (k + 6)" by (rule le_imp_power_dvd) simp
    then have al64: "64 dvd unat ?base + unat ?cur + unat adj" using al ub dvd_trans by fastforce
    have "\<exists>q' fl'. free_prefix ?q (new_from_raw_parts (?base + ?cur) adj) = ret_q q' () \<and>
        heap_inv q' (insert (?b, k) live) fl' \<and> tail q' = tail ?q"
      by (rule free_prefix_ok [OF grow(1)]) (use grow(2) uf al64 ov in \<open>simp_all add: new_from_raw_parts_def\<close>)
    then obtain q' fl' where q': "free_prefix ?q (new_from_raw_parts (?base + ?cur) adj) = ret_q q' ()"
        "heap_inv q' (insert (?b, k) live) fl'" "tail q' = tail ?q"
      by (elim exE conjE) (rule that)
    have "?base \<noteq> 0" using tok by (simp add: tail_ok_def)
    then have "unat ?b \<noteq> 0" using ub by (simp add: unat_eq_0)
    then have nz: "?b \<noteq> 0" by (metis unat_0)
    have "malloc q l = ret_q q' ?b" using c(1) q'(1) by (simp add: m alloc_tail_def new_from_raw_parts_def)
    then show ?thesis using q'(2,3) grow(3) nz by (intro exI [of _ q'] exI [of _ ?b]) auto
  qed
qed

lemma malloc_ok:
  assumes inv: "heap_inv q live fl" and cl: "quick_class l = Some k"
  shows "\<exists>q' p. malloc q l = ret_q q' p \<and> arena (tail q') = arena (tail q) \<and>
    (if p = 0 then \<exists>fl'. heap_inv q' live fl' else (p, k) \<notin> live \<and> (\<exists>fl'. heap_inv q' (insert (p, k) live) fl'))"
proof (cases "fl k")
  case Nil
  then show ?thesis using malloc_tail_ok [OF inv cl] by blast
next
  case (Cons b ns)
  obtain q' where q': "malloc q l = ret_q q' b" "heap_inv q' (insert (b, k) live) (fl(k := ns))" "tail q' = tail q"
    using heap_inv_pop [OF inv quick_classD(1) [OF cl] Cons quick_classD(2) [OF cl]] by (elim exE conjE) (rule that)
  have bk: "(b, k) \<in> free_blocks fl" using Cons quick_classD(1) [OF cl] by (simp add: free_blocks_def)
  then have "(b, k) \<notin> live" and "brange (b, k) \<subseteq> used_arena q"
    using inv by (auto simp: heap_inv_def blocks_ok_def)
  moreover have "0 < unat b"
    using used_arena_bound [of q "unat b"] inv addr_in_brange [of "(b, k)"] \<open>brange (b, k) \<subseteq> used_arena q\<close>
    by (auto simp: heap_inv_def)
  ultimately show ?thesis using q' by (intro exI [of _ q'] exI [of _ b]) (auto simp: unat_gt_0)
qed

lemma free_ok:
  assumes inv: "heap_inv q live fl" and cl: "quick_class l = Some k" and x: "(b, k) \<in> live"
  shows "\<exists>q' fl'. free q b l = ret_q q' () \<and> heap_inv q' (live - {(b, k)}) fl' \<and> tail q' = tail q"
proof -
  have ok: "blocks_ok (used_arena q) (free_blocks fl \<union> live)" using inv by (simp add: heap_inv_def)
  then have "2 ^ (snd (b, k) + 6) dvd unat (fst (b, k)) \<and> brange (b, k) \<subseteq> used_arena q"
    using x unfolding blocks_ok_def by blast
  then have b: "2 ^ (k + 6) dvd unat b" "brange (b, k) \<subseteq> used_arena q" by simp_all
  have dj: "brange (b, k) \<inter> brange y = {}" if "y \<in> free_blocks fl \<union> (live - {(b, k)})" for y
  proof -
    have "y \<noteq> (b, k)" using that x inv by (auto simp: heap_inv_def)
    then show ?thesis using ok x that unfolding blocks_ok_def by blast
  qed
  have "heap_inv q (live - {(b, k)}) fl"
    using inv blocks_ok_mono [OF ok, of "free_blocks fl \<union> (live - {(b, k)})"] by (auto simp: heap_inv_def)
  moreover have "0 < unat b"
    using used_arena_bound [of q "unat b"] inv addr_in_brange [of "(b, k)"] b(2) by (auto simp: heap_inv_def)
  then have "b \<noteq> 0" by auto
  ultimately have "\<exists>q'. free_with free_misc q b l = ret_q q' () \<and>
      heap_inv q' (live - {(b, k)}) (fl(k := b # fl k)) \<and> tail q' = tail q"
    using quick_classD(1,2) [OF cl] b dj by (intro heap_inv_push)
  then show ?thesis unfolding free_def by (elim exE conjE) (intro exI conjI)
qed

section \<open>Sequences of requests\<close>

text \<open>A client asks for blocks and gives back the i-th of the blocks it holds.\<close>

datatype request = Alloc Layout | Dealloc nat

fun serve ::
    "('s \<Rightarrow> Layout \<Rightarrow> ('s \<times> usize) rust option) \<Rightarrow> ('s \<Rightarrow> usize \<Rightarrow> Layout \<Rightarrow> ('s \<times> unit) rust option) \<Rightarrow>
     's \<Rightarrow> (usize \<times> Layout) list \<Rightarrow> request list \<Rightarrow> ('s \<times> (usize \<times> Layout) list) rust option" where
  "serve al de s live [] = Some (Inr (s, live))"
| "serve al de s live (Alloc l # rs) =
     (case al s l of
        None \<Rightarrow> None
      | Some (Inl e) \<Rightarrow> Some (Inl e)
      | Some (Inr (s', p)) \<Rightarrow> serve al de s' (if p = 0 then live else live @ [(p, l)]) rs)"
| "serve al de s live (Dealloc i # rs) =
     (if i < length live then
        (case de s (fst (live ! i)) (snd (live ! i)) of
           None \<Rightarrow> None
         | Some (Inl e) \<Rightarrow> Some (Inl e)
         | Some (Inr (s', _)) \<Rightarrow> serve al de s' (take i live @ drop (Suc i) live) rs)
      else serve al de s live rs)"

definition blk :: "usize \<times> Layout \<Rightarrow> usize \<times> nat" where
  "blk x = (fst x, the (quick_class (snd x)))"

lemma remove_nth_set:
  assumes "distinct (map f xs)" and "i < length xs"
  shows "f ` set (take i xs @ drop (Suc i) xs) = f ` set xs - {f (xs ! i)}"
    and "distinct (map f (take i xs @ drop (Suc i) xs))"
proof -
  have xs: "xs = take i xs @ xs ! i # drop (Suc i) xs" by (rule id_take_nth_drop [OF assms(2)])
  have d: "distinct (map f (take i xs @ xs ! i # drop (Suc i) xs))" using assms(1) xs by simp
  then show "distinct (map f (take i xs @ drop (Suc i) xs))" by simp
  have "f ` set xs = f ` set (take i xs @ xs ! i # drop (Suc i) xs)" using xs by simp
  then show "f ` set (take i xs @ drop (Suc i) xs) = f ` set xs - {f (xs ! i)}"
    using d by (simp add: image_Un)
qed

text \<open>The contract of a heap: requests with a class are served or refused, and what is held stays
  held, apart and inside a region.\<close>

locale block_heap =
  fixes ok :: "'s \<Rightarrow> (usize \<times> nat) set \<Rightarrow> bool" and region :: "nat set"
    and alloc :: "'s \<Rightarrow> Layout \<Rightarrow> ('s \<times> usize) rust option"
    and dealloc :: "'s \<Rightarrow> usize \<Rightarrow> Layout \<Rightarrow> ('s \<times> unit) rust option"
  assumes alloc_ok: "ok s live \<Longrightarrow> quick_class l = Some k \<Longrightarrow>
      \<exists>s' p. alloc s l = Some (Inr (s', p)) \<and>
        (if p = 0 then ok s' live else (p, k) \<notin> live \<and> ok s' (insert (p, k) live))"
    and dealloc_ok: "ok s live \<Longrightarrow> quick_class l = Some k \<Longrightarrow> (p, k) \<in> live \<Longrightarrow>
      \<exists>s'. dealloc s p l = Some (Inr (s', ())) \<and> ok s' (live - {(p, k)})"
    and ok_blocks: "ok s live \<Longrightarrow> blocks_ok region live"
begin

definition holds :: "'s \<Rightarrow> (usize \<times> Layout) list \<Rightarrow> bool" where
  "holds s live \<longleftrightarrow> ok s (blk ` set live) \<and> distinct (map blk live) \<and> (\<forall>x \<in> set live. quick_class (snd x) \<noteq> None)"

lemma serve_holds:
  assumes "holds s live" and "\<forall>l. Alloc l \<in> set rs \<longrightarrow> quick_class l \<noteq> None"
  shows "\<exists>s' live'. serve alloc dealloc s live rs = Some (Inr (s', live')) \<and> holds s' live' \<and>
    set live' \<subseteq> set live \<union> UNIV \<times> {l. Alloc l \<in> set rs}"
  using assms
proof (induction rs arbitrary: s live)
  case (Cons r rs)
  show ?case
  proof (cases r)
    case (Alloc l)
    then obtain k where k: "quick_class l = Some k" using Cons.prems(2) by auto
    obtain s' p where s': "alloc s l = Some (Inr (s', p))"
        "if p = 0 then ok s' (blk ` set live) else (p, k) \<notin> blk ` set live \<and> ok s' (insert (p, k) (blk ` set live))"
      using alloc_ok [OF _ k, of s "blk ` set live"] Cons.prems(1) unfolding holds_def by (elim conjE exE) blast
    let ?live = "if p = 0 then live else live @ [(p, l)]"
    have "holds s' ?live" using s'(2) Cons.prems(1) k by (auto simp: holds_def blk_def split: if_splits)
    from Cons.IH [OF this] Cons.prems(2) obtain s'' live' where
      "serve alloc dealloc s' ?live rs = Some (Inr (s'', live'))" "holds s'' live'"
      "set live' \<subseteq> set ?live \<union> UNIV \<times> {l. Alloc l \<in> set rs}" by auto
    then show ?thesis using s'(1) Alloc by (auto split: if_splits)
  next
    case (Dealloc i)
    show ?thesis
    proof (cases "i < length live")
      case True
      let ?x = "live ! i" and ?live = "take i live @ drop (Suc i) live"
      have x: "?x \<in> set live" using True by simp
      then obtain k where k: "quick_class (snd ?x) = Some k" using Cons.prems(1) by (auto simp: holds_def)
      then have b: "(fst ?x, k) = blk ?x" by (simp add: blk_def)
      obtain s' where s': "dealloc s (fst ?x) (snd ?x) = Some (Inr (s', ()))" "ok s' (blk ` set live - {blk ?x})"
        using dealloc_ok [OF _ k, of s "blk ` set live" "fst ?x"] Cons.prems(1) x b unfolding holds_def by auto
      have sub: "set ?live \<subseteq> set live" using set_take_subset set_drop_subset by fastforce
      have "distinct (map blk live)" using Cons.prems(1) by (simp add: holds_def)
      note rem = remove_nth_set [OF this True]
      have "holds s' ?live"
        using s'(2) rem sub Cons.prems(1) unfolding holds_def by (auto simp del: set_append map_append)
      from Cons.IH [OF this] Cons.prems(2) obtain s'' live' where
        "serve alloc dealloc s' ?live rs = Some (Inr (s'', live'))" "holds s'' live'"
        "set live' \<subseteq> set ?live \<union> UNIV \<times> {l. Alloc l \<in> set rs}" by auto
      then show ?thesis using s'(1) Dealloc True sub by fastforce
    next
      case False
      then show ?thesis using Cons.IH [OF Cons.prems(1)] Cons.prems(2) Dealloc by auto
    qed
  qed
qed simp

text \<open>Blocks held at two places of the list do not overlap.\<close>

lemma holds_apart:
  assumes "holds s live" and "i < j" and "j < length live"
  shows "brange (blk (live ! i)) \<inter> brange (blk (live ! j)) = {}"
proof -
  have "blk (live ! i) \<noteq> blk (live ! j)"
    using assms distinct_conv_nth [of "map blk live"] by (auto simp: holds_def)
  moreover have "blk (live ! i) \<in> blk ` set live" "blk (live ! j) \<in> blk ` set live" using assms by auto
  moreover have "blocks_ok region (blk ` set live)" using ok_blocks assms(1) unfolding holds_def by blast
  ultimately show ?thesis unfolding blocks_ok_def by blast
qed

lemma holds_inside:
  assumes "holds s live" and "x \<in> set live"
  shows "brange (blk x) \<subseteq> region" and "2 ^ (snd (blk x) + 6) dvd unat (fst x)" and "quick_class (snd x) = Some (snd (blk x))"
proof -
  have "blocks_ok region (blk ` set live)" using ok_blocks assms(1) unfolding holds_def by blast
  then have "\<forall>y \<in> blk ` set live. snd y < 9 \<and> 2 ^ (snd y + 6) dvd unat (fst y) \<and> brange y \<subseteq> region"
    unfolding blocks_ok_def by blast
  then show "brange (blk x) \<subseteq> region" "2 ^ (snd (blk x) + 6) dvd unat (fst x)"
    using assms(2) by (auto simp: blk_def)
  show "quick_class (snd x) = Some (snd (blk x))" using assms by (auto simp: holds_def blk_def)
qed

end

section \<open>The heap and the global allocator keep the contract\<close>

definition block_range :: "Block \<Rightarrow> nat set" where
  "block_range a = {unat (bk_ptr a)..<unat (bk_ptr a) + unat (bk_len a)}"

definition quick_ok :: "Block \<Rightarrow> QuickFit \<Rightarrow> (usize \<times> nat) set \<Rightarrow> bool" where
  "quick_ok a q live \<longleftrightarrow> arena (tail q) = a \<and> (\<exists>fl. heap_inv q live fl)"

definition global_ok :: "Block \<Rightarrow> QuickFit option \<Rightarrow> (usize \<times> nat) set \<Rightarrow> bool" where
  "global_ok a g live \<longleftrightarrow> (\<exists>q. g = Some q \<and> quick_ok a q live)"

lemma quick_ok_blocks: "quick_ok a q live \<Longrightarrow> blocks_ok (block_range a) live"
  unfolding quick_ok_def heap_inv_def
  by (elim conjE exE, rule blocks_ok_mono) (auto simp: used_arena_def block_range_def tail_ok_def word_le_nat_alt)

lemma quick_alloc_ok:
  assumes "quick_ok a q live" and "quick_class l = Some k"
  shows "\<exists>q' p. malloc q l = Some (Inr (q', p)) \<and>
    (if p = 0 then quick_ok a q' live else (p, k) \<notin> live \<and> quick_ok a q' (insert (p, k) live))"
proof -
  obtain fl where "heap_inv q live fl" and a: "arena (tail q) = a" using assms(1) by (auto simp: quick_ok_def)
  from malloc_ok [OF this(1) assms(2)] show ?thesis
    unfolding ret_q_def quick_ok_def by (elim exE conjE) (use a in \<open>auto split: if_splits\<close>)
qed

lemma quick_dealloc_ok:
  assumes "quick_ok a q live" and "quick_class l = Some k" and "(p, k) \<in> live"
  shows "\<exists>q'. free q p l = Some (Inr (q', ())) \<and> quick_ok a q' (live - {(p, k)})"
proof -
  obtain fl where "heap_inv q live fl" and a: "arena (tail q) = a" using assms(1) by (auto simp: quick_ok_def)
  from free_ok [OF this(1) assms(2,3)] show ?thesis
    unfolding ret_q_def quick_ok_def by (elim exE conjE) (use a in auto)
qed

interpretation quick_heap: block_heap "quick_ok a" "block_range a" malloc free for a
  by unfold_locales (rule quick_alloc_ok quick_dealloc_ok quick_ok_blocks, assumption+)+

interpretation global_heap: block_heap "global_ok a" "block_range a" global_alloc global_dealloc for a
proof unfold_locales
  fix g live l k
  assume "global_ok a g live" "quick_class l = Some k"
  then obtain q where q: "g = Some q" "quick_ok a q live" by (auto simp: global_ok_def)
  from quick_alloc_ok [OF q(2) \<open>quick_class l = Some k\<close>]
  show "\<exists>g' p. global_alloc g l = Some (Inr (g', p)) \<and>
      (if p = 0 then global_ok a g' live else (p, k) \<notin> live \<and> global_ok a g' (insert (p, k) live))"
    by (elim exE conjE) (auto simp: global_alloc_def with_allocator_def global_ok_def q(1) split: if_splits)
next
  fix g live l k p
  assume "global_ok a g live" "quick_class l = Some k" and p: "(p, k) \<in> live"
  then obtain q where q: "g = Some q" "quick_ok a q live" by (auto simp: global_ok_def)
  from quick_dealloc_ok [OF q(2) \<open>quick_class l = Some k\<close> p]
  show "\<exists>g'. global_dealloc g p l = Some (Inr (g', ())) \<and> global_ok a g' (live - {(p, k)})"
    by (elim exE conjE) (auto simp: global_dealloc_def with_allocator_def global_ok_def q(1))
next
  fix g live
  assume "global_ok a g live"
  then show "blocks_ok (block_range a) live" by (auto simp: global_ok_def quick_ok_blocks)
qed

lemma quick_ok_new:
  assumes "bk_ptr a \<noteq> 0" and "unat (bk_ptr a) + unat (bk_len a) + 2 ^ 15 < 2 ^ 64"
  shows "quick_ok a (QuickFit_new (BumpAlloc_new a)) {}"
proof -
  have "heap_inv (QuickFit_new (BumpAlloc_new a)) {} (\<lambda>_. [])"
    using assms by (auto simp: heap_inv_def QuickFit_new_def BumpAlloc_new_def tail_ok_def free_blocks_def blocks_ok_def)
  then show ?thesis by (auto simp: quick_ok_def QuickFit_new_def BumpAlloc_new_def)
qed

lemma pow2_dvd_class:
  assumes "is_power_of_two a" and "a \<le> 2 ^ (k + 6)" and "k < 9" and "2 ^ (k + 6) dvd n"
  shows "unat (a :: usize) dvd n"
proof -
  obtain i where i: "i < 64" "unat a = 2 ^ i" using assms(1) by (auto elim!: is_power_of_twoE)
  have "(2 :: nat) ^ i \<le> 2 ^ (k + 6)" using assms(2) class_pow2 [OF assms(3)] i by (simp add: word_le_nat_alt)
  then have "i \<le> k + 6" by (rule power_le_imp_le_exp [rotated]) simp
  then have "(2 :: nat) ^ i dvd 2 ^ (k + 6)" by (rule le_imp_power_dvd)
  then show ?thesis using assms(4) i(2) dvd_trans by fastforce
qed

section \<open>Properties\<close>

text \<open>
  C24. Memory safety of the global allocator on small requests.  For every sequence of requests
  whose layouts have a quick list, each request giving back only a block that is held, starting
  with the allocator over its 4 MiB heap: no request panics, every walk ends, and the blocks
  held at the end are inside the heap, aligned as asked, and pairwise disjoint over the sizes
  asked for.
\<close>

theorem global_heap_safe:
  assumes "heap \<noteq> 0" and "unat heap + 2 ^ 22 + 2 ^ 15 < 2 ^ 64"
    and "\<forall>l. Alloc l \<in> set rs \<longrightarrow> quick_class l \<noteq> None \<and> is_power_of_two (l_align l)"
  shows "\<exists>g live. serve global_alloc global_dealloc (GLOBAL_ALLOCATOR heap) [] rs = Some (Inr (g, live)) \<and>
    (\<forall>(p, l) \<in> set live. Alloc l \<in> set rs \<and> unat (l_align l) dvd unat p \<and>
       unat heap \<le> unat p \<and> unat p + unat (l_size l) \<le> unat heap + 2 ^ 22) \<and>
    (\<forall>i j. i < j \<and> j < length live \<longrightarrow>
       {unat (fst (live ! i))..<unat (fst (live ! i)) + unat (l_size (snd (live ! i)))} \<inter>
       {unat (fst (live ! j))..<unat (fst (live ! j)) + unat (l_size (snd (live ! j)))} = {})"
proof -
  let ?a = "new_from_raw_parts heap GLOBAL_HEAP_SIZE"
  have sz: "unat (bk_len ?a) = 2 ^ 22" and ptr: "bk_ptr ?a = heap"
    by (simp_all add: new_from_raw_parts_def GLOBAL_HEAP_SIZE_def)
  have "global_ok ?a (GLOBAL_ALLOCATOR heap) {}"
    using quick_ok_new [of ?a] assms(1,2) sz ptr by (simp add: global_ok_def GLOBAL_ALLOCATOR_def)
  then have start: "global_heap.holds ?a (GLOBAL_ALLOCATOR heap) []" by (simp add: global_heap.holds_def)
  obtain g live where run: "serve global_alloc global_dealloc (GLOBAL_ALLOCATOR heap) [] rs = Some (Inr (g, live))"
      and h: "global_heap.holds ?a g live" and ls: "set live \<subseteq> set [] \<union> UNIV \<times> {l. Alloc l \<in> set rs}"
    using global_heap.serve_holds [OF start, of rs] assms(3) by blast
  have sub: "{unat (fst x)..<unat (fst x) + unat (l_size (snd x))} \<subseteq> brange (blk x)" if "x \<in> set live" for x
    using quick_classD(4) [OF global_heap.holds_inside(3) [OF h that]] by (auto simp: brange_def blk_def)
  have each: "Alloc l \<in> set rs \<and> unat (l_align l) dvd unat p \<and> unat heap \<le> unat p \<and>
      unat p + unat (l_size l) \<le> unat heap + 2 ^ 22" if "(p, l) \<in> set live" for p l
  proof -
    note in' = global_heap.holds_inside [OF h that] and rs = subsetD [OF ls that]
    have "unat p + unat (l_size l) \<le> unat p + 2 ^ (snd (blk (p, l)) + 6)"
      using quick_classD(4) [OF in'(3)] by simp
    moreover have "{unat p..<unat p + 2 ^ (snd (blk (p, l)) + 6)} \<subseteq> {unat heap..<unat heap + 2 ^ 22}"
      using in'(1) sz ptr by (simp add: brange_def block_range_def blk_def)
    then have "unat heap \<le> unat p" "unat p + 2 ^ (snd (blk (p, l)) + 6) \<le> unat heap + 2 ^ 22"
      by (simp_all add: atLeastLessThan_subset_iff)
    moreover have "unat (l_align l) dvd unat p"
      using pow2_dvd_class [OF _ quick_classD(3,1) [OF in'(3)] in'(2)] assms(3) rs by simp
    ultimately show ?thesis using rs by simp
  qed
  moreover have "{unat (fst (live ! i))..<unat (fst (live ! i)) + unat (l_size (snd (live ! i)))} \<inter>
       {unat (fst (live ! j))..<unat (fst (live ! j)) + unat (l_size (snd (live ! j)))} = {}"
    if "i < j \<and> j < length live" for i j
    using global_heap.holds_apart [OF h, of i j] sub [of "live ! i"] sub [of "live ! j"] that by fastforce
  ultimately show ?thesis using run by blast
qed

theorem global_heap_safe_witness:
  "\<exists>g live. serve global_alloc global_dealloc (GLOBAL_ALLOCATOR 0x100000) []
      [Alloc \<lparr>l_size = 100, l_align = 8\<rparr>, Alloc \<lparr>l_size = 5000, l_align = 16\<rparr>, Dealloc 0] = Some (Inr (g, live))"
proof -
  have "quick_class \<lparr>l_size = 100, l_align = 8\<rparr> = Some 1" "is_power_of_two (l_align \<lparr>l_size = 100, l_align = 8\<rparr>)"
      "quick_class \<lparr>l_size = 5000, l_align = 16\<rparr> = Some 7" "is_power_of_two (l_align \<lparr>l_size = 5000, l_align = 16\<rparr>)"
    by code_simp+
  then have rs: "\<forall>l. Alloc l \<in> set [Alloc \<lparr>l_size = 100, l_align = 8\<rparr>, Alloc \<lparr>l_size = 5000, l_align = 16\<rparr>, Dealloc 0] \<longrightarrow>
      quick_class l \<noteq> None \<and> is_power_of_two (l_align l)" by simp
  have "(0x100000 :: usize) \<noteq> 0" "unat (0x100000 :: usize) + 2 ^ 22 + 2 ^ 15 < 2 ^ 64" by simp_all
  from global_heap_safe [OF this rs] show ?thesis by (elim exE conjE) (intro exI)
qed

end
