(* ===== verification/Kmem.thy ===== *)
theory Kmem
  imports Page_Allocator
begin

text \<open>
  Models of \<^verbatim>\<open>aarch64/src/kmem.rs\<close> (where the kernel is in memory, and the direct map
  between physical and virtual addresses), \<^verbatim>\<open>param.rs\<close> and \<^verbatim>\<open>pagealloc.rs\<close> (the one page
  allocator of the kernel).

  The linker fixes the addresses of the sections, so they are an argument, the record
  \<open>LinkerSymbols\<close>.  The static \<open>PAGE_ALLOC\<close> behind its lock is passed as the allocator's state:
  each operation takes the lock for its whole duration.
\<close>

section \<open>Addresses\<close>

definition KZERO :: usize where "KZERO = 0xffff800000000000"

record LinkerSymbols =
  eboottext :: usize
  text_sym :: usize
  etext :: usize
  rodata :: usize
  erodata :: usize
  data_sym :: usize
  edata :: usize
  bss :: usize
  ebss :: usize
  end_sym :: usize
  early_pagetables :: usize
  eearly_pagetables :: usize

definition base_addr :: usize where "base_addr = 0xffff800000000000"

definition physaddr_as_virt :: "PhysAddr \<Rightarrow> usize" where
  "physaddr_as_virt pa = addr pa + KZERO"

definition from_virt_to_physaddr :: "usize \<Rightarrow> PhysAddr rust" where
  "from_virt_to_physaddr va = bind_r (sub_c va KZERO) (\<lambda>a. Inr (PhysAddr a))"

text \<open>Both ends are converted, the start first.\<close>

definition phys_range_of :: "usize \<Rightarrow> usize \<Rightarrow> PhysRange rust" where
  "phys_range_of s e =
     bind_r (from_virt_to_physaddr s) (\<lambda>a. bind_r (from_virt_to_physaddr e) (\<lambda>b. Inr (PhysRange_new a b)))"

definition boottext_range :: "LinkerSymbols \<Rightarrow> PhysRange rust" where
  "boottext_range ld = phys_range_of base_addr (eboottext ld)"

definition text_range :: "LinkerSymbols \<Rightarrow> PhysRange rust" where
  "text_range ld = phys_range_of (text_sym ld) (etext ld)"

definition rodata_range :: "LinkerSymbols \<Rightarrow> PhysRange rust" where
  "rodata_range ld = phys_range_of (rodata ld) (erodata ld)"

definition data_range :: "LinkerSymbols \<Rightarrow> PhysRange rust" where
  "data_range ld = phys_range_of (data_sym ld) (edata ld)"

definition bss_range :: "LinkerSymbols \<Rightarrow> PhysRange rust" where
  "bss_range ld = phys_range_of (bss ld) (ebss ld)"

definition total_kernel_range :: "LinkerSymbols \<Rightarrow> PhysRange rust" where
  "total_kernel_range ld = phys_range_of base_addr (end_sym ld)"

definition early_pages_range :: "LinkerSymbols \<Rightarrow> PhysRange rust" where
  "early_pages_range ld = phys_range_of (early_pagetables ld) (eearly_pagetables ld)"

section \<open>The page allocator of the kernel\<close>

definition PAGE_ALLOC :: "BitmapPageAlloc rust" where
  "PAGE_ALLOC = new_all_allocated 32 PAGE_SIZE_4K PAGE_SIZE_4K"

definition init_page_allocator :: "LinkerSymbols \<Rightarrow> BitmapPageAlloc \<Rightarrow> BitmapPageAlloc rust" where
  "init_page_allocator ld a =
     bind_r (early_pages_range ld) (\<lambda>r.
     bind_r (mark_free a r) (\<lambda>(a', res).
       case res of Inl err \<Rightarrow> Inl Assertion_Failed | Inr _ \<Rightarrow> Inr a'))"

definition pagealloc_free_unused_ranges ::
    "BitmapPageAlloc \<Rightarrow> PhysRange \<Rightarrow> PhysRange list \<Rightarrow> unit pa_result rust" where
  "pagealloc_free_unused_ranges a available_mem used_ranges = free_unused_ranges a available_mem used_ranges"

text \<open>The page returned is a reference through the direct map, here its physical address.\<close>

definition pagealloc_allocate :: "BitmapPageAlloc \<Rightarrow> PhysAddr pa_result rust option" where
  "pagealloc_allocate a = allocate a"

definition pagealloc_usage_bytes :: "BitmapPageAlloc \<Rightarrow> (usize \<times> usize) rust option" where
  "pagealloc_usage_bytes a = usage_bytes a"

section \<open>The direct map\<close>

lemma virt_phys_roundtrip:
  assumes "paddr pa < 2 ^ 47"
  shows "from_virt_to_physaddr (physaddr_as_virt pa) = Inr pa"
proof -
  have u: "unat (addr pa + KZERO) = paddr pa + unat KZERO"
    using assms by (intro unat_add_usize) (simp add: KZERO_def)
  then have "KZERO \<le> addr pa + KZERO" by (simp add: word_le_nat_alt)
  then show ?thesis by (simp add: from_virt_to_physaddr_def physaddr_as_virt_def sub_c_def)
qed

end
