(* ===== verification/Bit_Fields.thy ===== *)
theory Bit_Fields
  imports R9_Prelude
begin

text \<open>
  The bit-field structures that the \<open>bitstruct!\<close> declarations of the aarch64 port describe.  A
  declaration names a field by its bits: \<open>x: bool = i\<close> is bit \<open>i\<close>, and \<open>x: T = lo..hi\<close>
  the bits from \<open>lo\<close> up to but not including \<open>hi\<close>, least significant first.  The readers
  return those bits, the \<open>with_\<close> builders replace them and keep the others.
\<close>

definition field :: "nat \<Rightarrow> nat \<Rightarrow> 'a::len word \<Rightarrow> 'a word" where
  "field lo hi w = take_bit (hi - lo) (drop_bit lo w)"

definition with_field :: "nat \<Rightarrow> nat \<Rightarrow> 'a::len word \<Rightarrow> 'a word \<Rightarrow> 'a word" where
  "with_field lo hi v w = (w AND NOT (push_bit lo (mask (hi - lo)))) OR push_bit lo (take_bit (hi - lo) v)"

definition with_flag :: "nat \<Rightarrow> bool \<Rightarrow> 'a::len word \<Rightarrow> 'a word" where
  "with_flag i b w = (if b then set_bit i w else unset_bit i w)"

lemma bit_field_iff: "bit (field lo hi w) n \<longleftrightarrow> n < hi - lo \<and> bit w (lo + n)"
  by (auto simp: field_def bit_simps)

lemma bit_with_field_iff:
  "n < LENGTH('a) \<Longrightarrow> hi \<le> LENGTH('a) \<Longrightarrow>
   bit (with_field lo hi v w :: 'a::len word) n \<longleftrightarrow> (if lo \<le> n \<and> n < hi then bit v (n - lo) else bit w n)"
  by (auto simp: with_field_def bit_simps)

lemma bit_with_flag_iff:
  "n < LENGTH('a) \<Longrightarrow> bit (with_flag i b w :: 'a::len word) n \<longleftrightarrow> (if n = i then b else bit w n)"
  by (auto simp: with_flag_def bit_simps)

lemmas bit_fields = bit_field_iff bit_with_field_iff bit_with_flag_iff

text \<open>A field reads back what was written, as far as it fits, and keeps the other fields.\<close>

lemma field_with_same:
  "hi \<le> LENGTH('a) \<Longrightarrow> field lo hi (with_field lo hi v w) = take_bit (hi - lo) (v :: 'a::len word)"
  by (rule bit_word_eqI) (auto simp: bit_fields bit_simps split: if_splits)

lemma field_with_other:
  "hi \<le> LENGTH('a) \<Longrightarrow> hi' \<le> LENGTH('a) \<Longrightarrow> hi \<le> lo' \<or> hi' \<le> lo \<Longrightarrow>
   field lo hi (with_field lo' hi' v w) = field lo hi (w :: 'a::len word)"
  by (rule bit_word_eqI) (auto simp: bit_fields split: if_splits)

lemma field_with_flag:
  "hi \<le> LENGTH('a) \<Longrightarrow> i < lo \<or> hi \<le> i \<Longrightarrow> field lo hi (with_flag i b w) = field lo hi (w :: 'a::len word)"
  by (rule bit_word_eqI) (auto simp: bit_fields split: if_splits)

lemma flag_with_field:
  "i < LENGTH('a) \<Longrightarrow> hi \<le> LENGTH('a) \<Longrightarrow> i < lo \<or> hi \<le> i \<Longrightarrow>
   bit (with_field lo hi v w :: 'a::len word) i = bit w i"
  by (auto simp: bit_with_field_iff)

end
