(* ===== verification/Registers.thy ===== *)
theory Registers
  imports Mem Bit_Fields
begin

text \<open>
  Model of \<^verbatim>\<open>aarch64/src/registers.rs\<close>: the identification register and the device memory of
  the board, and the syndrome register that says why an exception was taken.

  \<open>TryFromPrimitive\<close> on an enumeration gives the variant with the number, or the number back as
  the error; the variants and their numbers are listed in the order of the source.  The value of
  a system register is an argument.
\<close>

text \<open>\<open>TryFrom\<close> for an enumeration with numbered variants.\<close>

definition try_from_primitive :: "('n \<times> 'e) list \<Rightarrow> 'n \<Rightarrow> 'n + 'e" where
  "try_from_primitive variants n = (case map_of variants n of None \<Rightarrow> Inl n | Some v \<Rightarrow> Inr v)"

section \<open>Identification\<close>

type_synonym MidrEl1 = u64

definition midr_revision :: "MidrEl1 \<Rightarrow> u8" where "midr_revision r = ucast (field 0 4 r)"
definition midr_partnum :: "MidrEl1 \<Rightarrow> u16" where "midr_partnum r = ucast (field 4 16 r)"
definition midr_architecture :: "MidrEl1 \<Rightarrow> u8" where "midr_architecture r = ucast (field 16 20 r)"
definition midr_variant :: "MidrEl1 \<Rightarrow> u8" where "midr_variant r = ucast (field 20 24 r)"
definition midr_implementer :: "MidrEl1 \<Rightarrow> u16" where "midr_implementer r = ucast (field 24 32 r)"

datatype PartNum =
    PN_Unknown
  | PN_RaspberryPi1
  | PN_RaspberryPi2
  | PN_RaspberryPi3
  | PN_RaspberryPi4

definition PartNum_variants :: "(u16 \<times> PartNum) list" where
  "PartNum_variants =
     [(0, PN_Unknown),
      (0xb76, PN_RaspberryPi1),
      (0xc07, PN_RaspberryPi2),
      (0xd03, PN_RaspberryPi3),
      (0xd08, PN_RaspberryPi4)]"

definition partnum_enum :: "MidrEl1 \<Rightarrow> u16 + PartNum" where
  "partnum_enum r = try_from_primitive PartNum_variants (midr_partnum r)"

text \<open>\<open>PartNum::mmio\<close> and \<open>rpi_mmio\<close>.\<close>

definition mmio :: "PartNum \<Rightarrow> PhysRange option rust" where
  "mmio p =
     bind_r (mul_c 2 PAGE_SIZE_2M) (\<lambda>len.
       case p of
         PN_RaspberryPi1 \<Rightarrow> bind_r (PhysRange_with_len 0x20000000 len) (\<lambda>r. Inr (Some r))
       | PN_RaspberryPi2 \<Rightarrow> bind_r (PhysRange_with_len 0x3f000000 len) (\<lambda>r. Inr (Some r))
       | PN_RaspberryPi3 \<Rightarrow> bind_r (PhysRange_with_len 0x3f000000 len) (\<lambda>r. Inr (Some r))
       | PN_RaspberryPi4 \<Rightarrow> bind_r (PhysRange_with_len 0xfe000000 len) (\<lambda>r. Inr (Some r))
       | PN_Unknown \<Rightarrow> Inr None)"

definition rpi_mmio :: "MidrEl1 \<Rightarrow> PhysRange option rust" where
  "rpi_mmio midr = (case partnum_enum midr of Inl _ \<Rightarrow> Inr None | Inr p \<Rightarrow> mmio p)"

section \<open>Exception syndrome\<close>

type_synonym EsrEl1 = u64

definition esr_iss :: "EsrEl1 \<Rightarrow> u32" where "esr_iss r = ucast (field 0 25 r)"
definition esr_il :: "EsrEl1 \<Rightarrow> bool" where "esr_il r = bit r 25"
definition esr_ec :: "EsrEl1 \<Rightarrow> u8" where "esr_ec r = ucast (field 26 32 r)"
definition esr_iss2 :: "EsrEl1 \<Rightarrow> u8" where "esr_iss2 r = ucast (field 32 37 r)"

datatype ExceptionClass =
    EC_Unknown
  | EC_WaitFor
  | EC_FloatSimd
  | EC_Ls64
  | EC_BranchTargetException
  | EC_IllegalExecutionState
  | EC_MsrMrsSystem
  | EC_Sve
  | EC_Tstart
  | EC_PointerAuthFailure
  | EC_Sme
  | EC_GranuleProtectionCheck
  | EC_InstructionAbortLowerEl
  | EC_InstructionAbortSameEl
  | EC_PcAlignmentFault
  | EC_DataAbortLowerEl
  | EC_DataAbortSameEl
  | EC_SpAlignmentFault
  | EC_MemoryOperationException
  | EC_TrappedFloatingPointException
  | EC_SError
  | EC_BreakpointLowerEl
  | EC_BreakpointSameEl
  | EC_SoftwareStepLowerEl
  | EC_SoftwareStepSameEl
  | EC_WatchpointLowerEl
  | EC_WatchpointSameEl
  | EC_Brk

definition ExceptionClass_variants :: "(u8 \<times> ExceptionClass) list" where
  "ExceptionClass_variants =
     [(0, EC_Unknown),
      (1, EC_WaitFor),
      (7, EC_FloatSimd),
      (10, EC_Ls64),
      (13, EC_BranchTargetException),
      (14, EC_IllegalExecutionState),
      (24, EC_MsrMrsSystem),
      (25, EC_Sve),
      (27, EC_Tstart),
      (28, EC_PointerAuthFailure),
      (29, EC_Sme),
      (30, EC_GranuleProtectionCheck),
      (32, EC_InstructionAbortLowerEl),
      (33, EC_InstructionAbortSameEl),
      (34, EC_PcAlignmentFault),
      (36, EC_DataAbortLowerEl),
      (37, EC_DataAbortSameEl),
      (38, EC_SpAlignmentFault),
      (39, EC_MemoryOperationException),
      (44, EC_TrappedFloatingPointException),
      (47, EC_SError),
      (48, EC_BreakpointLowerEl),
      (49, EC_BreakpointSameEl),
      (50, EC_SoftwareStepLowerEl),
      (51, EC_SoftwareStepSameEl),
      (52, EC_WatchpointLowerEl),
      (53, EC_WatchpointSameEl),
      (60, EC_Brk)]"

definition exception_class_enum :: "EsrEl1 \<Rightarrow> u8 + ExceptionClass" where
  "exception_class_enum r = try_from_primitive ExceptionClass_variants (esr_ec r)"

type_synonym EsrEl1IssInstructionAbort = u32

definition iss_ifsc :: "EsrEl1IssInstructionAbort \<Rightarrow> u8" where "iss_ifsc r = ucast (field 0 6 r)"
definition iss_s1ptw :: "EsrEl1IssInstructionAbort \<Rightarrow> bool" where "iss_s1ptw r = bit r 7"
definition iss_ea :: "EsrEl1IssInstructionAbort \<Rightarrow> bool" where "iss_ea r = bit r 9"
definition iss_fnv :: "EsrEl1IssInstructionAbort \<Rightarrow> bool" where "iss_fnv r = bit r 10"
definition iss_set :: "EsrEl1IssInstructionAbort \<Rightarrow> u8" where "iss_set r = ucast (field 11 13 r)"

definition from_esr_el1 :: "EsrEl1 \<Rightarrow> EsrEl1IssInstructionAbort option" where
  "from_esr_el1 r =
     (case exception_class_enum r of
        Inl _ \<Rightarrow> None
      | Inr ec \<Rightarrow> if ec = EC_InstructionAbortSameEl then Some (esr_iss r) else None)"

datatype InstructionFaultStatusCode =
    IFS_AddressSizeFaultLevel0
  | IFS_AddressSizeFaultLevel1
  | IFS_AddressSizeFaultLevel2
  | IFS_AddressSizeFaultLevel3
  | IFS_TranslationFaultLevel0
  | IFS_TranslationFaultLevel1
  | IFS_TranslationFaultLevel2
  | IFS_TranslationFaultLevel3
  | IFS_AccessFlagFaultLevel0
  | IFS_AccessFlagFaultLevel1
  | IFS_AccessFlagFaultLevel2
  | IFS_AccessFlagFaultLevel3
  | IFS_PermissionFaultLevel0
  | IFS_PermissionFaultLevel1
  | IFS_PermissionFaultLevel2
  | IFS_PermissionFaultLevel3
  | IFS_SyncExtAbortNotOnWalkOrUpdate
  | IFS_SyncExtAbortOnWalkOrUpdateLevelNeg1
  | IFS_SyncExtAbortOnWalkOrUpdateLevel0
  | IFS_SyncExtAbortOnWalkOrUpdateLevel1
  | IFS_SyncExtAbortOnWalkOrUpdateLevel2
  | IFS_SyncExtAbortOnWalkOrUpdateLevel3
  | IFS_SyncParityOrEccErrOnMemAccessNotOnWalk
  | IFS_SyncParityOrEccErrOnMemAccessOnWalkOrUpdateLevelNeg1
  | IFS_SyncParityOrEccErrOnMemAccessOnWalkOrUpdateLevel0
  | IFS_SyncParityOrEccErrOnMemAccessOnWalkOrUpdateLevel1
  | IFS_SyncParityOrEccErrOnMemAccessOnWalkOrUpdateLevel2
  | IFS_SyncParityOrEccErrOnMemAccessOnWalkOrUpdateLevel3
  | IFS_GranuleProtectFaultOnWalkOrUpdateLevelNeg1
  | IFS_GranuleProtectFaultOnWalkOrUpdateLevel0
  | IFS_GranuleProtectFaultOnWalkOrUpdateLevel1
  | IFS_GranuleProtectFaultOnWalkOrUpdateLevel2
  | IFS_GranuleProtectFaultOnWalkOrUpdateLevel3
  | IFS_GranuleProtectFaultNotOnWalkOrUpdateLevel
  | IFS_AddressSizeFaultLevelNeg1
  | IFS_TranslationFaultLevelNeg1
  | IFS_TlbConflictAbort
  | IFS_UnsupportedAtomicHardwareUpdateFault

definition InstructionFaultStatusCode_variants :: "(u8 \<times> InstructionFaultStatusCode) list" where
  "InstructionFaultStatusCode_variants =
     [(0, IFS_AddressSizeFaultLevel0),
      (1, IFS_AddressSizeFaultLevel1),
      (2, IFS_AddressSizeFaultLevel2),
      (3, IFS_AddressSizeFaultLevel3),
      (4, IFS_TranslationFaultLevel0),
      (5, IFS_TranslationFaultLevel1),
      (6, IFS_TranslationFaultLevel2),
      (7, IFS_TranslationFaultLevel3),
      (8, IFS_AccessFlagFaultLevel0),
      (9, IFS_AccessFlagFaultLevel1),
      (10, IFS_AccessFlagFaultLevel2),
      (11, IFS_AccessFlagFaultLevel3),
      (12, IFS_PermissionFaultLevel0),
      (13, IFS_PermissionFaultLevel1),
      (14, IFS_PermissionFaultLevel2),
      (15, IFS_PermissionFaultLevel3),
      (16, IFS_SyncExtAbortNotOnWalkOrUpdate),
      (19, IFS_SyncExtAbortOnWalkOrUpdateLevelNeg1),
      (20, IFS_SyncExtAbortOnWalkOrUpdateLevel0),
      (21, IFS_SyncExtAbortOnWalkOrUpdateLevel1),
      (22, IFS_SyncExtAbortOnWalkOrUpdateLevel2),
      (23, IFS_SyncExtAbortOnWalkOrUpdateLevel3),
      (24, IFS_SyncParityOrEccErrOnMemAccessNotOnWalk),
      (27, IFS_SyncParityOrEccErrOnMemAccessOnWalkOrUpdateLevelNeg1),
      (28, IFS_SyncParityOrEccErrOnMemAccessOnWalkOrUpdateLevel0),
      (29, IFS_SyncParityOrEccErrOnMemAccessOnWalkOrUpdateLevel1),
      (30, IFS_SyncParityOrEccErrOnMemAccessOnWalkOrUpdateLevel2),
      (31, IFS_SyncParityOrEccErrOnMemAccessOnWalkOrUpdateLevel3),
      (35, IFS_GranuleProtectFaultOnWalkOrUpdateLevelNeg1),
      (36, IFS_GranuleProtectFaultOnWalkOrUpdateLevel0),
      (37, IFS_GranuleProtectFaultOnWalkOrUpdateLevel1),
      (38, IFS_GranuleProtectFaultOnWalkOrUpdateLevel2),
      (39, IFS_GranuleProtectFaultOnWalkOrUpdateLevel3),
      (40, IFS_GranuleProtectFaultNotOnWalkOrUpdateLevel),
      (41, IFS_AddressSizeFaultLevelNeg1),
      (43, IFS_TranslationFaultLevelNeg1),
      (48, IFS_TlbConflictAbort),
      (49, IFS_UnsupportedAtomicHardwareUpdateFault)]"

definition instruction_fault :: "EsrEl1IssInstructionAbort \<Rightarrow> u8 + InstructionFaultStatusCode" where
  "instruction_fault r = try_from_primitive InstructionFaultStatusCode_variants (iss_ifsc r)"

end
