(* ===== verification/Vm.thy ===== *)
theory Vm
  imports Kmem Registers
begin

text \<open>
  Model of \<^verbatim>\<open>aarch64/src/vm.rs\<close>: translation table entries, the recursive page tables, mapping
  of pages and ranges, and the construction of the kernel's page table.

  Physical memory is seen as pages of 512 words: \<open>pmem pa i\<close> is the word with index \<open>i\<close> of the
  page at \<open>pa\<close>.  A reference to a table through the kernel's direct map is the physical address
  of its page.  A reference through a recursive address goes through the hardware's translation,
  the argument \<open>mmu\<close>: from the memory and the value of \<open>ttbr1_el1\<close> it gives the physical page
  of a virtual address, \<open>None\<close> for a fault.  The translation reads the tables as they are; the
  code invalidates the TLB after each change of the recursive slot.
\<close>

section \<open>Page sizes and levels\<close>

datatype PageSize = Page4K | Page2M | Page1G

fun PageSize_size :: "PageSize \<Rightarrow> usize" where
  "PageSize_size Page4K = PAGE_SIZE_4K"
| "PageSize_size Page2M = PAGE_SIZE_2M"
| "PageSize_size Page1G = PAGE_SIZE_1G"

datatype Level = Level0 | Level1 | Level2 | Level3

fun next_level :: "Level \<Rightarrow> Level option" where
  "next_level Level0 = Some Level1"
| "next_level Level1 = Some Level2"
| "next_level Level2 = Some Level3"
| "next_level Level3 = None"

fun depth :: "Level \<Rightarrow> nat" where
  "depth Level0 = 0"
| "depth Level1 = 1"
| "depth Level2 = 2"
| "depth Level3 = 3"

section \<open>Entries\<close>

datatype Mair = Mair_Normal | Mair_Device

fun Mair_into :: "Mair \<Rightarrow> u64" where
  "Mair_into Mair_Normal = 0"
| "Mair_into Mair_Device = 1"

definition Mair_from :: "u64 \<Rightarrow> Mair" where
  "Mair_from n = (if n = 1 then Mair_Device else Mair_Normal)"

datatype AccessPermission = PrivRw | AllRw | PrivRo | AllRo

fun AccessPermission_into :: "AccessPermission \<Rightarrow> u64" where
  "AccessPermission_into PrivRw = 0"
| "AccessPermission_into AllRw = 1"
| "AccessPermission_into PrivRo = 2"
| "AccessPermission_into AllRo = 3"

definition AccessPermission_from :: "u64 \<Rightarrow> AccessPermission" where
  "AccessPermission_from n = (if n = 1 then AllRw else if n = 2 then PrivRo else if n = 3 then AllRo else PrivRw)"

datatype Shareable = Sh_Non | Sh_Unpredictable | Sh_Outer | Sh_Inner

fun Shareable_into :: "Shareable \<Rightarrow> u64" where
  "Shareable_into Sh_Non = 0"
| "Shareable_into Sh_Unpredictable = 1"
| "Shareable_into Sh_Outer = 2"
| "Shareable_into Sh_Inner = 3"

definition Shareable_from :: "u64 \<Rightarrow> Shareable" where
  "Shareable_from n = (if n = 1 then Sh_Unpredictable else if n = 2 then Sh_Outer else if n = 3 then Sh_Inner else Sh_Non)"

type_synonym Entry = u64

definition e_valid :: "Entry \<Rightarrow> bool" where "e_valid e = bit e 0"
definition e_page_or_table :: "Entry \<Rightarrow> bool" where "e_page_or_table e = bit e 1"
definition e_mair_index :: "Entry \<Rightarrow> Mair" where "e_mair_index e = Mair_from (field 2 5 e)"
definition e_non_secure :: "Entry \<Rightarrow> bool" where "e_non_secure e = bit e 5"
definition e_access_permission :: "Entry \<Rightarrow> AccessPermission" where
  "e_access_permission e = AccessPermission_from (field 6 8 e)"
definition e_shareable :: "Entry \<Rightarrow> Shareable" where "e_shareable e = Shareable_from (field 8 10 e)"
definition e_accessed :: "Entry \<Rightarrow> bool" where "e_accessed e = bit e 10"
definition e_addr :: "Entry \<Rightarrow> u64" where "e_addr e = field 12 48 e"
definition e_pxn :: "Entry \<Rightarrow> bool" where "e_pxn e = bit e 53"
definition e_uxn :: "Entry \<Rightarrow> bool" where "e_uxn e = bit e 54"

definition with_valid :: "bool \<Rightarrow> Entry \<Rightarrow> Entry" where "with_valid = with_flag 0"
definition with_page_or_table :: "bool \<Rightarrow> Entry \<Rightarrow> Entry" where "with_page_or_table = with_flag 1"
definition with_mair_index :: "Mair \<Rightarrow> Entry \<Rightarrow> Entry" where "with_mair_index v = with_field 2 5 (Mair_into v)"
definition with_access_permission :: "AccessPermission \<Rightarrow> Entry \<Rightarrow> Entry" where
  "with_access_permission v = with_field 6 8 (AccessPermission_into v)"
definition with_shareable :: "Shareable \<Rightarrow> Entry \<Rightarrow> Entry" where
  "with_shareable v = with_field 8 10 (Shareable_into v)"
definition with_accessed :: "bool \<Rightarrow> Entry \<Rightarrow> Entry" where "with_accessed = with_flag 10"
definition with_addr :: "u64 \<Rightarrow> Entry \<Rightarrow> Entry" where "with_addr v = with_field 12 48 v"
definition with_pxn :: "bool \<Rightarrow> Entry \<Rightarrow> Entry" where "with_pxn = with_flag 53"
definition with_uxn :: "bool \<Rightarrow> Entry \<Rightarrow> Entry" where "with_uxn = with_flag 54"

definition Entry_empty :: Entry where "Entry_empty = 0"

definition rw_kernel_data :: Entry where
  "rw_kernel_data =
     with_valid True (with_mair_index Mair_Normal (with_pxn True (with_uxn True
       (with_accessed True (with_shareable Sh_Inner 0)))))"

definition ro_kernel_data :: Entry where
  "ro_kernel_data =
     with_valid True (with_mair_index Mair_Normal (with_pxn True (with_uxn True
       (with_accessed True (with_shareable Sh_Inner (with_access_permission PrivRo 0))))))"

definition ro_kernel_text :: Entry where
  "ro_kernel_text =
     with_valid True (with_mair_index Mair_Normal (with_pxn False (with_uxn True
       (with_accessed True (with_shareable Sh_Inner (with_access_permission PrivRw 0))))))"

definition ro_kernel_device :: Entry where
  "ro_kernel_device =
     with_valid True (with_mair_index Mair_Device (with_pxn True (with_uxn True
       (with_accessed True (with_shareable Sh_Inner (with_access_permission PrivRw 0))))))"

definition with_phys_addr :: "PhysAddr \<Rightarrow> Entry \<Rightarrow> Entry" where
  "with_phys_addr pa e = with_addr (drop_bit 12 (addr pa)) e"

definition phys_page_addr :: "Entry \<Rightarrow> PhysAddr" where
  "phys_page_addr e = PhysAddr (push_bit 12 (e_addr e))"

definition virt_page_addr :: "Entry \<Rightarrow> usize" where
  "virt_page_addr e = physaddr_as_virt (phys_page_addr e)"

definition Entry_table :: "Entry \<Rightarrow> Level \<Rightarrow> bool" where
  "Entry_table e level \<longleftrightarrow> e_page_or_table e \<and> level \<noteq> Level3"

section \<open>Virtual addresses\<close>

fun va_index :: "usize \<Rightarrow> Level \<Rightarrow> usize" where
  "va_index va Level0 = drop_bit 39 va AND 0x1ff"
| "va_index va Level1 = drop_bit 30 va AND 0x1ff"
| "va_index va Level2 = drop_bit 21 va AND 0x1ff"
| "va_index va Level3 = drop_bit 12 va AND 0x1ff"

definition va_indices :: "usize \<Rightarrow> usize \<times> usize \<times> usize \<times> usize" where
  "va_indices va = (va_index va Level0, va_index va Level1, va_index va Level2, va_index va Level3)"

definition recursive_table_addr :: "usize \<Rightarrow> Level \<Rightarrow> usize" where
  "recursive_table_addr va level =
     (let indices_mask = 0x0000fffffffff000;
          indices = va AND indices_mask;
          shift = (case level of Level0 \<Rightarrow> 36 | Level1 \<Rightarrow> 27 | Level2 \<Rightarrow> 18 | Level3 \<Rightarrow> 9);
          recursive_indices =
            (case level of
               Level0 \<Rightarrow> push_bit 39 511 OR push_bit 30 511 OR push_bit 21 511 OR push_bit 12 511
             | Level1 \<Rightarrow> push_bit 39 511 OR push_bit 30 511 OR push_bit 21 511
             | Level2 \<Rightarrow> push_bit 39 511 OR push_bit 30 511
             | Level3 \<Rightarrow> push_bit 39 511)
      in 0xffff000000000000 OR recursive_indices OR (drop_bit shift indices AND indices_mask))"

section \<open>Tables\<close>

datatype PageTableError =
    AllocationFailed BitmapPageAllocError
  | EntryIsNotTable
  | PhysRangeIsZero

type_synonym pages = "PhysAddr \<Rightarrow> nat \<Rightarrow> u64"

record Vm =
  pmem :: pages
  ttbr1 :: u64
  page_alloc :: BitmapPageAlloc

type_synonym mmu = "pages \<Rightarrow> u64 \<Rightarrow> usize \<Rightarrow> PhysAddr option"

text \<open>An operation returns the new state and a \<open>Result\<close>, or panics, or does not return.\<close>

type_synonym 'a vm = "(Vm \<times> (PageTableError + 'a)) rust option"

definition ret_v :: "Vm \<Rightarrow> 'a \<Rightarrow> 'a vm" where
  "ret_v s x = Some (Inr (s, Inr x))"

definition err_v :: "Vm \<Rightarrow> PageTableError \<Rightarrow> 'a vm" where
  "err_v s e = Some (Inr (s, Inl e))"

text \<open>\<open>and_then\<close> and \<open>?\<close>.\<close>

definition bind_v :: "'a vm \<Rightarrow> (Vm \<Rightarrow> 'a \<Rightarrow> 'b vm) \<Rightarrow> 'b vm" where
  "bind_v m f =
     (case m of
        None \<Rightarrow> None
      | Some (Inl p) \<Rightarrow> Some (Inl p)
      | Some (Inr (s, Inl e)) \<Rightarrow> Some (Inr (s, Inl e))
      | Some (Inr (s, Inr x)) \<Rightarrow> f s x)"

lemma bind_v_simps [simp]:
  "bind_v None f = None" "bind_v (Some (Inl p)) f = Some (Inl p)"
  "bind_v (ret_v s x) f = f s x" "bind_v (err_v s e) f = err_v s e"
  by (simp_all add: bind_v_def ret_v_def err_v_def)

lemma bind_v_assoc: "bind_v (bind_v m f) g = bind_v m (\<lambda>s x. bind_v (f s x) g)"
  by (auto simp: bind_v_def split: option.splits sum.splits)

definition write_entry :: "PhysAddr \<Rightarrow> nat \<Rightarrow> Entry \<Rightarrow> Vm \<Rightarrow> Vm" where
  "write_entry t i e s = s\<lparr>pmem := (pmem s)(t := (pmem s t)(i := e))\<rparr>"

text \<open>\<open>Page4K::clear\<close>.\<close>

definition clear_page :: "PhysAddr \<Rightarrow> Vm \<Rightarrow> Vm" where
  "clear_page t s = s\<lparr>pmem := (pmem s)(t := (\<lambda>_. 0))\<rparr>"

definition alloc_pagetable :: "Vm \<Rightarrow> PhysAddr vm" where
  "alloc_pagetable s =
     (case pagealloc_allocate (page_alloc s) of
        None \<Rightarrow> None
      | Some (Inl p) \<Rightarrow> Some (Inl p)
      | Some (Inr (a, Inl e)) \<Rightarrow> err_v (s\<lparr>page_alloc := a\<rparr>) (AllocationFailed e)
      | Some (Inr (a, Inr page)) \<Rightarrow> ret_v (clear_page page (s\<lparr>page_alloc := a\<rparr>)) page)"

text \<open>\<open>entry_mut\<close>: the table and the index of the entry.\<close>

definition entry_mut :: "PhysAddr \<Rightarrow> Level \<Rightarrow> usize \<Rightarrow> PhysAddr \<times> nat" where
  "entry_mut t level va = (t, unat (va_index va level))"

definition table_entry :: "PhysAddr \<Rightarrow> Entry" where
  "table_entry t = with_page_or_table True (with_phys_addr t rw_kernel_data)"

definition next_mut :: "mmu \<Rightarrow> Vm \<Rightarrow> PhysAddr \<Rightarrow> Level \<Rightarrow> usize \<Rightarrow> PhysAddr vm" where
  "next_mut mmu s t level va =
     (let index = unat (va_index va level); entry = pmem s t index
      in bind_v (if \<not> e_valid entry then
                   bind_v (alloc_pagetable s) (\<lambda>s table.
                     ret_v (write_entry t index (table_entry table) s) (table_entry table))
                 else ret_v s entry) (\<lambda>s entry.
           if \<not> Entry_table entry level then err_v s EntryIsNotTable
           else
             (case next_level level of
                None \<Rightarrow> Some (Inl Unwrap_Failed)
              | Some l \<Rightarrow>
                  (case mmu (pmem s) (ttbr1 s) (recursive_table_addr va l) of
                     None \<Rightarrow> Some (Inl Undefined_Behaviour)
                   | Some t' \<Rightarrow> ret_v s t'))))"

definition PageTable_empty :: "nat \<Rightarrow> u64" where
  "PageTable_empty = (\<lambda>_. Entry_empty)"

definition kernel_root :: "Vm \<Rightarrow> PhysAddr" where
  "kernel_root s = PhysAddr (ttbr1 s)"

text \<open>The chain of \<open>next_mut\<close> calls for a page size.\<close>

fun dest_entry :: "mmu \<Rightarrow> Vm \<Rightarrow> PhysAddr \<Rightarrow> usize \<Rightarrow> PageSize \<Rightarrow> (PhysAddr \<times> nat) vm" where
  "dest_entry mmu s self va Page4K =
     bind_v (next_mut mmu s self Level0 va) (\<lambda>s t1.
     bind_v (next_mut mmu s t1 Level1 va) (\<lambda>s t2.
     bind_v (next_mut mmu s t2 Level2 va) (\<lambda>s t3.
       ret_v s (entry_mut t3 Level3 va))))"
| "dest_entry mmu s self va Page2M =
     bind_v (next_mut mmu s self Level0 va) (\<lambda>s t1.
     bind_v (next_mut mmu s t1 Level1 va) (\<lambda>s t2.
       ret_v s (entry_mut t2 Level2 va)))"
| "dest_entry mmu s self va Page1G =
     bind_v (next_mut mmu s self Level0 va) (\<lambda>s t1.
       ret_v s (entry_mut t1 Level1 va))"

definition final_entry :: "PageSize \<Rightarrow> Entry \<Rightarrow> Entry" where
  "final_entry page_size entry = (if page_size = Page4K then with_page_or_table True entry else entry)"

definition map_to :: "mmu \<Rightarrow> Vm \<Rightarrow> PhysAddr \<Rightarrow> Entry \<Rightarrow> usize \<Rightarrow> PageSize \<Rightarrow> unit vm" where
  "map_to mmu s self entry va page_size =
     (let old_recursive_entry = pmem s (kernel_root s) 511;
          s1 = write_entry (kernel_root s) 511 (table_entry self) s
      in bind_v (dest_entry mmu s1 self va page_size) (\<lambda>s2 (t, i).
           let s3 = write_entry t i (final_entry page_size entry) s2
           in ret_v (write_entry (kernel_root s3) 511 old_recursive_entry s3) ()))"

fun map_pages ::
    "mmu \<Rightarrow> Vm \<Rightarrow> PhysAddr \<Rightarrow> Entry \<Rightarrow> PageSize \<Rightarrow> PhysAddr list \<Rightarrow> usize option \<Rightarrow> usize \<Rightarrow> (usize option \<times> usize) vm" where
  "map_pages mmu s self entry page_size [] startva endva = ret_v s (startva, endva)"
| "map_pages mmu s self entry page_size (pa # pas) startva endva =
     (let va = physaddr_as_virt pa
      in bind_v (map_to mmu s self (with_phys_addr pa entry) va page_size) (\<lambda>s _.
           case add_c va (PageSize_size page_size) of
             Inl p \<Rightarrow> Some (Inl p)
           | Inr e \<Rightarrow> map_pages mmu s self entry page_size pas (Some (case startva of None \<Rightarrow> va | Some v \<Rightarrow> v)) e))"

definition map_phys_range ::
    "mmu \<Rightarrow> Vm \<Rightarrow> PhysAddr \<Rightarrow> PhysRange \<Rightarrow> Entry \<Rightarrow> PageSize \<Rightarrow> (usize \<times> usize) vm" where
  "map_phys_range mmu s self rng entry page_size =
     (case step_by_rounded rng (PageSize_size page_size) of
        Inl p \<Rightarrow> Some (Inl p)
      | Inr pas \<Rightarrow>
          bind_v (map_pages mmu s self entry page_size pas None 0) (\<lambda>s (startva, endva).
            case startva of None \<Rightarrow> err_v s PhysRangeIsZero | Some v \<Rightarrow> ret_v s (v, endva)))"

section \<open>The kernel's page table\<close>

text \<open>The memory map, sorted by the start of the ranges (a stable sort).\<close>

type_synonym mapping_row = "PhysRange \<times> Entry \<times> PageSize"

definition custom_map :: "LinkerSymbols \<Rightarrow> MidrEl1 \<Rightarrow> PhysRange \<Rightarrow> mapping_row list rust" where
  "custom_map ld midr dtb_range =
     bind_r (boottext_range ld) (\<lambda>bt.
     bind_r (text_range ld) (\<lambda>tr.
     bind_r (rodata_range ld) (\<lambda>ro.
     bind_r (data_range ld) (\<lambda>dr.
     bind_r (bss_range ld) (\<lambda>bs.
     bind_r (rpi_mmio midr) (\<lambda>mm.
     bind_r (unwrap_r mm) (\<lambda>mmio_range.
       Inr (sort_key (\<lambda>row. pr_start (fst row))
         [(dtb_range, ro_kernel_data, Page4K),
          (PhysRange_add bt tr, ro_kernel_text, Page4K),
          (PhysRange_add ro dr, rw_kernel_data, Page4K),
          (bs, rw_kernel_data, Page4K),
          (mmio_range, ro_kernel_device, Page2M)]))))))))"

text \<open>The loop over the memory map; \<open>expect\<close> turns an error into a panic.\<close>

fun map_rows :: "mmu \<Rightarrow> Vm \<Rightarrow> PhysAddr \<Rightarrow> mapping_row list \<Rightarrow> Vm rust option" where
  "map_rows mmu s self [] = Some (Inr s)"
| "map_rows mmu s self ((rng, flags, page_size) # rows) =
     (case map_phys_range mmu s self rng flags page_size of
        None \<Rightarrow> None
      | Some (Inl p) \<Rightarrow> Some (Inl p)
      | Some (Inr (s', Inl _)) \<Rightarrow> Some (Inl Unwrap_Failed)
      | Some (Inr (s', Inr _)) \<Rightarrow> map_rows mmu s' self rows)"

definition vm_init ::
    "mmu \<Rightarrow> LinkerSymbols \<Rightarrow> MidrEl1 \<Rightarrow> Vm \<Rightarrow> PhysAddr \<Rightarrow> PhysRange \<Rightarrow> PhysRange \<Rightarrow> Vm rust option" where
  "vm_init mmu ld midr s kpage_table dtb_range available_mem =
     (case bind_r (init_page_allocator ld (page_alloc s)) (\<lambda>a.
           bind_r (custom_map ld midr dtb_range) (\<lambda>rows. Inr (a, rows))) of
        Inl p \<Rightarrow> Some (Inl p)
      | Inr (a, rows) \<Rightarrow>
          (let s1 = write_entry kpage_table 511 (table_entry kpage_table) (s\<lparr>page_alloc := a\<rparr>)
           in case map_rows mmu s1 kpage_table rows of
                None \<Rightarrow> None
              | Some (Inl p) \<Rightarrow> Some (Inl p)
              | Some (Inr s2) \<Rightarrow>
                  (case pagealloc_free_unused_ranges (page_alloc s2) available_mem (map fst rows) of
                     Inl p \<Rightarrow> Some (Inl p)
                   | Inr (a', Inl _) \<Rightarrow> Some (Inl Assertion_Failed)
                   | Inr (a', Inr _) \<Rightarrow> Some (Inr (s2\<lparr>page_alloc := a'\<rparr>)))))"

text \<open>\<open>switch\<close>: load \<open>ttbr1_el1\<close>.\<close>

definition switch :: "Vm \<Rightarrow> PhysAddr \<Rightarrow> Vm" where
  "switch s kpage_table = s\<lparr>ttbr1 := addr kpage_table\<rparr>"

end
