(* ===== verification/Vm_Walk.thy ===== *)
theory Vm_Walk
  imports Vm
begin

text \<open>
  The translation table walk of the architecture as a specification, and how the entries and the
  recursive addresses of \<^verbatim>\<open>aarch64/src/vm.rs\<close> look to it.
\<close>

section \<open>Entries\<close>

definition page_addr :: "PhysAddr \<Rightarrow> bool" where
  "page_addr pa \<longleftrightarrow> paddr pa < 2 ^ 48 \<and> 4096 dvd paddr pa"

lemma take_bit_self_iff: "take_bit n w = w \<longleftrightarrow> unat w < 2 ^ n" for w :: u64
  by (simp add: unat_eq_iff [of "take_bit n w"] unsigned_take_bit_eq take_bit_nat_eq_self_iff)

lemma take_bit_0_iff: "take_bit n w = 0 \<longleftrightarrow> 2 ^ n dvd unat w" for w :: u64
proof -
  have "take_bit n w = 0 \<longleftrightarrow> take_bit n (unat w) = 0"
    by (simp only: unat_eq_iff [of "take_bit n w"] unsigned_take_bit_eq unsigned_0)
  then show ?thesis by (simp only: take_bit_eq_0_iff)
qed

lemma page_addr_bits:
  assumes "page_addr pa" and "bit (addr pa) n"
  shows "12 \<le> n \<and> n < 48"
proof -
  have "take_bit 48 (addr pa) = addr pa"
    using assms(1) by (simp add: page_addr_def take_bit_self_iff)
  then have "n < 48" using assms(2) by (metis bit_take_bit_iff)
  have "take_bit 12 (addr pa) = 0" using assms(1) by (simp add: page_addr_def take_bit_0_iff)
  then have "\<not> n < 12" using assms(2) by (metis bit_0_eq bit_take_bit_iff bot_apply bot_bool_def)
  then show ?thesis using \<open>n < 48\<close> by simp
qed

lemma phys_page_addr_with:
  assumes "page_addr pa"
  shows "phys_page_addr (with_phys_addr pa e) = pa"
proof -
  have "push_bit 12 (field 12 48 (with_field 12 48 (drop_bit 12 (addr pa)) e)) = addr pa"
  proof (rule bit_word_eqI)
    fix n
    assume "n < LENGTH(64)"
    then show "bit (push_bit 12 (field 12 48 (with_field 12 48 (drop_bit 12 (addr pa)) e))) n = bit (addr pa) n"
      using page_addr_bits [OF assms, of n] by (auto simp: bit_fields bit_simps)
  qed
  then show ?thesis by (simp add: phys_page_addr_def e_addr_def with_phys_addr_def with_addr_def)
qed

lemma phys_page_addr_flag:
  "phys_page_addr (with_page_or_table b e) = phys_page_addr e"
  by (simp add: phys_page_addr_def e_addr_def with_page_or_table_def field_with_flag)

lemma page_addr_phys_page_addr: "page_addr (phys_page_addr e)"
proof -
  let ?w = "push_bit 12 (field 12 48 e)"
  have "take_bit 48 ?w = ?w" by (rule bit_word_eqI) (auto simp: bit_simps bit_fields)
  then have "unat ?w < 2 ^ 48" by (simp only: take_bit_self_iff)
  moreover have "take_bit 12 ?w = 0" by (rule bit_word_eqI) (auto simp: bit_simps bit_fields)
  then have "4096 dvd unat ?w" by (simp add: take_bit_0_iff)
  ultimately show ?thesis by (simp add: page_addr_def phys_page_addr_def e_addr_def)
qed

lemma with_phys_addr_flags [simp]:
  "e_valid (with_phys_addr pa e) = e_valid e" "e_page_or_table (with_phys_addr pa e) = e_page_or_table e"
  by (simp_all add: e_valid_def e_page_or_table_def with_phys_addr_def with_addr_def flag_with_field)

lemma with_page_or_table_flags [simp]:
  "e_valid (with_page_or_table b e) = e_valid e" "e_page_or_table (with_page_or_table b e) = b"
  by (simp_all add: e_valid_def e_page_or_table_def with_page_or_table_def bit_with_flag_iff)

lemma rw_kernel_data_valid [simp]: "e_valid rw_kernel_data"
  by (simp add: e_valid_def rw_kernel_data_def with_valid_def bit_with_flag_iff)

lemma table_entry_sel [simp]:
  "e_valid (table_entry t)" "e_page_or_table (table_entry t)" "page_addr t \<Longrightarrow> phys_page_addr (table_entry t) = t"
  by (simp_all add: table_entry_def phys_page_addr_flag phys_page_addr_with)

lemma zero_entry [simp]: "\<not> e_valid 0"
  by (simp add: e_valid_def)

section \<open>Indices\<close>

abbreviation ix :: "usize \<Rightarrow> Level \<Rightarrow> nat" where
  "ix va l \<equiv> unat (va_index va l)"

lemma bits9: "(0x1ff :: u64) = mask 9" "(511 :: u64) = mask 9"
  "(0x0000fffffffff000 :: u64) = push_bit 12 (mask 36)" "(0xffff000000000000 :: u64) = push_bit 48 (mask 16)"
  by (simp_all add: mask_eq_decr_exp push_bit_eq_mult)

lemma ix_less: "ix va l < 512"
proof -
  have "unat (take_bit 9 w) < 512" for w :: u64
    unfolding unsigned_take_bit_eq by (simp add: take_bit_eq_mod)
  then show ?thesis by (cases l) (simp_all only: va_index.simps bits9 flip: take_bit_eq_mask)
qed

lemma and_mask9_eqI:
  fixes a b :: u64
  assumes "\<And>n. n < 9 \<Longrightarrow> bit a n = bit b n"
  shows "a AND mask 9 = b AND mask 9"
  using assms by (intro bit_word_eqI) (auto simp: bit_simps)

lemma and_mask9_ones:
  fixes a :: u64
  assumes "\<And>n. n < 9 \<Longrightarrow> bit a n"
  shows "a AND mask 9 = mask 9"
  using assms by (intro bit_word_eqI) (auto simp: bit_simps)

text \<open>A recursive address of level \<open>l\<close> goes \<open>4 - l\<close> times through slot 511 and then along the
  indices of the address.\<close>

lemma recursive_indices:
  "va_index (recursive_table_addr va Level0) Level0 = 511" "va_index (recursive_table_addr va Level0) Level1 = 511"
  "va_index (recursive_table_addr va Level0) Level2 = 511" "va_index (recursive_table_addr va Level0) Level3 = 511"
  "va_index (recursive_table_addr va Level1) Level0 = 511" "va_index (recursive_table_addr va Level1) Level1 = 511"
  "va_index (recursive_table_addr va Level1) Level2 = 511"
  "va_index (recursive_table_addr va Level1) Level3 = va_index va Level0"
  "va_index (recursive_table_addr va Level2) Level0 = 511" "va_index (recursive_table_addr va Level2) Level1 = 511"
  "va_index (recursive_table_addr va Level2) Level2 = va_index va Level0"
  "va_index (recursive_table_addr va Level2) Level3 = va_index va Level1"
  "va_index (recursive_table_addr va Level3) Level0 = 511"
  "va_index (recursive_table_addr va Level3) Level1 = va_index va Level0"
  "va_index (recursive_table_addr va Level3) Level2 = va_index va Level1"
  "va_index (recursive_table_addr va Level3) Level3 = va_index va Level2"
  unfolding recursive_table_addr_def Let_def Level.case va_index.simps bits9
  by ((rule and_mask9_ones | rule and_mask9_eqI), simp add: bit_simps)+

section \<open>The walk\<close>

text \<open>
  The walk of the architecture for a 4 KiB granule and 48-bit addresses: from the table of each
  level the entry with the level's index; an invalid entry ends it with a fault; a table
  descriptor leads to the next level; a block descriptor at level 1 or 2 or a page descriptor at
  level 3 is the result.
\<close>

fun walk :: "pages \<Rightarrow> PhysAddr \<Rightarrow> Level list \<Rightarrow> usize \<Rightarrow> (Entry \<times> Level) option" where
  "walk m t [] va = None"
| "walk m t (l # ls) va =
     (let e = m t (ix va l)
      in if \<not> e_valid e then None
         else if l = Level3 then (if e_page_or_table e then Some (e, l) else None)
         else if e_page_or_table e then walk m (phys_page_addr e) ls va
         else if l = Level0 then None else Some (e, l))"

abbreviation levels :: "Level list" where
  "levels \<equiv> [Level0, Level1, Level2, Level3]"

definition arm_page :: "pages \<Rightarrow> u64 \<Rightarrow> usize \<Rightarrow> PhysAddr option" where
  "arm_page m root va =
     (case walk m (PhysAddr root) levels va of Some (e, Level3) \<Rightarrow> Some (phys_page_addr e) | _ \<Rightarrow> None)"

text \<open>What the code relies on: an address that the walk takes to a page is translated to it.\<close>

definition walks_tables :: "mmu \<Rightarrow> bool" where
  "walks_tables mmu \<longleftrightarrow> (\<forall>m root va p. arm_page m root va = Some p \<longrightarrow> mmu m root va = Some p)"

text \<open>The table a list of indices leads to, and the entries read on the way.\<close>

definition is_table :: "Entry \<Rightarrow> bool" where
  "is_table e \<longleftrightarrow> e_valid e \<and> e_page_or_table e"

fun pt :: "pages \<Rightarrow> PhysAddr \<Rightarrow> nat list \<Rightarrow> PhysAddr option" where
  "pt m t [] = Some t"
| "pt m t (i # is) = (if is_table (m t i) then pt m (phys_page_addr (m t i)) is else None)"

fun cells :: "pages \<Rightarrow> PhysAddr \<Rightarrow> nat list \<Rightarrow> (PhysAddr \<times> nat) list" where
  "cells m t [] = []"
| "cells m t (i # is) = (t, i) # (if is_table (m t i) then cells m (phys_page_addr (m t i)) is else [])"

lemma pt_append: "pt m t (is @ js) = (case pt m t is of None \<Rightarrow> None | Some t' \<Rightarrow> pt m t' js)"
  by (induction "is" arbitrary: t) auto

lemma cells_pt:
  assumes "(t', i) \<in> set (cells m t is)"
  obtains k where "k < length is" and "pt m t (take k is) = Some t'" and "is ! k = i"
  using assms
proof (induction "is" arbitrary: t thesis)
  case (Cons j js)
  show ?case
  proof (cases "t' = t \<and> i = j")
    case True
    then show ?thesis using Cons.prems(1) [of 0] by simp
  next
    case False
    then have tb: "is_table (m t j)" and c: "(t', i) \<in> set (cells m (phys_page_addr (m t j)) js)"
      using Cons.prems(2) by (auto split: if_splits)
    obtain k where "k < length js" "pt m (phys_page_addr (m t j)) (take k js) = Some t'" "js ! k = i"
      using Cons.IH [OF _ c] by blast
    then show ?thesis using Cons.prems(1) [of "Suc k"] tb by simp
  qed
qed simp

lemma pt_cong:
  "(\<And>t' i. (t', i) \<in> set (cells m t is) \<Longrightarrow> m' t' i = m t' i) \<Longrightarrow> pt m' t is = pt m t is"
  by (induction "is" arbitrary: t) (auto split: if_splits)

lemma walk_cong:
  "(\<And>t' i. (t', i) \<in> set (cells m t (map (ix va) ls)) \<Longrightarrow> m' t' i = m t' i) \<Longrightarrow> walk m' t ls va = walk m t ls va"
proof (induction ls arbitrary: t)
  case (Cons l ls)
  have "m' t (ix va l) = m t (ix va l)" using Cons.prems by simp
  moreover have "walk m' (phys_page_addr (m t (ix va l))) ls va = walk m (phys_page_addr (m t (ix va l))) ls va"
    if "is_table (m t (ix va l))"
    using that Cons.prems by (intro Cons.IH) simp
  ultimately show ?case by (auto simp: Let_def is_table_def)
qed simp

text \<open>A walk that has reached a table goes on from there.\<close>

lemma walk_pt:
  assumes "pt m t (map (ix va) ls) = Some t'" and "Level3 \<notin> set ls"
  shows "walk m t (ls @ ls') va = walk m t' ls' va"
  using assms by (induction ls arbitrary: t) (auto simp: Let_def is_table_def split: if_splits)

text \<open>If the entry behind a table is invalid, every walk through it faults.\<close>

lemma walk_invalid:
  assumes "pt m t (map (ix va) ls) = Some t'" and "Level3 \<notin> set ls" and "\<not> e_valid (m t' (ix va l))"
  shows "walk m t (ls @ l # ls') va = None"
  using walk_pt [OF assms(1,2)] assms(3) by simp

declare walk.simps [simp del] va_index.simps [simp del]

end
