(* ===== verification/Vm_Tree.thy ===== *)
theory Vm_Tree
  imports Vm_Walk
begin

text \<open>
  The page tables below a root as a tree: no table is reached on two ways, apart from the
  recursive slot 511, and what changes of single entries and fresh tables do to it.
\<close>

definition hd_ok :: "nat list \<Rightarrow> bool" where
  "hd_ok is \<longleftrightarrow> (case is of [] \<Rightarrow> True | i # _ \<Rightarrow> i \<noteq> 511)"

definition kpath :: "nat list \<Rightarrow> bool" where
  "kpath is \<longleftrightarrow> length is \<le> 3 \<and> hd_ok is"

definition tables :: "pages \<Rightarrow> PhysAddr \<Rightarrow> PhysAddr set" where
  "tables m s = {p. \<exists>is. kpath is \<and> pt m s is = Some p}"

text \<open>The index paths at which a table hangs.\<close>

definition tabs :: "pages \<Rightarrow> PhysAddr \<Rightarrow> nat list set" where
  "tabs m s = {is. kpath is \<and> pt m s is \<noteq> None}"

definition points_to :: "Entry \<Rightarrow> PhysAddr \<Rightarrow> bool" where
  "points_to e t \<longleftrightarrow> is_table e \<and> phys_page_addr e = t"

definition tree_ok :: "pages \<Rightarrow> PhysAddr \<Rightarrow> bool" where
  "tree_ok m s \<longleftrightarrow> points_to (m s 511) s \<and>
     (\<forall>is js p. kpath is \<and> kpath js \<and> pt m s is = Some p \<and> pt m s js = Some p \<longrightarrow> is = js)"

definition set_cell :: "pages \<Rightarrow> PhysAddr \<Rightarrow> nat \<Rightarrow> Entry \<Rightarrow> pages" where
  "set_cell m t i e = m(t := (m t)(i := e))"

lemma set_cell_apply: "set_cell m t i e p j = (if p = t \<and> j = i then e else m p j)"
  by (simp add: set_cell_def)

lemma hd_ok_simps [simp]: "hd_ok []" "hd_ok (i # is) \<longleftrightarrow> i \<noteq> 511"
  by (simp_all add: hd_ok_def)

lemma hd_ok_take: "hd_ok is \<Longrightarrow> hd_ok (take k is)"
  by (cases "is"; cases k) simp_all

lemma hd_ok_append: "hd_ok (is @ js) \<Longrightarrow> hd_ok is"
  by (cases "is") simp_all

lemma table_entry_points [simp]: "page_addr t \<Longrightarrow> points_to (table_entry t) t"
  by (simp add: points_to_def is_table_def)

lemma root_in_tables: "s \<in> tables m s"
  by (auto simp: tables_def kpath_def intro: exI [of _ "[]"])

lemma tree_ok_unique:
  "tree_ok m s \<Longrightarrow> kpath is \<Longrightarrow> kpath js \<Longrightarrow> pt m s is = Some p \<Longrightarrow> pt m s js = Some p \<Longrightarrow> is = js"
  unfolding tree_ok_def by blast

lemma cell_path:
  assumes "(t, i) \<in> set (cells m s is)" and "length is \<le> 4" and "hd_ok is"
  obtains k where "k < length is" and "kpath (take k is)" and "pt m s (take k is) = Some t" and "is ! k = i"
proof -
  obtain k where k: "k < length is" "pt m s (take k is) = Some t" "is ! k = i"
    using assms(1) by (rule cells_pt)
  then have "kpath (take k is)" using assms(2,3) by (simp add: kpath_def hd_ok_take)
  then show thesis using that k by blast
qed

lemma cell_fresh:
  assumes "q \<notin> tables m s" and "length is \<le> 4" and "hd_ok is"
  shows "(q, i) \<notin> set (cells m s is)"
  using assms cell_path [of q i m s "is"] by (auto simp: tables_def)

lemma cell_other:
  assumes "tree_ok m s" and "kpath js" and "pt m s js = Some t" and "length is \<le> 4" and "hd_ok is"
    and "take (Suc (length js)) is \<noteq> js @ [i]"
  shows "(t, i) \<notin> set (cells m s is)"
proof
  assume "(t, i) \<in> set (cells m s is)"
  then obtain k where k: "k < length is" "kpath (take k is)" "pt m s (take k is) = Some t" "is ! k = i"
    using cell_path assms(4,5) by blast
  then have "js = take k is" using tree_ok_unique [OF assms(1,2)] assms(3) by blast
  then have "take (Suc (length js)) is = js @ [i]" using k(1,4) by (simp add: take_Suc_conv_app_nth)
  then show False using assms(6) by simp
qed

text \<open>Memory that agrees on everything read from the root gives the same tree.\<close>

definition same_tree :: "pages \<Rightarrow> pages \<Rightarrow> PhysAddr \<Rightarrow> bool" where
  "same_tree m m' s \<longleftrightarrow> (\<forall>is. length is \<le> 4 \<and> hd_ok is \<longrightarrow> (\<forall>(t, i) \<in> set (cells m s is). m' t i = m t i))"

lemma same_treeD:
  assumes "same_tree m m' s"
  shows "length is \<le> 4 \<Longrightarrow> hd_ok is \<Longrightarrow> pt m' s is = pt m s is"
    and "ix va Level0 \<noteq> 511 \<Longrightarrow> walk m' s levels va = walk m s levels va"
proof -
  show "pt m' s is = pt m s is" if "length is \<le> 4" "hd_ok is"
    using assms that by (intro pt_cong) (auto simp: same_tree_def)
  show "walk m' s levels va = walk m s levels va" if "ix va Level0 \<noteq> 511"
  proof (rule walk_cong)
    fix t i
    assume c: "(t, i) \<in> set (cells m s (map (ix va) levels))"
    have "length (map (ix va) levels) \<le> 4" "hd_ok (map (ix va) levels)" using that by auto
    then show "m' t i = m t i" using assms c unfolding same_tree_def by blast
  qed
qed

lemma same_tree_tables: "same_tree m m' s \<Longrightarrow> tables m' s = tables m s"
  by (auto simp: tables_def kpath_def same_treeD)

lemma same_tree_ok:
  assumes "same_tree m m' s" and "tree_ok m s" and "points_to (m' s 511) s"
  shows "tree_ok m' s"
proof -
  have "pt m' s is = pt m s is" if "kpath is" for "is"
    using that by (intro same_treeD(1) [OF assms(1)]) (auto simp: kpath_def)
  then show ?thesis using assms(2,3) unfolding tree_ok_def by metis
qed

lemma same_tree_fresh: "q \<notin> tables m s \<Longrightarrow> same_tree m (m(q := f)) s"
  using cell_fresh by (fastforce simp: same_tree_def)

lemma same_tree_root:
  assumes "tree_ok m s" and "r = s \<or> r \<notin> tables m s"
  shows "same_tree m (set_cell m r 511 e) s"
proof -
  have "(r, 511) \<notin> set (cells m s is)" if "length is \<le> 4" "hd_ok is" for "is"
  proof (cases "r = s")
    case True
    show ?thesis
    proof (cases "take (Suc (length [])) is = [] @ [511 :: nat]")
      case True
      then show ?thesis using that by (cases "is") auto
    next
      case False
      then show ?thesis using cell_other [OF assms(1), of "[]" s "is" 511] that True by (simp add: kpath_def)
    qed
  qed (use assms(2) that cell_fresh in auto)
  then show ?thesis by (fastforce simp: same_tree_def set_cell_apply)
qed

section \<open>Changing one entry\<close>

lemma set_cell_other:
  assumes "tree_ok m s" and "kpath js" and "pt m s js = Some t" and "length is \<le> 4" and "hd_ok is"
    and "take (Suc (length js)) is \<noteq> js @ [i]"
  shows "pt (set_cell m t i e) s is = pt m s is"
proof (rule pt_cong)
  fix t' j
  assume "(t', j) \<in> set (cells m s is)"
  then show "set_cell m t i e t' j = m t' j" using cell_other [OF assms] by (auto simp: set_cell_apply)
qed

lemma set_cell_walk:
  assumes "tree_ok m s" and "kpath js" and "pt m s js = Some t" and "ix va Level0 \<noteq> 511"
    and "take (Suc (length js)) (map (ix va) levels) \<noteq> js @ [i]"
  shows "walk (set_cell m t i e) s levels va = walk m s levels va"
proof (rule walk_cong)
  fix t' j
  assume c: "(t', j) \<in> set (cells m s (map (ix va) levels))"
  have "(t, i) \<notin> set (cells m s (map (ix va) levels))"
    by (rule cell_other [OF assms(1-3)]) (use assms(4,5) in auto)
  then show "set_cell m t i e t' j = m t' j" using c by (auto simp: set_cell_apply)
qed

lemma set_cell_here:
  assumes "tree_ok m s" and "kpath js" and "pt m s js = Some t"
  shows "pt (set_cell m t i e) s js = Some t"
    and "pt (set_cell m t i e) s (js @ i # ks) =
      (if is_table e then pt (set_cell m t i e) (phys_page_addr e) ks else None)"
proof -
  show *: "pt (set_cell m t i e) s js = Some t"
    using set_cell_other [OF assms, of js i e] assms(2,3) by (simp add: kpath_def)
  show "pt (set_cell m t i e) s (js @ i # ks) =
      (if is_table e then pt (set_cell m t i e) (phys_page_addr e) ks else None)"
    by (simp add: pt_append * set_cell_apply)
qed

text \<open>A new leaf: an entry that is no table, or an entry of the last level.\<close>

lemma set_leaf_tree:
  assumes ok: "tree_ok m s" and js: "kpath js" "pt m s js = Some t" and hd: "hd_ok (js @ [i])"
    and e: "\<not> is_table e \<or> length js = 3"
  shows "tree_ok (set_cell m t i e) s" and "tables (set_cell m t i e) s \<subseteq> tables m s"
    and "\<And>is p. kpath is \<Longrightarrow> pt (set_cell m t i e) s is = Some p \<Longrightarrow> pt m s is = Some p"
proof -
  let ?m = "set_cell m t i e"
  show sub: "pt m s is = Some p" if "kpath is" "pt ?m s is = Some p" for "is" p
  proof (cases "take (Suc (length js)) is = js @ [i]")
    case True
    then obtain ks where "is": "is = js @ i # ks" by (metis append_Cons append_Nil append_assoc append_take_drop_id)
    then have "length js < 3" using that(1) by (simp add: kpath_def)
    then have "pt ?m s is = None" using set_cell_here(2) [OF ok js, of i e ks] e "is" by simp
    then show ?thesis using that(2) by simp
  next
    case False
    have "pt ?m s is = pt m s is"
      by (rule set_cell_other [OF ok js _ _ False]) (use that(1) in \<open>auto simp: kpath_def\<close>)
    then show ?thesis using that(2) by simp
  qed
  then show "tables ?m s \<subseteq> tables m s" by (auto simp: tables_def)
  have "\<not> (t = s \<and> i = 511)"
  proof
    assume "t = s \<and> i = 511"
    then have "js = []" using tree_ok_unique [OF ok js(1), of "[]" s] js(2) by (simp add: kpath_def)
    then show False using hd \<open>t = s \<and> i = 511\<close> by simp
  qed
  then have "?m s 511 = m s 511" by (auto simp: set_cell_apply)
  then show "tree_ok ?m s" using ok sub unfolding tree_ok_def by metis
qed

text \<open>A new table: an empty page hung under an entry that was invalid.\<close>

lemma set_table_pt:
  assumes ok: "tree_ok m s" and js: "kpath js" "pt m s js = Some t" and q: "q \<notin> tables m s" "page_addr q"
    and z: "\<And>j. m q j = 0" and e: "\<not> e_valid (m t i)"
  shows "kpath is \<Longrightarrow> pt (set_cell m t i (table_entry q)) s is = (if is = js @ [i] then Some q else pt m s is)"
proof -
  let ?m = "set_cell m t i (table_entry q)"
  have "t \<noteq> q" using q(1) js by (auto simp: tables_def)
  then have "pt ?m q ks = (if ks = [] then Some q else None)" for ks
    using z by (cases ks) (simp_all add: set_cell_apply is_table_def)
  then have ext: "pt ?m s (js @ i # ks) = (if ks = [] then Some q else None)" for ks
    using set_cell_here(2) [OF ok js, of i "table_entry q" ks] q(2) by (simp add: is_table_def)
  assume "is": "kpath is"
  show "pt ?m s is = (if is = js @ [i] then Some q else pt m s is)"
  proof (cases "take (Suc (length js)) is = js @ [i]")
    case True
    then obtain ks where ks: "is = js @ i # ks" by (metis append_Cons append_Nil append_assoc append_take_drop_id)
    have "pt m s is = None" using e js(2) by (simp add: ks pt_append is_table_def)
    then show ?thesis using ext [of ks] ks by auto
  next
    case False
    then have "is \<noteq> js @ [i]" by auto
    moreover have "pt ?m s is = pt m s is"
      by (rule set_cell_other [OF ok js _ _ False]) (use "is" in \<open>auto simp: kpath_def\<close>)
    ultimately show ?thesis by simp
  qed
qed

text \<open>No address is translated through the new table.\<close>

lemma set_table_walk:
  assumes ok: "tree_ok m s" and js: "kpath (js @ [i])" "pt m s js = Some t" and e: "\<not> e_valid (m t i)"
    and here: "pt (set_cell m t i (table_entry q)) s (js @ [i]) = Some q" and z: "\<And>j. set_cell m t i (table_entry q) q j = 0"
    and va: "ix va Level0 \<noteq> 511"
  shows "walk (set_cell m t i (table_entry q)) s levels va = walk m s levels va"
proof (cases "take (Suc (length js)) (map (ix va) levels) = js @ [i]")
  case False
  have "kpath js" using js(1) by (auto simp: kpath_def dest: hd_ok_append)
  then show ?thesis using False by (rule set_cell_walk [OF ok _ js(2) va])
next
  case True
  define n where "n = length js"
  have n: "n < 3" using js(1) by (simp add: n_def kpath_def)
  have *: "map (ix va) (take (Suc n) levels) = js @ [i]" using True by (simp only: n_def take_map)
  have "take (Suc n) levels = take n levels @ [levels ! n]" using n by (intro take_Suc_conv_app_nth) simp
  then have jsv: "js = map (ix va) (take n levels)" "i = ix va (levels ! n)" using * by simp_all
  have lv: "levels = take n levels @ levels ! n # drop (Suc n) levels"
    using n by (intro id_take_nth_drop) simp
  have l3: "Level3 \<notin> set (take n levels)" "levels ! n \<noteq> Level3" "Level3 \<notin> set (take (Suc n) levels)"
    using n by (auto simp: less_Suc_eq numeral_3_eq_3 take_Suc_Cons)
  have "walk m s levels va = None"
    by (subst lv, rule walk_invalid [of _ _ _ _ t]) (use js(2) jsv l3 e in auto)
  moreover have "walk (set_cell m t i (table_entry q)) s levels va = None"
  proof -
    obtain l ls where d: "drop (Suc n) levels = l # ls" using n by (cases "drop (Suc n) levels") auto
    have lv': "levels = take (Suc n) levels @ l # ls"
      using append_take_drop_id [of "Suc n" levels] unfolding d by (rule sym)
    show ?thesis by (subst lv', rule walk_invalid) (use l3 z here * in auto)
  qed
  ultimately show ?thesis by simp
qed

lemma set_table_tree:
  assumes ok: "tree_ok m s" and js: "kpath (js @ [i])" "pt m s js = Some t" and q: "q \<notin> tables m s" "page_addr q"
    and z: "\<And>j. m q j = 0" and e: "\<not> e_valid (m t i)"
  defines "m' \<equiv> set_cell m t i (table_entry q)"
  shows "tree_ok m' s" and "tables m' s = insert q (tables m s)" and "pt m' s (js @ [i]) = Some q"
    and "\<And>va. ix va Level0 \<noteq> 511 \<Longrightarrow> walk m' s levels va = walk m s levels va"
    and "\<And>is. kpath is \<Longrightarrow> pt m' s is = (if is = js @ [i] then Some q else pt m s is)"
proof -
  have kj: "kpath js" using js(1) by (auto simp: kpath_def dest: hd_ok_append)
  show path: "pt m' s is = (if is = js @ [i] then Some q else pt m s is)" if "kpath is" for "is"
    unfolding m'_def by (rule set_table_pt [OF ok kj js(2) q z e that])
  then show here: "pt m' s (js @ [i]) = Some q" using js(1) by simp
  have no: "pt m s is \<noteq> Some q" if "kpath is" for "is" using q(1) that by (auto simp: tables_def)
  have none: "pt m s (js @ [i]) = None" using e js(2) by (simp add: pt_append is_table_def)
  show "tables m' s = insert q (tables m s)"
  proof -
    have "(\<exists>is. kpath is \<and> pt m' s is = Some p) \<longleftrightarrow> p = q \<or> (\<exists>is. kpath is \<and> pt m s is = Some p)" for p
    proof
      assume "\<exists>is. kpath is \<and> pt m' s is = Some p"
      then show "p = q \<or> (\<exists>is. kpath is \<and> pt m s is = Some p)" using path by (metis option.inject)
    next
      assume "p = q \<or> (\<exists>is. kpath is \<and> pt m s is = Some p)"
      then show "\<exists>is. kpath is \<and> pt m' s is = Some p" using path here js(1) none by (metis option.distinct(1))
    qed
    then show ?thesis by (auto simp: tables_def)
  qed
  have "\<not> (t = s \<and> i = 511)" using e ok by (auto simp: tree_ok_def points_to_def is_table_def)
  then have "m' s 511 = m s 511" by (auto simp: m'_def set_cell_apply)
  moreover have "is = ks" if "kpath is" "kpath ks" "pt m' s is = Some p" "pt m' s ks = Some p" for "is" ks p
    using that path [OF that(1)] path [OF that(2)] no [OF that(1)] no [OF that(2)] tree_ok_unique [OF ok that(1,2)]
    by (auto split: if_splits)
  ultimately show "tree_ok m' s" using ok unfolding tree_ok_def by metis
  have "t \<noteq> q" using q(1) js(2) kj by (auto simp: tables_def)
  then have zq: "m' q j = 0" for j using z by (simp add: m'_def set_cell_apply)
  fix va :: usize
  assume va: "ix va Level0 \<noteq> 511"
  show "walk m' s levels va = walk m s levels va"
    unfolding m'_def by (rule set_table_walk [OF ok js e here [unfolded m'_def] zq [unfolded m'_def] va])
qed

end
