(* ===== verification/Vm_Map.thy ===== *)
theory Vm_Map
  imports Vm_Tree
begin

text \<open>
  Correctness of \<open>next_mut\<close> and \<open>map_to\<close>: with a page table tree whose pages are not free in the
  page allocator, mapping a page changes the translation of that page and of no other.
\<close>

section \<open>The invariant\<close>

definition vm_inv :: "Vm \<Rightarrow> PhysAddr \<Rightarrow> bool" where
  "vm_inv v s \<longleftrightarrow>
     page_addr s \<and> tree_ok (pmem v) s \<and> pa_inv (page_alloc v) \<and>
     free_addrs (page_alloc v) \<subseteq> Collect page_addr \<and>
     tables (pmem v) s \<inter> free_addrs (page_alloc v) = {} \<and>
     kernel_root v \<notin> free_addrs (page_alloc v) \<and>
     (kernel_root v = s \<or> kernel_root v \<notin> tables (pmem v) s)"

text \<open>The recursive slot of the current root leads to the table that is worked on.\<close>

definition rec_ok :: "Vm \<Rightarrow> PhysAddr \<Rightarrow> bool" where
  "rec_ok v s \<longleftrightarrow> points_to (pmem v (kernel_root v) 511) s"

lemma write_entry_sel [simp]:
  "pmem (write_entry t i e v) = set_cell (pmem v) t i e" "ttbr1 (write_entry t i e v) = ttbr1 v"
  "page_alloc (write_entry t i e v) = page_alloc v" "kernel_root (write_entry t i e v) = kernel_root v"
  by (simp_all add: write_entry_def set_cell_def kernel_root_def)

lemma clear_page_sel [simp]:
  "pmem (clear_page t v) = (pmem v)(t := (\<lambda>_. 0))" "ttbr1 (clear_page t v) = ttbr1 v"
  "page_alloc (clear_page t v) = page_alloc v" "kernel_root (clear_page t v) = kernel_root v"
  by (simp_all add: clear_page_def kernel_root_def)

lemma write_root_inv:
  assumes inv: "vm_inv v s" and e: "kernel_root v = s \<Longrightarrow> points_to e s"
  defines "v' \<equiv> write_entry (kernel_root v) 511 e v"
  shows "vm_inv v' s" and "same_tree (pmem v) (pmem v') s"
proof -
  have ok: "tree_ok (pmem v) s" and r: "kernel_root v = s \<or> kernel_root v \<notin> tables (pmem v) s"
    using inv by (auto simp: vm_inv_def)
  show same: "same_tree (pmem v) (pmem v') s" using same_tree_root [OF ok r] by (simp add: v'_def)
  have "points_to (pmem v' s 511) s"
    using e ok by (auto simp: v'_def set_cell_apply tree_ok_def)
  then have "tree_ok (pmem v') s" by (rule same_tree_ok [OF same ok])
  then show "vm_inv v' s" using inv same_tree_tables [OF same] by (simp add: vm_inv_def v'_def)
qed

section \<open>Allocating a table\<close>

text \<open>The page size, the number of pages and the end of the memory never change.\<close>

definition geometry :: "BitmapPageAlloc \<Rightarrow> nat \<times> nat \<times> PhysAddr" where
  "geometry a = (PS a, npages a, end_pa a)"

lemma geometry_take: "geometry ((put_page a p b)\<lparr>next_pa_to_scan := q\<rparr>) = geometry a"
  by (simp add: geometry_def put_page_def npages_def Let_def)

lemma allocate_cases:
  assumes "pa_inv a"
  obtains (full) "free_addrs a = {}" and "allocate a = Some (Inr (a, Inl OutOfSpace))"
  | (page) a' q where "allocate a = Some (Inr (a', Inr q))" and "q \<in> free_addrs a"
      and "free_addrs a' = free_addrs a - {q}" and "pa_inv a'" and "geometry a' = geometry a"
proof (cases "free_pages a = {}")
  case True
  then show thesis using full allocate_none [OF assms] by (simp add: free_addrs_def)
next
  case False
  obtain p q where "allocate a = Some (Inr ((put_page a p True)\<lparr>next_pa_to_scan := q\<rparr>, Inr q))"
    using allocate_some [OF assms False] by blast
  then have al: "allocate a = Some (Inr ((put_page a p True)\<lparr>next_pa_to_scan := q\<rparr>, Inr q))"
      and "alloc_page a = Some ((put_page a p True)\<lparr>next_pa_to_scan := q\<rparr>, q)"
    by (simp_all add: alloc_page_def)
  from bitmap_source.alloc_Some [OF assms this(2)] show thesis using page [OF al] geometry_take by blast
qed

text \<open>What an operation that adds tables to the tree of \<open>s\<close> does: the tables keep their
  pages, each new one is a page that was free, and no translation changes.\<close>

definition kept :: "Vm \<Rightarrow> Vm \<Rightarrow> PhysAddr \<Rightarrow> bool" where
  "kept v v' s \<longleftrightarrow> vm_inv v' s \<and> rec_ok v' s \<and> ttbr1 v' = ttbr1 v \<and>
     geometry (page_alloc v') = geometry (page_alloc v) \<and>
     free_addrs (page_alloc v') \<subseteq> free_addrs (page_alloc v) \<and>
     (\<forall>is p. kpath is \<longrightarrow> pt (pmem v) s is = Some p \<longrightarrow> pt (pmem v') s is = Some p) \<and>
     (\<forall>is p. kpath is \<longrightarrow> pt (pmem v') s is = Some p \<longrightarrow> pt (pmem v) s is = Some p \<or> p \<in> free_addrs (page_alloc v)) \<and>
     finite (tabs (pmem v') s - tabs (pmem v) s) \<and>
     card (free_addrs (page_alloc v)) =
       card (free_addrs (page_alloc v')) + card (tabs (pmem v') s - tabs (pmem v) s) \<and>
     (\<forall>i. i \<noteq> 511 \<longrightarrow> pmem v' s i = pmem v s i \<or> is_table (pmem v' s i)) \<and>
     (\<forall>va. ix va Level0 \<noteq> 511 \<longrightarrow> walk (pmem v') s levels va = walk (pmem v) s levels va) \<and>
     (\<forall>p. p \<notin> tables (pmem v) s \<longrightarrow> p \<notin> free_addrs (page_alloc v) \<longrightarrow> pmem v' p = pmem v p)"

lemma kept_refl: "vm_inv v s \<Longrightarrow> rec_ok v s \<Longrightarrow> kept v v s"
  by (simp add: kept_def)

lemma kept_tables: "kept v v' s \<Longrightarrow> tables (pmem v') s \<subseteq> tables (pmem v) s \<union> free_addrs (page_alloc v)"
  unfolding kept_def tables_def by blast

lemma kept_tabs: "kept v v' s \<Longrightarrow> tabs (pmem v) s \<subseteq> tabs (pmem v') s"
  unfolding kept_def tabs_def by blast

lemma keptD:
  assumes "kept v v' s" and "kpath is"
  shows "pt (pmem v) s is = Some p \<Longrightarrow> pt (pmem v') s is = Some p"
    and "pt (pmem v') s is = Some p \<Longrightarrow> pt (pmem v) s is = Some p \<or> p \<in> free_addrs (page_alloc v)"
    and "free_addrs (page_alloc v') \<subseteq> free_addrs (page_alloc v)"
  using assms unfolding kept_def by blast+

lemma kept_trans:
  assumes "kept v v1 s" and "kept v1 v2 s"
  shows "kept v v2 s"
proof -
  let ?T = "\<lambda>v. tabs (pmem v) s" and ?F = "\<lambda>v. free_addrs (page_alloc v)"
  have "pmem v2 p = pmem v p" if "p \<notin> tables (pmem v) s" "p \<notin> ?F v" for p
  proof -
    have "p \<notin> tables (pmem v1) s" "p \<notin> ?F v1" using assms(1) kept_tables [OF assms(1)] that unfolding kept_def by blast+
    then have "pmem v2 p = pmem v1 p" using assms(2) unfolding kept_def by blast
    then show ?thesis using assms(1) that unfolding kept_def by metis
  qed
  moreover have "pmem v2 s i = pmem v s i \<or> is_table (pmem v2 s i)" if "i \<noteq> 511" for i
    using assms that unfolding kept_def by metis
  moreover have "pt (pmem v) s is = Some p \<or> p \<in> ?F v" if "kpath is" "pt (pmem v2) s is = Some p" for "is" p
    using keptD(2) [OF assms(2) that] keptD(2,3) [OF assms(1) that(1)] by blast
  moreover have "finite (?T v2 - ?T v) \<and> card (?F v) = card (?F v2) + card (?T v2 - ?T v)"
  proof -
    have "?T v2 - ?T v = (?T v2 - ?T v1) \<union> (?T v1 - ?T v)" using kept_tabs [OF assms(1)] kept_tabs [OF assms(2)] by blast
    moreover have "finite (?T v2 - ?T v1)" "finite (?T v1 - ?T v)" using assms unfolding kept_def by blast+
    moreover have "card (?F v) = card (?F v1) + card (?T v1 - ?T v)" "card (?F v1) = card (?F v2) + card (?T v2 - ?T v1)"
      using assms unfolding kept_def by blast+
    moreover have "(?T v2 - ?T v1) \<inter> (?T v1 - ?T v) = {}" by blast
    ultimately show ?thesis by (simp only: card_Un_disjoint finite_Un) simp
  qed
  moreover have "vm_inv v2 s \<and> rec_ok v2 s \<and> ttbr1 v2 = ttbr1 v \<and> geometry (page_alloc v2) = geometry (page_alloc v) \<and> ?F v2 \<subseteq> ?F v"
    using assms unfolding kept_def by auto
  moreover have "pt (pmem v2) s is = Some p" if "kpath is" "pt (pmem v) s is = Some p" for "is" p
    using keptD(1) [OF assms(2) that(1)] keptD(1) [OF assms(1) that] by blast
  moreover have "walk (pmem v2) s levels va = walk (pmem v) s levels va" if "ix va Level0 \<noteq> 511" for va
    using assms that unfolding kept_def by metis
  ultimately show ?thesis unfolding kept_def by blast
qed

lemma new_table:
  assumes inv: "vm_inv v s" and rc: "rec_ok v s" and js: "kpath (js @ [i])" "pt (pmem v) s js = Some t"
    and e: "\<not> e_valid (pmem v t i)"
    and a: "q \<in> free_addrs (page_alloc v)" "free_addrs a' = free_addrs (page_alloc v) - {q}" "pa_inv a'" "geometry a' = geometry (page_alloc v)"
  defines "v' \<equiv> write_entry t i (table_entry q) (clear_page q (v\<lparr>page_alloc := a'\<rparr>))"
  shows "kept v v' s" and "pt (pmem v') s (js @ [i]) = Some q" and "tabs (pmem v') s = insert (js @ [i]) (tabs (pmem v) s)"
proof -
  let ?m = "(pmem v)(q := (\<lambda>_. 0))"
  have ok: "tree_ok (pmem v) s" and q: "q \<notin> tables (pmem v) s" "page_addr q" and rq: "kernel_root v \<noteq> q"
    using inv a(1) by (auto simp: vm_inv_def)
  have same: "same_tree (pmem v) ?m s" by (rule same_tree_fresh [OF q(1)])
  have sq: "s \<noteq> q" using root_in_tables q(1) by metis
  then have ok1: "tree_ok ?m s" using ok by (intro same_tree_ok [OF same ok]) (simp add: tree_ok_def)
  have kj: "kpath js" using js(1) by (auto simp: kpath_def dest: hd_ok_append)
  have pts: "pt ?m s is = pt (pmem v) s is" if "kpath is" for "is"
    using same_treeD(1) [OF same, of "is"] that by (simp add: kpath_def)
  have t1: "pt ?m s js = Some t" using pts [OF kj] js(2) by simp
  have tt: "t \<in> tables (pmem v) s" using js(2) kj by (auto simp: tables_def)
  then have tq: "t \<noteq> q" using q(1) by auto
  have tb: "tables ?m s = tables (pmem v) s" by (rule same_tree_tables [OF same])
  have z: "?m q j = 0" for j by simp
  have e1: "\<not> e_valid (?m t i)" using e tq by simp
  have m': "pmem v' = set_cell ?m t i (table_entry q)" and r': "kernel_root v' = kernel_root v"
    and a': "page_alloc v' = a'" and tt': "ttbr1 v' = ttbr1 v"
    by (simp_all add: v'_def kernel_root_def)
  have q1: "q \<notin> tables ?m s" using q(1) tb by simp
  note new = set_table_tree [OF ok1 js(1) t1 q1 q(2) z e1, folded m']
  show "pt (pmem v') s (js @ [i]) = Some q" by (rule new(3))
  have path: "pt (pmem v') s is = (if is = js @ [i] then Some q else pt (pmem v) s is)" if "kpath is" for "is"
    using new(5) [OF that] pts [OF that] by simp
  then show T: "tabs (pmem v') s = insert (js @ [i]) (tabs (pmem v) s)" using js(1) by (auto simp: tabs_def)
  have none: "pt (pmem v) s (js @ [i]) = None" using e js(2) by (simp add: pt_append is_table_def)
  have tb': "tables (pmem v') s = insert q (tables (pmem v) s)" using new(2) unfolding tb .
  have "vm_inv v' s" using inv new(1) tb' a rq unfolding vm_inv_def r' a' by blast
  moreover have "rec_ok v' s"
  proof -
    have "pmem v' (kernel_root v) 511 = pmem v (kernel_root v) 511"
    proof (cases "kernel_root v = t \<and> i = 511")
      case True
      then show ?thesis using e rc by (auto simp: rec_ok_def points_to_def is_table_def)
    qed (use rq in \<open>auto simp: m' set_cell_apply\<close>)
    then show ?thesis using rc by (simp add: rec_ok_def r')
  qed
  moreover have "card (free_addrs (page_alloc v)) = card (free_addrs a') + card (tabs (pmem v') s - tabs (pmem v) s)"
  proof -
    have "finite (free_addrs (page_alloc v))" by (simp add: free_addrs_def)
    then have "card (free_addrs (page_alloc v)) = card (free_addrs a') + 1"
      using card_Suc_Diff1 [OF _ a(1)] by (simp add: a(2))
    moreover have "js @ [i] \<notin> tabs (pmem v) s" using none by (simp add: tabs_def)
    then have "tabs (pmem v') s - tabs (pmem v) s = {js @ [i]}" unfolding T by blast
    ultimately show ?thesis by simp
  qed
  moreover have "finite (tabs (pmem v') s - tabs (pmem v) s)" by (simp add: T insert_Diff_if)
  moreover have "pmem v' p = pmem v p" if "p \<notin> tables (pmem v) s" "p \<notin> free_addrs (page_alloc v)" for p
    using that a(1) tt by (auto simp: m' set_cell_def)
  moreover have "walk (pmem v') s levels va = walk (pmem v) s levels va" if "ix va Level0 \<noteq> 511" for va
    by (rule trans [OF new(4) [OF that] same_treeD(2) [OF same that]])
  moreover have "pmem v' s j = pmem v s j \<or> is_table (pmem v' s j)" for j
    using sq q(2) by (simp add: m' set_cell_apply is_table_def)
  ultimately show "kept v v' s" using a(1,2,4) path none by (auto simp: kept_def a' tt')
qed

section \<open>Going down one level\<close>

text \<open>The recursive address of a table below \<open>s\<close> is translated to that table.\<close>

definition path :: "usize \<Rightarrow> nat \<Rightarrow> nat list" where
  "path va n = map (ix va) (take n levels)"

lemma path_simps:
  "path va 0 = []" "path va 1 = [ix va Level0]" "path va 2 = [ix va Level0, ix va Level1]"
  "path va 3 = [ix va Level0, ix va Level1, ix va Level2]"
  by (simp_all add: path_def eval_nat_numeral)

lemma recursive_page:
  assumes "tree_ok (pmem v) s" and "rec_ok v s" and "pt (pmem v) s (path va (depth l)) = Some t" and "l \<noteq> Level0"
  shows "arm_page (pmem v) (ttbr1 v) (recursive_table_addr va l) = Some t"
proof -
  have r: "is_table (pmem v (PhysAddr (ttbr1 v)) 511)" "phys_page_addr (pmem v (PhysAddr (ttbr1 v)) 511) = s"
    using assms(2) by (simp_all add: rec_ok_def points_to_def kernel_root_def)
  have s: "is_table (pmem v s 511)" "phys_page_addr (pmem v s 511) = s"
    using assms(1) by (simp_all add: tree_ok_def points_to_def)
  show ?thesis
    using assms(3,4) r s
    by (cases l) (simp_all add: path_simps [unfolded One_nat_def] arm_page_def recursive_indices walk.simps Let_def is_table_def
        split: if_splits)
qed

lemma next_mut_cases:
  assumes mmu: "walks_tables mmu" and inv: "vm_inv v s" and rc: "rec_ok v s" and va: "ix va Level0 \<noteq> 511"
    and l: "next_level l = Some l'" and t: "pt (pmem v) s (path va (depth l)) = Some t"
  obtains (ok) v' t' where "next_mut mmu v t l va = ret_v v' t'" and "kept v v' s"
      and "pt (pmem v') s (path va (depth l')) = Some t'"
      and "tabs (pmem v') s \<subseteq> insert (path va (depth l')) (tabs (pmem v) s)"
  | (block) "next_mut mmu v t l va = err_v v EntryIsNotTable" and "e_valid (pmem v t (ix va l))"
      and "\<not> e_page_or_table (pmem v t (ix va l))"
  | (full) "next_mut mmu v t l va = err_v v (AllocationFailed OutOfSpace)" and "\<not> e_valid (pmem v t (ix va l))"
      and "free_addrs (page_alloc v) = {}" and "path va (depth l') \<notin> tabs (pmem v) s"
proof -
  let ?i = "ix va l" and ?e = "pmem v t (ix va l)"
  have l3: "l \<noteq> Level3" "l' \<noteq> Level0" and pth: "path va (depth l') = path va (depth l) @ [?i]"
    using l by (cases l; auto simp: path_def eval_nat_numeral)+
  have kp: "kpath (path va (depth l) @ [?i])"
    using va l by (cases l) (auto simp: path_def kpath_def eval_nat_numeral)
  have go: "mmu (pmem w) (ttbr1 w) (recursive_table_addr va l') = Some x"
    if "vm_inv w s" "rec_ok w s" "pt (pmem w) s (path va (depth l')) = Some x" for w x
    using mmu recursive_page [OF _ that(2,3) l3(2)] that(1) by (auto simp: walks_tables_def vm_inv_def)
  show thesis
  proof (cases "e_valid ?e")
    case True
    show thesis
    proof (cases "e_page_or_table ?e")
      case tb: True
      then have t': "pt (pmem v) s (path va (depth l')) = Some (phys_page_addr ?e)"
        using True t by (simp add: pth pt_append is_table_def)
      then have "next_mut mmu v t l va = ret_v v (phys_page_addr ?e)"
        using True tb l l3 go [OF inv rc t'] by (simp add: next_mut_def Let_def Entry_table_def)
      moreover have "kept v v s" using inv rc by (rule kept_refl)
      ultimately show thesis using ok t' by blast
    next
      case False
      then show thesis using block True by (simp add: next_mut_def Let_def Entry_table_def)
    qed
  next
    case False
    have "pa_inv (page_alloc v)" using inv by (simp add: vm_inv_def)
    then show thesis
    proof (cases rule: allocate_cases)
      case full
      then have "next_mut mmu v t l va = err_v v (AllocationFailed OutOfSpace)"
        using False by (simp add: next_mut_def Let_def alloc_pagetable_def pagealloc_allocate_def)
      moreover have "path va (depth l') \<notin> tabs (pmem v) s"
        using False t by (simp add: pth tabs_def pt_append is_table_def)
      ultimately show thesis using that(3) False full(1) by blast
    next
      case (page a' q)
      let ?v = "write_entry t ?i (table_entry q) (clear_page q (v\<lparr>page_alloc := a'\<rparr>))"
      note new = new_table [OF inv rc kp t False page(2-5)]
      have t': "pt (pmem ?v) s (path va (depth l')) = Some q" using new(2) by (simp only: pth)
      moreover have "vm_inv ?v s" "rec_ok ?v s" using new(1) by (simp_all add: kept_def)
      ultimately have "next_mut mmu v t l va = ret_v ?v q"
        using False page(1) l l3 go [of ?v q]
        by (simp add: next_mut_def Let_def alloc_pagetable_def pagealloc_allocate_def Entry_table_def)
      moreover have "tabs (pmem ?v) s = insert (path va (depth l')) (tabs (pmem v) s)" using new(3) by (simp only: pth)
      ultimately show thesis using ok new(1) t' by blast
    qed
  qed
qed

section \<open>The way down to an entry\<close>

fun dest_level :: "PageSize \<Rightarrow> Level" where
  "dest_level Page4K = Level3"
| "dest_level Page2M = Level2"
| "dest_level Page1G = Level1"

text \<open>Something above the level of the page size is mapped as a block.\<close>

definition blocked :: "pages \<Rightarrow> PhysAddr \<Rightarrow> usize \<Rightarrow> PageSize \<Rightarrow> bool" where
  "blocked m s va ps \<longleftrightarrow>
     e_valid (m s (ix va Level0)) \<and> \<not> e_page_or_table (m s (ix va Level0)) \<or>
     (\<exists>e l. walk m s levels va = Some (e, l) \<and> depth l < depth (dest_level ps))"

lemma block_walk:
  assumes "pt m s (path va (depth l)) = Some t" and "l = Level1 \<or> l = Level2"
    and "e_valid (m t (ix va l))" and "\<not> e_page_or_table (m t (ix va l))"
  shows "walk m s levels va = Some (m t (ix va l), l)"
proof -
  obtain ls' where lv: "levels = take (depth l) levels @ l # ls'" and l3: "Level3 \<notin> set (take (depth l) levels)"
    using assms(2) by (auto simp: eval_nat_numeral)
  have "walk m s (take (depth l) levels @ l # ls') va = walk m t (l # ls') va"
    using walk_pt [OF _ l3] assms(1) by (simp add: path_def)
  then show ?thesis using assms lv by (auto simp: Let_def walk.simps)
qed

text \<open>The paths of the tables that a page needs, and the path of its entry.\<close>

definition needs :: "usize \<Rightarrow> PageSize \<Rightarrow> nat list set" where
  "needs va ps = path va ` {1..depth (dest_level ps)}"

definition slot :: "usize \<Rightarrow> PageSize \<Rightarrow> nat list" where
  "slot va ps = path va (depth (dest_level ps) + 1)"

lemma card_needs: "card (needs va ps - T) \<le> depth (dest_level ps)"
proof -
  have "card (needs va ps - T) \<le> card (needs va ps)" by (intro card_mono) (auto simp: needs_def)
  also have "\<dots> \<le> depth (dest_level ps)" unfolding needs_def using card_image_le [of "{1..depth (dest_level ps)}"] by simp
  finally show ?thesis .
qed

text \<open>How far the way down has come: at the table of level \<open>l\<close>, or ended with an error.\<close>

definition refused :: "Vm \<Rightarrow> PhysAddr \<Rightarrow> usize \<Rightarrow> PageSize \<Rightarrow> PageTableError \<Rightarrow> bool" where
  "refused v s va ps e \<longleftrightarrow>
     e = EntryIsNotTable \<and> blocked (pmem v) s va ps \<or>
     e = AllocationFailed OutOfSpace \<and> card (free_addrs (page_alloc v)) < card (needs va ps - tabs (pmem v) s)"

definition descended :: "Vm \<Rightarrow> PhysAddr \<Rightarrow> usize \<Rightarrow> PageSize \<Rightarrow> Level \<Rightarrow> PhysAddr vm \<Rightarrow> bool" where
  "descended v s va ps l r \<longleftrightarrow>
     (\<exists>w t. r = ret_v w t \<and> kept v w s \<and> (l = Level0 \<longrightarrow> w = v) \<and>
        pt (pmem w) s (path va (depth l)) = Some t \<and>
        path va ` {1..depth l} \<subseteq> tabs (pmem w) s \<and> tabs (pmem w) s \<subseteq> tabs (pmem v) s \<union> path va ` {1..depth l}) \<or>
     (\<exists>w e. r = err_v w e \<and> kept v w s \<and> refused v s va ps e)"

lemma descended_start: "vm_inv v s \<Longrightarrow> rec_ok v s \<Longrightarrow> descended v s va ps Level0 (ret_v v s)"
  by (simp add: descended_def kept_refl path_def ret_v_def)

lemma path_kpath: "ix va Level0 \<noteq> 511 \<Longrightarrow> kpath (path va (depth l))"
  by (cases l) (simp_all add: path_def kpath_def eval_nat_numeral)

lemma length_path: "length (path va (depth l)) = depth l"
  by (cases l) (simp_all add: path_def)

text \<open>The allocation failed at the table below level \<open>l\<close>: it is missing, and so were the ones
  that were made before.\<close>

lemma full_refused:
  assumes k: "kept v w s" and T: "tabs (pmem w) s \<subseteq> tabs (pmem v) s \<union> path va ` {1..depth l}"
    and l: "next_level l = Some l'" "depth l < depth (dest_level ps)"
    and f: "free_addrs (page_alloc w) = {}" and m: "path va (depth l') \<notin> tabs (pmem w) s"
  shows "card (free_addrs (page_alloc v)) < card (needs va ps - tabs (pmem v) s)"
proof -
  have d: "depth l' = depth l + 1" using l(1) by (cases l) auto
  have "path va (depth l') \<in> needs va ps - tabs (pmem v) s"
    using m kept_tabs [OF k] l(2) by (auto simp: needs_def d)
  moreover have "tabs (pmem w) s - tabs (pmem v) s \<subseteq> needs va ps - tabs (pmem v) s"
    using T l(2) by (auto simp: needs_def)
  ultimately have "card (tabs (pmem w) s - tabs (pmem v) s) < card (needs va ps - tabs (pmem v) s)"
    using m by (intro psubset_card_mono) (auto simp: needs_def)
  then show ?thesis using k f unfolding kept_def by simp
qed

lemma descended_next:
  assumes mmu: "walks_tables mmu" and va: "ix va Level0 \<noteq> 511" and d: "descended v s va ps l r"
    and l: "next_level l = Some l'" and dl: "depth l < depth (dest_level ps)"
  shows "descended v s va ps l' (bind_v r (\<lambda>w t. next_mut mmu w t l va))"
  using d unfolding descended_def [of v s va ps l]
proof (elim disjE exE conjE)
  fix w e
  assume "r = err_v w e" "kept v w s" "refused v s va ps e"
  then show ?thesis unfolding descended_def by (intro disjI2 exI [of _ w] exI [of _ e]) simp
next
  fix w t
  assume r: "r = ret_v w t" and k: "kept v w s" and wv: "l = Level0 \<longrightarrow> w = v"
    and t: "pt (pmem w) s (path va (depth l)) = Some t"
    and T: "path va ` {1..depth l} \<subseteq> tabs (pmem w) s" "tabs (pmem w) s \<subseteq> tabs (pmem v) s \<union> path va ` {1..depth l}"
  have d': "depth l' = Suc (depth l)" "l' \<noteq> Level0" using l by (cases l; auto)+
  then have im: "path va ` {1..depth l'} = insert (path va (depth l')) (path va ` {1..depth l})"
    by (simp add: atLeastAtMostSuc_conv)
  have "vm_inv w s" "rec_ok w s" using k by (simp_all add: kept_def)
  with mmu show ?thesis using va l t
  proof (cases rule: next_mut_cases)
    case (ok v' t')
    have "kept v v' s" by (rule kept_trans [OF k ok(2)])
    moreover have "path va (depth l') \<in> tabs (pmem v') s" using ok(3) path_kpath [OF va] by (simp add: tabs_def)
    moreover have "path va ` {1..depth l} \<subseteq> tabs (pmem v') s" "tabs (pmem v') s \<subseteq> tabs (pmem v) s \<union> path va ` {1..depth l'}"
      using ok(4) T kept_tabs [OF ok(2)] unfolding im by blast+
    ultimately show ?thesis using ok r d'(2) unfolding descended_def im by (intro disjI1 exI [of _ v'] exI [of _ t']) auto
  next
    case block
    have "blocked (pmem v) s va ps"
    proof (cases "l = Level0")
      case True
      then have "t = s" using t by (simp add: path_def)
      then show ?thesis using block True wv by (simp add: blocked_def)
    next
      case False
      then have l12: "l = Level1 \<or> l = Level2" using l by (cases l) auto
      have "walk (pmem w) s levels va = Some (pmem w t (ix va l), l)"
        by (rule block_walk [OF t l12 block(2,3)])
      then have "walk (pmem v) s levels va = Some (pmem w t (ix va l), l)" using k va by (simp add: kept_def)
      then show ?thesis using dl by (auto simp: blocked_def)
    qed
    then show ?thesis using block(1) k r unfolding descended_def refused_def by (intro disjI2) auto
  next
    case full
    then show ?thesis
      using full_refused [OF k T(2) l dl full(3,4)] k r unfolding descended_def refused_def by (intro disjI2) auto
  qed
qed

lemma dest_entry_cases:
  assumes mmu: "walks_tables mmu" and inv: "vm_inv v s" "rec_ok v s" and va: "ix va Level0 \<noteq> 511"
  obtains (ok) v' t where "dest_entry mmu v s va ps = ret_v v' (t, ix va (dest_level ps))"
      and "kept v v' s" and "pt (pmem v') s (path va (depth (dest_level ps))) = Some t"
      and "needs va ps \<subseteq> tabs (pmem v') s" and "tabs (pmem v') s \<subseteq> tabs (pmem v) s \<union> needs va ps"
  | (err) v' e where "dest_entry mmu v s va ps = err_v v' e" and "kept v v' s" and "refused v s va ps e"
proof -
  note d0 = descended_start [OF inv, of va ps]
  note step = descended_next [OF mmu va]
  have "\<exists>r. descended v s va ps (dest_level ps) r \<and>
      dest_entry mmu v s va ps = bind_v r (\<lambda>w t. ret_v w (t, ix va (dest_level ps)))"
  proof (cases ps)
    case Page4K
    have "descended v s va ps Level1 (next_mut mmu v s Level0 va)" using step [OF d0] Page4K by simp
    note d2 = step [OF this, of Level2] and e = bind_v_assoc
    have "descended v s va ps Level2 (bind_v (next_mut mmu v s Level0 va) (\<lambda>w t. next_mut mmu w t Level1 va))"
      using d2 Page4K by simp
    from step [OF this, of Level3] show ?thesis using Page4K by (auto simp: bind_v_assoc entry_mut_def)
  next
    case Page2M
    have "descended v s va ps Level1 (next_mut mmu v s Level0 va)" using step [OF d0] Page2M by simp
    from step [OF this, of Level2] show ?thesis using Page2M by (auto simp: bind_v_assoc entry_mut_def)
  next
    case Page1G
    then show ?thesis using step [OF d0] by (auto simp: entry_mut_def)
  qed
  then show thesis using that unfolding descended_def needs_def by auto
qed

section \<open>Mapping a page\<close>

text \<open>
  The effect of mapping the pages \<open>J\<close>, each a virtual address with a page size: translations of
  other addresses outside the recursive slot stay, and so do the tables that no entry of \<open>J\<close> hangs
  above of; every table that is new is one that \<open>J\<close> needs, in a page that was free; all that \<open>J\<close>
  needs are there, and no more pages are taken than were missing.
\<close>

definition needs_all :: "(usize \<times> PageSize) set \<Rightarrow> nat list set" where
  "needs_all J = (\<Union>(va, ps) \<in> J. needs va ps)"

definition effect :: "Vm \<Rightarrow> Vm \<Rightarrow> PhysAddr \<Rightarrow> (usize \<times> PageSize) set \<Rightarrow> bool" where
  "effect v v' s J \<longleftrightarrow>
     (\<forall>va'. ix va' Level0 \<noteq> 511 \<longrightarrow> (\<forall>(va, ps) \<in> J. slot va' ps \<noteq> slot va ps) \<longrightarrow>
        walk (pmem v') s levels va' = walk (pmem v) s levels va') \<and>
     (\<forall>is p. kpath is \<longrightarrow> (\<forall>(va, ps) \<in> J. take (depth (dest_level ps) + 1) is \<noteq> slot va ps) \<longrightarrow>
        pt (pmem v) s is = Some p \<longrightarrow> pt (pmem v') s is = Some p) \<and>
     (\<forall>is p. kpath is \<longrightarrow> pt (pmem v') s is = Some p \<longrightarrow>
        pt (pmem v) s is = Some p \<or> p \<in> free_addrs (page_alloc v) \<and> is \<in> needs_all J) \<and>
     needs_all J \<subseteq> tabs (pmem v') s \<and>
     (\<forall>p. p \<notin> tables (pmem v) s \<longrightarrow> p \<notin> free_addrs (page_alloc v) \<longrightarrow> pmem v' p = pmem v p) \<and>
     pmem v' (kernel_root v) 511 = pmem v (kernel_root v) 511 \<and> ttbr1 v' = ttbr1 v \<and>
     geometry (page_alloc v') = geometry (page_alloc v) \<and> free_addrs (page_alloc v') \<subseteq> free_addrs (page_alloc v) \<and>
     card (free_addrs (page_alloc v)) \<le> card (free_addrs (page_alloc v')) + card (needs_all J - tabs (pmem v) s) \<and>
     (\<forall>i. i \<noteq> 511 \<longrightarrow> pmem v' s i = pmem v s i \<or> is_table (pmem v' s i))"

lemma effectD:
  assumes "effect v v' s J"
  shows "ix va' Level0 \<noteq> 511 \<Longrightarrow> (\<And>va ps. (va, ps) \<in> J \<Longrightarrow> slot va' ps \<noteq> slot va ps) \<Longrightarrow>
      walk (pmem v') s levels va' = walk (pmem v) s levels va'"
    and "kpath is \<Longrightarrow> (\<And>va ps. (va, ps) \<in> J \<Longrightarrow> take (depth (dest_level ps) + 1) is \<noteq> slot va ps) \<Longrightarrow>
      pt (pmem v) s is = Some p \<Longrightarrow> pt (pmem v') s is = Some p"
    and "kpath is \<Longrightarrow> pt (pmem v') s is = Some p \<Longrightarrow>
      pt (pmem v) s is = Some p \<or> p \<in> free_addrs (page_alloc v) \<and> is \<in> needs_all J"
    and "needs_all J \<subseteq> tabs (pmem v') s"
    and "p \<notin> tables (pmem v) s \<Longrightarrow> p \<notin> free_addrs (page_alloc v) \<Longrightarrow> pmem v' p = pmem v p"
    and "pmem v' (kernel_root v) 511 = pmem v (kernel_root v) 511" and "ttbr1 v' = ttbr1 v"
    and "free_addrs (page_alloc v') \<subseteq> free_addrs (page_alloc v)"
    and "card (free_addrs (page_alloc v)) \<le> card (free_addrs (page_alloc v')) + card (needs_all J - tabs (pmem v) s)"
    and "i \<noteq> 511 \<Longrightarrow> pmem v' s i = pmem v s i \<or> is_table (pmem v' s i)"
    and "geometry (page_alloc v') = geometry (page_alloc v)"
  using assms unfolding effect_def by blast+

lemma effect_tables: "effect v v' s J \<Longrightarrow> tables (pmem v') s \<subseteq> tables (pmem v) s \<union> free_addrs (page_alloc v)"
  unfolding tables_def using effectD(3) by blast

lemma effect_empty: "effect v v s {}"
  by (simp add: effect_def needs_all_def)

lemma path_Suc: "path va (depth l + 1) = path va (depth l) @ [ix va l]"
  by (cases l) (simp_all add: path_def eval_nat_numeral)

lemma path_hd: "ix va Level0 \<noteq> 511 \<Longrightarrow> hd_ok (path va (depth l) @ [ix va l])"
  by (cases l) (simp_all add: path_def eval_nat_numeral)

lemma take_path: "take (depth l + 1) (map (ix va) levels) = path va (depth l + 1)"
  by (simp only: path_def take_map)

text \<open>Writing the final entry.\<close>

lemma write_leaf:
  assumes inv: "vm_inv v s" and va: "ix va Level0 \<noteq> 511" and t: "pt (pmem v) s (path va (depth l)) = Some t"
    and e: "e_valid e" "e_page_or_table e \<longleftrightarrow> l = Level3" and l: "l \<noteq> Level0"
  defines "v' \<equiv> write_entry t (ix va l) e v"
  shows "vm_inv v' s" and "walk (pmem v') s levels va = Some (e, l)"
    and "\<And>is p. kpath is \<Longrightarrow> pt (pmem v') s is = Some p \<Longrightarrow> pt (pmem v) s is = Some p"
    and "\<And>va'. ix va' Level0 \<noteq> 511 \<Longrightarrow> path va' (depth l + 1) \<noteq> path va (depth l + 1) \<Longrightarrow>
      walk (pmem v') s levels va' = walk (pmem v) s levels va'"
    and "\<And>is. kpath is \<Longrightarrow> take (depth l + 1) is \<noteq> path va (depth l + 1) \<Longrightarrow> pt (pmem v') s is = pt (pmem v) s is"
proof -
  let ?js = "path va (depth l)" and ?i = "ix va l"
  have ok: "tree_ok (pmem v) s" using inv by (simp add: vm_inv_def)
  have kj: "kpath ?js" by (rule path_kpath [OF va])
  have m: "pmem v' = set_cell (pmem v) t ?i e" by (simp add: v'_def)
  have le: "\<not> is_table e \<or> length ?js = 3" using e length_path [of va l] by (auto simp: is_table_def)
  note leaf = set_leaf_tree [OF ok kj t path_hd [OF va] le, folded m]
  show "pt (pmem v') s is = Some p \<Longrightarrow> pt (pmem v) s is = Some p" if "kpath is" for "is" p by (rule leaf(3) [OF that])
  show "vm_inv v' s" using inv leaf(1,2) by (auto simp: vm_inv_def v'_def)
  have sl: "path va (depth l + 1) = ?js @ [?i]" "depth l + 1 = Suc (length ?js)" by (simp_all only: path_Suc length_path Suc_eq_plus1)
  show "walk (pmem v') s levels va' = walk (pmem v) s levels va'"
    if "ix va' Level0 \<noteq> 511" "path va' (depth l + 1) \<noteq> path va (depth l + 1)" for va'
  proof -
    have "take (Suc (length ?js)) (map (ix va') levels) \<noteq> ?js @ [?i]"
      using that(2) take_path [of l va'] sl by metis
    then show ?thesis unfolding m by (rule set_cell_walk [OF ok kj t that(1)])
  qed
  show "pt (pmem v') s is = pt (pmem v) s is" if "kpath is" "take (depth l + 1) is \<noteq> path va (depth l + 1)" for "is"
  proof -
    have "take (Suc (length ?js)) is \<noteq> ?js @ [?i]" using that(2) sl by metis
    with that(1) show ?thesis unfolding m by (intro set_cell_other [OF ok kj t]) (auto simp: kpath_def)
  qed
  have t': "pt (pmem v') s ?js = Some t" unfolding m by (rule set_cell_here(1) [OF ok kj t])
  obtain ls where lv: "levels = take (depth l) levels @ l # ls" and l3: "Level3 \<notin> set (take (depth l) levels)"
    by (cases l) (auto simp: eval_nat_numeral)
  have "walk (pmem v') s (take (depth l) levels @ l # ls) va = walk (pmem v') t (l # ls) va"
    using walk_pt [OF _ l3] t' by (simp add: path_def)
  also have "\<dots> = Some (e, l)" using e l by (simp add: m set_cell_apply Let_def walk.simps)
  finally show "walk (pmem v') s levels va = Some (e, l)" by (simp only: lv [symmetric])
qed

text \<open>The steps of \<open>map_to\<close> that return: point the recursive slot at the table, go down, write the
  entry, restore the slot.\<close>

lemma map_steps:
  assumes inv: "vm_inv v s" and va: "ix va Level0 \<noteq> 511"
    and k: "kept v1 v2 s" "pt (pmem v2) s (path va (depth (dest_level ps))) = Some t"
      "needs va ps \<subseteq> tabs (pmem v2) s" "tabs (pmem v2) s \<subseteq> tabs (pmem v1) s \<union> needs va ps"
    and e: "e_valid e" "e_page_or_table e \<longleftrightarrow> ps = Page4K"
    and v1: "v1 = write_entry (kernel_root v) 511 (table_entry s) v"
  defines "v4 \<equiv> write_entry (kernel_root v) 511 (pmem v (kernel_root v) 511) (write_entry t (ix va (dest_level ps)) e v2)"
  shows "vm_inv v4 s" and "walk (pmem v4) s levels va = Some (e, dest_level ps)" and "effect v v4 s {(va, ps)}"
proof -
  let ?r = "kernel_root v" and ?l = "dest_level ps"
  let ?v3 = "write_entry t (ix va ?l) e v2" and ?old = "pmem v ?r 511"
  have pts: "points_to (table_entry s) s" using inv by (simp add: vm_inv_def)
  note root = write_root_inv [OF inv, of "table_entry s", OF pts, folded v1]
  have k2: "vm_inv v2 s" "ttbr1 v2 = ttbr1 v" using k(1) by (simp_all add: kept_def v1)
  then have r3: "kernel_root ?v3 = ?r" by (simp add: kernel_root_def)
  have l0: "?l \<noteq> Level0" by (cases ps) simp_all
  have e': "e_page_or_table e \<longleftrightarrow> ?l = Level3" using e(2) by (cases ps) simp_all
  note leaf = write_leaf [OF k2(1) va k(2) e(1) e' l0]
  have old: "points_to ?old s" if "kernel_root ?v3 = s"
    using inv that r3 by (auto simp: vm_inv_def tree_ok_def)
  note fin = write_root_inv [OF leaf(1), of ?old, OF old, unfolded r3, folded v4_def]
  show "vm_inv v4 s" by (rule fin(1)) simp
  have same: "same_tree (pmem ?v3) (pmem v4) s" by (rule fin(2)) simp
  note w4 = same_treeD(2) [OF same] and w1 = same_treeD(2) [OF root(2)]
  show "walk (pmem v4) s levels va = Some (e, ?l)" using w4 [OF va] leaf(2) by simp
  have p4: "pt (pmem v4) s is = pt (pmem ?v3) s is" and p1: "pt (pmem v1) s is = pt (pmem v) s is" if "kpath is" for "is"
    using that by (intro same_treeD(1) [OF same] same_treeD(1) [OF root(2)]; simp add: kpath_def)+
  have T: "tabs (pmem v1) s = tabs (pmem v) s" using p1 by (auto simp: tabs_def)
  have al: "page_alloc v1 = page_alloc v" "page_alloc v4 = page_alloc v2" by (simp_all add: v1 v4_def)
  have tb: "tables (pmem v1) s = tables (pmem v) s" by (rule same_tree_tables [OF root(2)])
  have tt: "t \<in> tables (pmem v2) s" using k(2) path_kpath [OF va] by (auto simp: tables_def)
  have "t \<noteq> s"
  proof
    assume "t = s"
    then have "path va (depth ?l) = []"
      using tree_ok_unique [of "pmem v2" s "path va (depth ?l)" "[]" s] k(2) k2(1) path_kpath [OF va, of ?l]
      by (simp add: vm_inv_def kpath_def)
    then show False using l0 length_path [of va ?l] by (cases ps) simp_all
  qed
  then have top: "pmem v4 s i = pmem v s i \<or> is_table (pmem v4 s i)" if "i \<noteq> 511" for i
    using k(1) that by (auto simp: v1 v4_def kept_def set_cell_apply)
  have walks: "walk (pmem v4) s levels va' = walk (pmem v) s levels va'" if "ix va' Level0 \<noteq> 511" "slot va' ps \<noteq> slot va ps" for va'
    using w4 [OF that(1)] leaf(4) [OF that [unfolded slot_def]] w1 [OF that(1)] k(1) that(1) unfolding kept_def by metis
  have up: "pt (pmem v4) s is = Some p"
    if "kpath is" "take (depth ?l + 1) is \<noteq> slot va ps" "pt (pmem v) s is = Some p" for "is" p
    using p4 [OF that(1)] leaf(5) [OF that(1) that(2) [unfolded slot_def]] keptD(1) [OF k(1) that(1)] p1 [OF that(1)] that(3) by simp
  have down: "pt (pmem v) s is = Some p \<or> p \<in> free_addrs (page_alloc v) \<and> is \<in> needs va ps"
    if "kpath is" "pt (pmem v4) s is = Some p" for "is" p
  proof -
    have p2: "pt (pmem v2) s is = Some p" using leaf(3) that p4 by metis
    then have "is \<in> tabs (pmem v2) s" using that(1) by (simp add: tabs_def)
    then have "is \<in> tabs (pmem v1) s \<or> is \<in> needs va ps" using k(4) by blast
    then show ?thesis
      using keptD(1) [OF k(1) that(1)] keptD(2) [OF k(1) that(1) p2] p1 [OF that(1)] p2 al(1) by (auto simp: tabs_def)
  qed
  have ns: "needs va ps \<subseteq> tabs (pmem v4) s"
  proof
    fix "is"
    assume i: "is \<in> needs va ps"
    then have "length is \<le> depth ?l" by (auto simp: needs_def path_def)
    moreover have "length (path va (depth ?l + 1)) = depth ?l + 1" by (simp only: path_Suc length_append length_path) simp
    ultimately have "take (depth ?l + 1) is \<noteq> path va (depth ?l + 1)" by auto
    then show "is \<in> tabs (pmem v4) s" using k(3) i leaf(5) p4 by (auto simp: tabs_def)
  qed
  have pages: "pmem v4 p = pmem v p" if p: "p \<notin> tables (pmem v) s" "p \<notin> free_addrs (page_alloc v)" for p
  proof -
    have "pmem v2 p = pmem v1 p" using k(1) p tb al unfolding kept_def by simp
    moreover have "p \<noteq> t" using tt p kept_tables [OF k(1)] tb al by auto
    ultimately show ?thesis by (auto simp: v1 v4_def set_cell_def)
  qed
  have "tabs (pmem v2) s - tabs (pmem v) s = needs va ps - tabs (pmem v) s"
    using k(3,4) by (auto simp: T)
  then have cnt: "card (free_addrs (page_alloc v)) = card (free_addrs (page_alloc v4)) + card (needs va ps - tabs (pmem v) s)"
    using k(1) al T unfolding kept_def by simp
  have "free_addrs (page_alloc v4) \<subseteq> free_addrs (page_alloc v)" "geometry (page_alloc v4) = geometry (page_alloc v)" "ttbr1 v4 = ttbr1 v" "pmem v4 ?r 511 = ?old"
    using k(1) al k2(2) by (auto simp: kept_def v4_def set_cell_apply)
  then show "effect v v4 s {(va, ps)}"
    unfolding effect_def needs_all_def using walks up down ns pages cnt top by simp
qed

lemma map_to_cases:
  assumes mmu: "walks_tables mmu" and inv: "vm_inv v s" and va: "ix va Level0 \<noteq> 511"
    and e: "e_valid e" "ps = Page4K \<or> \<not> e_page_or_table e"
  obtains (ok) v' where "map_to mmu v s e va ps = ret_v v' ()" and "vm_inv v' s"
      and "walk (pmem v') s levels va = Some (final_entry ps e, dest_level ps)" and "effect v v' s {(va, ps)}"
  | (err) v' x where "map_to mmu v s e va ps = err_v v' x" and "refused v s va ps x" and "rec_ok v' s"
      and "ttbr1 v' = ttbr1 v"
proof -
  let ?r = "kernel_root v"
  define v1 where "v1 = write_entry ?r 511 (table_entry s) v"
  have pts: "points_to (table_entry s) s" using inv by (simp add: vm_inv_def)
  note root = write_root_inv [OF inv, of "table_entry s", OF pts, folded v1_def]
  have rc1: "rec_ok v1 s" using pts by (simp add: v1_def rec_ok_def set_cell_apply)
  have "tabs (pmem v1) s = tabs (pmem v) s" using same_treeD(1) [OF root(2)] by (auto simp: tabs_def kpath_def)
  then have ref: "refused v1 s va ps x = refused v s va ps x" for x
    using same_treeD(2) [OF root(2) va] va by (simp add: v1_def refused_def blocked_def set_cell_apply)
  from mmu root(1) rc1 va show thesis
  proof (cases rule: dest_entry_cases [where ps = ps])
    case (err v' x)
    then have "map_to mmu v s e va ps = err_v v' x" by (simp add: map_to_def Let_def v1_def)
    then show thesis using that(2) err(2,3) ref by (simp add: kept_def v1_def)
  next
    case (ok v2 t)
    have ev: "e_valid (final_entry ps e)" "e_page_or_table (final_entry ps e) \<longleftrightarrow> ps = Page4K"
      using e by (cases ps; simp add: final_entry_def)+
    have "kernel_root v2 = ?r" using ok(2) by (simp add: kept_def kernel_root_def v1_def)
    then have "map_to mmu v s e va ps =
        ret_v (write_entry ?r 511 (pmem v ?r 511) (write_entry t (ix va (dest_level ps)) (final_entry ps e) v2)) ()"
      using ok(1) by (simp add: map_to_def Let_def v1_def)
    then show thesis using that(1) map_steps [OF inv va ok(2-5) ev v1_def] by blast
  qed
qed

section \<open>Mapping several pages\<close>

text \<open>Two pages are apart when neither lies in the other.\<close>

definition apart :: "usize \<times> PageSize \<Rightarrow> usize \<times> PageSize \<Rightarrow> bool" where
  "apart j k \<longleftrightarrow> (let n = min (depth (dest_level (snd j))) (depth (dest_level (snd k))) + 1
     in path (fst j) n \<noteq> path (fst k) n)"

lemma take_path_le: "n \<le> m \<Longrightarrow> take n (path va m) = path va n"
  by (simp add: path_def take_map min.absorb1)

lemma apart_sym: "apart j k \<Longrightarrow> apart k j"
  by (auto simp: apart_def Let_def min.commute)

lemma apart_slot: "apart (va, ps) (vb, qs) \<Longrightarrow> slot va qs \<noteq> slot vb qs"
  unfolding apart_def slot_def Let_def by (metis (no_types, lifting) add_le_mono1 fst_conv min.cobounded2 snd_conv take_path_le)

lemma apart_needs:
  assumes "apart (va, ps) (vb, qs)" and "is \<in> needs va ps"
  shows "take (depth (dest_level qs) + 1) is \<noteq> slot vb qs"
proof
  let ?n = "depth (dest_level qs) + 1"
  assume *: "take ?n is = slot vb qs"
  obtain k where k: "is = path va k" "k \<le> depth (dest_level ps)" using assms(2) by (auto simp: needs_def)
  have "depth l + 1 \<le> length levels" for l by (cases l) simp_all
  then have "length (slot vb qs) = ?n" by (simp add: slot_def path_def)
  then have "?n \<le> length is" using * by (metis length_take min.absorb_iff2 min.commute)
  then have n: "?n \<le> k" by (simp add: k(1) path_def)
  then have "path va ?n = path vb ?n" using * take_path_le [OF n] by (simp add: k(1) slot_def)
  moreover have "min (depth (dest_level ps)) (depth (dest_level qs)) + 1 = ?n" using n k(2) by simp
  ultimately show False using assms(1) by (simp add: apart_def Let_def)
qed

lemma needs_all_simps:
  "needs_all (J \<union> K) = needs_all J \<union> needs_all K" "(va, ps) \<in> J \<Longrightarrow> needs va ps \<subseteq> needs_all J"
  by (auto simp: needs_all_def)

lemma needs_kept:
  assumes "effect v v' s K" and "\<And>j k. j \<in> J \<Longrightarrow> k \<in> K \<Longrightarrow> apart j k" and "is \<in> needs_all J" and "is \<in> tabs (pmem v) s"
  shows "is \<in> tabs (pmem v') s"
proof -
  obtain va ps where j: "(va, ps) \<in> J" "is \<in> needs va ps" using assms(3) by (auto simp: needs_all_def)
  obtain p where p: "kpath is" "pt (pmem v) s is = Some p" using assms(4) by (auto simp: tabs_def)
  have "pt (pmem v') s is = Some p"
    by (rule effectD(2) [OF assms(1) p(1) _ p(2)]) (use apart_needs assms(2) j in blast)
  then show ?thesis using p(1) by (simp add: tabs_def)
qed

lemma finite_needs: "finite J \<Longrightarrow> finite (needs_all J)"
  by (auto simp: needs_all_def needs_def)

lemma effect_count:
  assumes 1: "effect v v1 s J" and fin: "finite J" "finite K"
    and ap: "\<And>j k. j \<in> J \<Longrightarrow> k \<in> K \<Longrightarrow> apart j k"
  shows "card (needs_all J - tabs (pmem v) s) + card (needs_all K - tabs (pmem v1) s) \<le> card (needs_all (J \<union> K) - tabs (pmem v) s)"
proof -
  have "is \<notin> tabs (pmem v) s" if "is \<in> needs_all K" "is \<notin> tabs (pmem v1) s" for "is"
    using needs_kept [OF 1 _ that(1)] ap apart_sym that(2) by blast
  then have sub: "(needs_all J - tabs (pmem v) s) \<union> (needs_all K - tabs (pmem v1) s) \<subseteq> needs_all (J \<union> K) - tabs (pmem v) s"
    by (auto simp: needs_all_simps(1))
  have "(needs_all J - tabs (pmem v) s) \<inter> (needs_all K - tabs (pmem v1) s) = {}" using effectD(4) [OF 1] by blast
  then have "card (needs_all J - tabs (pmem v) s) + card (needs_all K - tabs (pmem v1) s) =
      card ((needs_all J - tabs (pmem v) s) \<union> (needs_all K - tabs (pmem v1) s))"
    by (intro card_Un_disjoint [symmetric]) (simp_all add: finite_needs fin)
  also have "\<dots> \<le> card (needs_all (J \<union> K) - tabs (pmem v) s)"
    by (rule card_mono [OF _ sub]) (simp add: finite_needs fin)
  finally show ?thesis .
qed

text \<open>What is still missing for \<open>K\<close> once \<open>J\<close> is mapped fits into what is then free.\<close>

lemma missing_after:
  assumes "effect v v1 s J" and "\<And>j k. j \<in> J \<Longrightarrow> k \<in> K \<Longrightarrow> apart j k" and "finite J" "finite K"
    and "card (needs_all (J \<union> K) - tabs (pmem v) s) \<le> card (free_addrs (page_alloc v))"
  shows "card (needs_all K - tabs (pmem v1) s) \<le> card (free_addrs (page_alloc v1))"
  using effect_count [OF assms(1,3,4,2)] effectD(9) [OF assms(1)] assms(5) by simp

lemma effect_trans:
  assumes 1: "effect v v1 s J" and 2: "effect v1 v2 s K" and fin: "finite J" "finite K"
    and ap: "\<And>j k. j \<in> J \<Longrightarrow> k \<in> K \<Longrightarrow> apart j k"
  shows "effect v v2 s (J \<union> K)"
proof -
  note D = effectD [OF 1] and E = effectD [OF 2]
  have walks: "walk (pmem v2) s levels va' = walk (pmem v) s levels va'"
    if "ix va' Level0 \<noteq> 511" "\<forall>(va, ps) \<in> J \<union> K. slot va' ps \<noteq> slot va ps" for va'
    using D(1) [OF that(1)] E(1) [OF that(1)] that(2) by fastforce
  have up: "pt (pmem v2) s is = Some p"
    if "kpath is" "\<forall>(va, ps) \<in> J \<union> K. take (depth (dest_level ps) + 1) is \<noteq> slot va ps" "pt (pmem v) s is = Some p" for "is" p
    using D(2) [OF that(1)] E(2) [OF that(1)] that(2,3) by fastforce
  have down: "pt (pmem v) s is = Some p \<or> p \<in> free_addrs (page_alloc v) \<and> is \<in> needs_all (J \<union> K)"
    if "kpath is" "pt (pmem v2) s is = Some p" for "is" p
    using E(3) [OF that] D(3) [OF that(1)] D(8) by (auto simp: needs_all_simps(1))
  have ns: "needs_all (J \<union> K) \<subseteq> tabs (pmem v2) s"
    using E(4) D(4) needs_kept [OF 2 ap] by (auto simp: needs_all_simps(1))
  have pages: "pmem v2 p = pmem v p" if "p \<notin> tables (pmem v) s" "p \<notin> free_addrs (page_alloc v)" for p
  proof -
    have "p \<notin> tables (pmem v1) s" "p \<notin> free_addrs (page_alloc v1)" using effect_tables [OF 1] D(8) that by blast+
    then show ?thesis using E(5) D(5) that by metis
  qed
  have slot: "pmem v2 (kernel_root v) 511 = pmem v (kernel_root v) 511" "ttbr1 v2 = ttbr1 v"
      "geometry (page_alloc v2) = geometry (page_alloc v)"
    using E(6,7,11) D(6,7,11) by (simp_all add: kernel_root_def)
  have cnt: "card (free_addrs (page_alloc v)) \<le> card (free_addrs (page_alloc v2)) + card (needs_all (J \<union> K) - tabs (pmem v) s)"
    using effect_count [OF 1 fin ap] D(9) E(9) by simp
  have top: "pmem v2 s i = pmem v s i \<or> is_table (pmem v2 s i)" if "i \<noteq> 511" for i
    using D(10) [OF that] E(10) [OF that] by metis
  show ?thesis
    unfolding effect_def using walks up down ns pages slot cnt top subset_trans [OF E(8) D(8)] by blast
qed

text \<open>What is apart from the pages mapped keeps its translation and stays open to be mapped.\<close>

lemma effect_apart:
  assumes "effect v v' s J" and "ix va Level0 \<noteq> 511" and "\<And>j. j \<in> J \<Longrightarrow> apart (va, ps) j"
  shows "walk (pmem v') s levels va = walk (pmem v) s levels va"
    and "\<not> blocked (pmem v) s va ps \<Longrightarrow> \<not> blocked (pmem v') s va ps"
proof -
  show w: "walk (pmem v') s levels va = walk (pmem v) s levels va"
    by (rule effectD(1) [OF assms(1,2)]) (use apart_slot assms(3) in blast)
  show "\<not> blocked (pmem v') s va ps" if "\<not> blocked (pmem v) s va ps"
    using that w effectD(10) [OF assms(1,2)] by (auto simp: blocked_def is_table_def)
qed

end
