(* ===== verification/Vm_Correct.thy ===== *)
theory Vm_Correct
  imports Vm_Map
begin

text \<open>
  Mapping of physical ranges into the kernel's direct map, and the properties of
  \<^verbatim>\<open>aarch64/src/vm.rs\<close>.
\<close>

section \<open>Addresses of the direct map\<close>

lemma unat_virt: "paddr pa < 2 ^ 47 \<Longrightarrow> unat (physaddr_as_virt pa) = 2 ^ 64 - 2 ^ 47 + paddr pa"
proof -
  assume "paddr pa < 2 ^ 47"
  then have "unat (addr pa + KZERO) = paddr pa + unat KZERO"
    by (intro unat_add_usize) (simp add: KZERO_def)
  then show ?thesis by (simp add: physaddr_as_virt_def KZERO_def)
qed

lemma unat_index: "unat (drop_bit k va AND 0x1ff) = unat va div 2 ^ k mod 512" for va :: usize
proof -
  have "unat (drop_bit k va AND 0x1ff) = unat (take_bit 9 (drop_bit k va))"
    by (simp add: bits9(1) take_bit_eq_mask)
  also have "\<dots> = unat (drop_bit k va) mod 2 ^ 9"
    unfolding unsigned_take_bit_eq by (simp add: take_bit_eq_mod)
  also have "unat (drop_bit k va) = unat va div 2 ^ k"
    unfolding unat_drop_bit_eq by (simp add: drop_bit_eq_div)
  finally show ?thesis by simp
qed

lemma ix_virt:
  assumes "paddr pa < 2 ^ 47"
  shows "ix (physaddr_as_virt pa) Level0 = 256 + paddr pa div 2 ^ 39"
    and "ix (physaddr_as_virt pa) Level1 = paddr pa div 2 ^ 30 mod 512"
    and "ix (physaddr_as_virt pa) Level2 = paddr pa div 2 ^ 21 mod 512"
    and "ix (physaddr_as_virt pa) Level3 = paddr pa div 2 ^ 12 mod 512"
proof -
  have off: "unat (physaddr_as_virt pa) div 2 ^ k mod 512 = (c + paddr pa div 2 ^ k) mod 512"
    if "2 ^ 64 - 2 ^ 47 = c * 2 ^ k" for c k :: nat
  proof -
    have "(c * 2 ^ k + paddr pa) div 2 ^ k = c + paddr pa div 2 ^ k" by simp
    then show ?thesis unfolding unat_virt [OF assms] that by simp
  qed
  have "paddr pa div 2 ^ 39 < 256" using assms by (simp add: less_mult_imp_div_less)
  then have "(33554176 + paddr pa div 2 ^ 39) mod 512 = 256 + paddr pa div 2 ^ 39"
    using mod_mult_self2 [of "256 + paddr pa div 2 ^ 39" 512 65535] by simp
  moreover have zero: "(512 * c + n) mod 512 = n mod 512" for c n :: nat by simp
  ultimately show "ix (physaddr_as_virt pa) Level0 = 256 + paddr pa div 2 ^ 39"
    "ix (physaddr_as_virt pa) Level1 = paddr pa div 2 ^ 30 mod 512"
    "ix (physaddr_as_virt pa) Level2 = paddr pa div 2 ^ 21 mod 512"
    "ix (physaddr_as_virt pa) Level3 = paddr pa div 2 ^ 12 mod 512"
    using off [of 33554176 39] off [of "512 * 33554176" 30] off [of "512 * 17179738112" 21]
      off [of "512 * 8796025913344" 12]
    unfolding va_index.simps unat_index zero by simp_all
qed

lemma div_mod_step: "(n :: nat) div 2 ^ (k + 9) = m div 2 ^ (k + 9) \<Longrightarrow> n div 2 ^ k mod 512 = m div 2 ^ k mod 512 \<Longrightarrow>
    n div 2 ^ k = m div 2 ^ k"
proof -
  have d: "x div 2 ^ (k + 9) = x div 2 ^ k div 512" for x :: nat by (simp add: power_add div_mult2_eq)
  assume "n div 2 ^ (k + 9) = m div 2 ^ (k + 9)" "n div 2 ^ k mod 512 = m div 2 ^ k mod 512"
  then show ?thesis unfolding d by (metis div_mult_mod_eq)
qed

lemma path_ix:
  assumes "path va n = path vb n" and "depth l < n" and "n \<le> 4"
  shows "ix va l = ix vb l"
proof -
  have "path w n ! depth l = ix w l" for w
  proof -
    have "levels ! depth l = l" by (cases l) simp_all
    moreover have "depth l < length (take n levels)" using assms(2,3) by simp
    ultimately show ?thesis using assms(2) unfolding path_def by (simp only: nth_map nth_take)
  qed
  then show ?thesis using assms(1) by metis
qed

lemma path_virt_inj:
  assumes "paddr pa < 2 ^ 47" and "paddr pb < 2 ^ 47"
    and "path (physaddr_as_virt pa) (depth (dest_level ps) + 1) = path (physaddr_as_virt pb) (depth (dest_level ps) + 1)"
  shows "paddr pa div unat (PageSize_size ps) = paddr pb div unat (PageSize_size ps)"
proof -
  let ?a = "paddr pa" and ?b = "paddr pb"
  have d: "depth (dest_level ps) + 1 \<le> 4" by (cases ps) simp_all
  note same = path_ix [OF assms(3) _ d]
  have 1: "?a div 2 ^ 39 = ?b div 2 ^ 39" "?a div 2 ^ 30 mod 512 = ?b div 2 ^ 30 mod 512"
    using same [of Level0] same [of Level1] ix_virt(1,2) [OF assms(1)] ix_virt(1,2) [OF assms(2)]
    by (cases ps; simp)+
  then have 2: "?a div 2 ^ 30 = ?b div 2 ^ 30" using div_mod_step [of ?a 30 ?b] by simp
  show ?thesis
  proof (cases ps)
    case Page1G
    then show ?thesis using 2 by (simp add: PAGE_SIZE_1G_def push_bit_eq_mult)
  next
    case Page2M
    then have "?a div 2 ^ 21 mod 512 = ?b div 2 ^ 21 mod 512"
      using same [of Level2] ix_virt(3) [OF assms(1)] ix_virt(3) [OF assms(2)] by simp
    then show ?thesis using div_mod_step [of ?a 21 ?b] 2 Page2M by (simp add: PAGE_SIZE_2M_def push_bit_eq_mult)
  next
    case Page4K
    then have m: "?a div 2 ^ 21 mod 512 = ?b div 2 ^ 21 mod 512" "?a div 2 ^ 12 mod 512 = ?b div 2 ^ 12 mod 512"
      using same [of Level2] same [of Level3] ix_virt(3,4) [OF assms(1)] ix_virt(3,4) [OF assms(2)] by simp_all
    then have "?a div 2 ^ 21 = ?b div 2 ^ 21" using div_mod_step [of ?a 21 ?b] 2 by simp
    then show ?thesis using div_mod_step [of ?a 12 ?b] m Page4K by (simp add: PAGE_SIZE_4K_def push_bit_eq_mult)
  qed
qed

section \<open>Ranges\<close>

definition page_ok :: "PageSize \<Rightarrow> PhysAddr \<Rightarrow> bool" where
  "page_ok ps pa \<longleftrightarrow> paddr pa < 2 ^ 46 \<and> unat (PageSize_size ps) dvd paddr pa"

text \<open>The pages of a list, to be mapped at their direct-map addresses.\<close>

definition jobs :: "PageSize \<Rightarrow> PhysAddr list \<Rightarrow> (usize \<times> PageSize) set" where
  "jobs ps pas = (\<lambda>pa. (physaddr_as_virt pa, ps)) ` set pas"

definition mapped_all :: "Vm \<Rightarrow> PhysAddr \<Rightarrow> PageSize \<Rightarrow> Entry \<Rightarrow> PhysAddr list \<Rightarrow> bool" where
  "mapped_all v s ps entry pas \<longleftrightarrow>
     (\<forall>pa \<in> set pas. walk (pmem v) s levels (physaddr_as_virt pa) =
        Some (final_entry ps (with_phys_addr pa entry), dest_level ps))"

lemma jobs_simps [simp]:
  "jobs ps [] = {}" "jobs ps (pa # pas) = insert (physaddr_as_virt pa, ps) (jobs ps pas)" "finite (jobs ps pas)"
  by (simp_all add: jobs_def)

lemma page_ok_virt:
  assumes "page_ok ps pa"
  shows "paddr pa < 2 ^ 47" and "ix (physaddr_as_virt pa) Level0 \<noteq> 511"
    and "add_c (physaddr_as_virt pa) (PageSize_size ps) = Inr (physaddr_as_virt pa + PageSize_size ps)"
proof -
  show p: "paddr pa < 2 ^ 47" using assms by (simp add: page_ok_def)
  have "paddr pa div 2 ^ 39 < 128" using assms by (simp add: page_ok_def less_mult_imp_div_less)
  then show "ix (physaddr_as_virt pa) Level0 \<noteq> 511" using ix_virt(1) [OF p] by simp
  have "unat (PageSize_size ps) \<le> 2 ^ 30"
    by (cases ps) (simp_all add: PAGE_SIZE_4K_def PAGE_SIZE_2M_def PAGE_SIZE_1G_def push_bit_eq_mult)
  then show "add_c (physaddr_as_virt pa) (PageSize_size ps) = Inr (physaddr_as_virt pa + PageSize_size ps)"
    using assms unat_virt [OF p] by (intro add_c_usize) (simp add: page_ok_def)
qed

lemma page_ok_apart:
  assumes "page_ok ps pa" and "page_ok ps pb" and "pa \<noteq> pb"
  shows "apart (physaddr_as_virt pa, ps) (physaddr_as_virt pb, ps)"
proof -
  have "path (physaddr_as_virt pa) (depth (dest_level ps) + 1) \<noteq> path (physaddr_as_virt pb) (depth (dest_level ps) + 1)"
  proof
    assume "path (physaddr_as_virt pa) (depth (dest_level ps) + 1) = path (physaddr_as_virt pb) (depth (dest_level ps) + 1)"
    then have "paddr pa div unat (PageSize_size ps) = paddr pb div unat (PageSize_size ps)"
      using path_virt_inj page_ok_virt(1) assms(1,2) by blast
    then have "paddr pa = paddr pb" using assms(1,2) by (metis dvd_div_mult_self page_ok_def)
    then show False using assms(3) paddr_inject by blast
  qed
  then show ?thesis by (simp add: apart_def)
qed

lemma map_pages_ok:
  assumes mmu: "walks_tables mmu" and e: "e_valid entry" "ps = Page4K \<or> \<not> e_page_or_table entry"
    and inv: "vm_inv v s" and pas: "\<forall>pa \<in> set pas. page_ok ps pa" "distinct pas"
    and free: "card (needs_all (jobs ps pas) - tabs (pmem v) s) \<le> card (free_addrs (page_alloc v))"
    and nb: "\<forall>pa \<in> set pas. \<not> blocked (pmem v) s (physaddr_as_virt pa) ps"
  shows "\<exists>v'. map_pages mmu v s entry ps pas sv ev =
      ret_v v' (if pas = [] then (sv, ev)
        else (Some (case sv of None \<Rightarrow> physaddr_as_virt (hd pas) | Some x \<Rightarrow> x), physaddr_as_virt (last pas) + PageSize_size ps)) \<and>
    vm_inv v' s \<and> effect v v' s (jobs ps pas) \<and> mapped_all v' s ps entry pas"
  using inv pas free nb
proof (induction pas arbitrary: v sv ev)
  case Nil
  then show ?case by (intro exI [of _ v]) (simp add: mapped_all_def effect_empty)
next
  case (Cons pa pas)
  let ?va = "physaddr_as_virt pa" and ?e = "with_phys_addr pa entry" and ?sv = "case sv of None \<Rightarrow> physaddr_as_virt pa | Some x \<Rightarrow> x"
  have pa: "page_ok ps pa" and pas: "\<forall>pb \<in> set pas. page_ok ps pb" using Cons.prems(2) by auto
  have diff: "apart (?va, ps) k" if "k \<in> jobs ps pas" for k
    using that page_ok_apart [OF pa] pas Cons.prems(3) by (auto simp: jobs_def)
  have e': "e_valid ?e" "ps = Page4K \<or> \<not> e_page_or_table ?e" using e by simp_all
  have nd: "card (needs ?va ps - tabs (pmem v) s) \<le> card (needs_all (jobs ps (pa # pas)) - tabs (pmem v) s)"
    by (intro card_mono finite_Diff finite_needs) (auto simp: needs_all_def)
  from mmu Cons.prems(1) page_ok_virt(2) [OF pa] e' show ?case
  proof (cases rule: map_to_cases)
    case (err v' x)
    then show ?thesis using Cons.prems(4,5) nd by (simp add: refused_def)
  next
    case (ok v1)
    note later = effect_apart [OF ok(4) page_ok_virt(2)]
    have "card (needs_all (jobs ps pas) - tabs (pmem v1) s) \<le> card (free_addrs (page_alloc v1))"
      using missing_after [OF ok(4), of "jobs ps pas"] Cons.prems(4) diff by simp
    moreover have "\<forall>pb \<in> set pas. \<not> blocked (pmem v1) s (physaddr_as_virt pb) ps"
      using later(2) diff pas Cons.prems(5) apart_sym by (fastforce simp: jobs_def)
    ultimately obtain v' where v': "map_pages mmu v1 s entry ps pas (Some ?sv) (?va + PageSize_size ps) =
        ret_v v' (if pas = [] then (Some ?sv, ?va + PageSize_size ps) else (Some ?sv, physaddr_as_virt (last pas) + PageSize_size ps))"
        "vm_inv v' s" "effect v1 v' s (jobs ps pas)" "mapped_all v' s ps entry pas"
      using Cons.IH [OF ok(2) pas, of "Some ?sv" "?va + PageSize_size ps"] Cons.prems(3) by (auto split: if_splits)
    have "effect v v' s (jobs ps (pa # pas))"
      using effect_trans [OF ok(4) v'(3)] diff by simp
    moreover have "mapped_all v' s ps entry (pa # pas)"
      using effect_apart(1) [OF v'(3) page_ok_virt(2) [OF pa], of ps] diff ok(3) v'(4) by (simp add: mapped_all_def)
    moreover have "map_pages mmu v s entry ps (pa # pas) sv ev =
        ret_v v' (Some ?sv, physaddr_as_virt (last (pa # pas)) + PageSize_size ps)"
      using ok(1) v'(1) page_ok_virt(3) [OF pa] by (simp add: Let_def)
    ultimately show ?thesis using v'(2) by (intro exI [of _ v']) (cases sv; simp)
  qed
qed

lemma rounded_page_ok:
  assumes "step_by_rounded rng (PageSize_size ps) = Inr pas" and "paddr (pr_end rng) \<le> 2 ^ 46"
  shows "\<forall>pa \<in> set pas. page_ok ps pa"
  using assms(2) by (auto simp: step_by_rounded_members [OF assms(1)] page_ok_def paddr_less_iff)

lemma page_ok_addr:
  assumes "page_ok ps pa"
  shows "phys_page_addr (final_entry ps (with_phys_addr pa entry)) = pa"
proof -
  have "4096 dvd unat (PageSize_size ps)"
    by (cases ps) (simp_all add: PAGE_SIZE_4K_def PAGE_SIZE_2M_def PAGE_SIZE_1G_def push_bit_eq_mult)
  then have "page_addr pa" using assms dvd_trans by (fastforce simp: page_ok_def page_addr_def)
  then show ?thesis by (simp add: final_entry_def phys_page_addr_flag phys_page_addr_with)
qed

lemma map_phys_range_ok:
  assumes "walks_tables mmu" and "vm_inv v s" and "e_valid entry" and "ps = Page4K \<or> \<not> e_page_or_table entry"
    and "step_by_rounded rng (PageSize_size ps) = Inr pas" and "pas \<noteq> []" and "paddr (pr_end rng) \<le> 2 ^ 46"
    and "\<forall>pa \<in> set pas. \<not> blocked (pmem v) s (physaddr_as_virt pa) ps"
    and "card (needs_all (jobs ps pas) - tabs (pmem v) s) \<le> card (free_addrs (page_alloc v))"
  shows "\<exists>v'. map_phys_range mmu v s rng entry ps =
      ret_v v' (physaddr_as_virt (hd pas), physaddr_as_virt (last pas) + PageSize_size ps) \<and> vm_inv v' s \<and>
    effect v v' s (jobs ps pas) \<and> mapped_all v' s ps entry pas"
proof -
  have "distinct pas" using step_by_rounded_sorted [OF assms(5)] by (simp add: strict_sorted_iff)
  then obtain v' where v': "map_pages mmu v s entry ps pas None 0 =
      ret_v v' (Some (physaddr_as_virt (hd pas)), physaddr_as_virt (last pas) + PageSize_size ps)"
      "vm_inv v' s" "effect v v' s (jobs ps pas)" "mapped_all v' s ps entry pas"
    using map_pages_ok [OF assms(1,3,4,2) rounded_page_ok [OF assms(5,7)] _ assms(9,8), of None 0] assms(6) by auto
  have "map_phys_range mmu v s rng entry ps =
      ret_v v' (physaddr_as_virt (hd pas), physaddr_as_virt (last pas) + PageSize_size ps)"
    using v'(1) assms(5) by (simp add: map_phys_range_def)
  then show ?thesis using v'(2-4) by blast
qed

section \<open>A small machine\<close>

text \<open>Sixteen pages, four of them free; an empty page table at 0x1000 with its recursive entry,
  while the root in use is at 0x2000.  The hardware is the walk itself.\<close>

definition vm_pa :: BitmapPageAlloc where
  "vm_pa = \<lparr>num_bitmaps = 1, bitmap_size_bytes = 2, bitmaps = [\<lparr>bytes = [0xff, 0xf0]\<rparr>],
     alloc_page_size = 4096, end_pa = PhysAddr 65536, next_pa_to_scan = PhysAddr 0\<rparr>"

definition vm0 :: Vm where
  "vm0 = \<lparr>pmem = (\<lambda>p i. if p = PhysAddr 0x1000 \<and> i = 511 then table_entry (PhysAddr 0x1000) else 0),
     ttbr1 = 0x2000, page_alloc = vm_pa\<rparr>"

lemma vm_pa_free: "free_pages vm_pa = {8, 9, 10, 11}"
  by code_simp

lemma vm_pa_free_addrs: "free_addrs vm_pa = {PhysAddr 0x8000, PhysAddr 0x9000, PhysAddr 0xa000, PhysAddr 0xb000}"
  by (simp add: free_addrs_def vm_pa_free) (simp add: vm_pa_def)

lemma vm_pa_inv: "pa_inv vm_pa"
proof -
  have "is_power_of_two (4096 :: usize)" by code_simp
  then show ?thesis
    by (simp add: pa_inv_def vm_pa_free) (simp add: vm_pa_def shape_def npages_def paddr_le_iff)
qed

lemma vm0_pt: "hd_ok is \<Longrightarrow> pt (pmem vm0) (PhysAddr 0x1000) is = (if is = [] then Some (PhysAddr 0x1000) else None)"
  by (cases "is") (simp_all add: vm0_def is_table_def)

lemma vm0_tables: "tables (pmem vm0) (PhysAddr 0x1000) = {PhysAddr 0x1000}"
proof -
  have "is = []" if "kpath is" "pt (pmem vm0) (PhysAddr 0x1000) is = Some p" for "is" p
    using vm0_pt [of "is"] that by (auto simp: kpath_def split: if_splits)
  then show ?thesis using root_in_tables [of "PhysAddr 0x1000" "pmem vm0"] by (fastforce simp: tables_def)
qed

lemma vm0_inv: "vm_inv vm0 (PhysAddr 0x1000)"
proof -
  let ?s = "PhysAddr 0x1000"
  have ps: "page_addr ?s" by (simp add: page_addr_def)
  have "pt (pmem vm0) ?s is = Some p \<longleftrightarrow> is = [] \<and> p = ?s" if "kpath is" for "is" p
    using vm0_pt [of "is"] that by (auto simp: kpath_def)
  then have un: "is = js" if "kpath is" "kpath js" "pt (pmem vm0) ?s is = Some q" "pt (pmem vm0) ?s js = Some q" for "is" js q
    using that by simp
  have "points_to (pmem vm0 ?s 511) ?s" using ps by (simp add: vm0_def)
  then have "tree_ok (pmem vm0) ?s" using un unfolding tree_ok_def by blast
  then show ?thesis
    using ps vm0_tables vm_pa_inv by (auto simp: vm_inv_def vm0_def vm_pa_free_addrs kernel_root_def page_addr_def)
qed

lemma vm0_blocked: "ix va Level0 \<noteq> 511 \<Longrightarrow> \<not> blocked (pmem vm0) (PhysAddr 0x1000) va ps"
  by (simp add: blocked_def vm0_def walk.simps)

lemma vm0_card: "card (free_addrs (page_alloc vm0)) = 4"
  by (simp add: vm0_def vm_pa_free_addrs)

lemma arm_page_walks: "walks_tables arm_page"
  by (simp add: walks_tables_def)

section \<open>Properties\<close>

text \<open>
  C5. Mapping a page.  On hardware that walks the tables, for a table tree whose pages are not
  free, a virtual address outside the recursive slot, and a valid entry that is a block descriptor
  for the large page sizes: when no block is mapped above and enough pages are free for the
  missing tables, \<open>map_to\<close> returns without a fault; afterwards the walk from the table ends at the
  entry, every address of another page translates as before, the recursive slot of the root in
  use is restored, and the invariant holds again.
\<close>

theorem map_to_correct:
  assumes "walks_tables mmu" and "vm_inv v s" and "unat (va_index va Level0) \<noteq> 511" and "e_valid e"
    and "ps = Page4K \<or> \<not> e_page_or_table e" and "\<not> blocked (pmem v) s va ps"
    and "card (needs va ps - tabs (pmem v) s) \<le> card (free_addrs (page_alloc v))"
  shows "\<exists>v'. map_to mmu v s e va ps = Some (Inr (v', Inr ())) \<and> vm_inv v' s \<and>
    walk (pmem v') s levels va = Some (final_entry ps e, dest_level ps) \<and>
    (\<forall>va'. unat (va_index va' Level0) \<noteq> 511 \<longrightarrow> slot va' ps \<noteq> slot va ps \<longrightarrow>
       walk (pmem v') s levels va' = walk (pmem v) s levels va') \<and>
    pmem v' (kernel_root v) 511 = pmem v (kernel_root v) 511 \<and> ttbr1 v' = ttbr1 v"
  using assms(1-5)
proof (cases rule: map_to_cases)
  case (ok v')
  then show ?thesis using effectD(1,6,7) [OF ok(4)] by (intro exI [of _ v']) (simp add: ret_v_def)
next
  case (err v' x)
  then show ?thesis using assms(6,7) by (simp add: refused_def)
qed

theorem map_to_correct_witness:
  "\<exists>v'. map_to arm_page vm0 (PhysAddr 0x1000) (with_phys_addr (PhysAddr 0x5000) rw_kernel_data) 0xffff800000005000 Page4K
      = Some (Inr (v', Inr ())) \<and>
    walk (pmem v') (PhysAddr 0x1000) levels 0xffff800000005000 =
      Some (final_entry Page4K (with_phys_addr (PhysAddr 0x5000) rw_kernel_data), Level3)"
proof -
  have va: "unat (va_index 0xffff800000005000 Level0) \<noteq> 511" by (simp add: va_index.simps)
  have "card (needs 0xffff800000005000 Page4K - tabs (pmem vm0) (PhysAddr 0x1000)) \<le> card (free_addrs (page_alloc vm0))"
    using card_needs [of "0xffff800000005000" Page4K "tabs (pmem vm0) (PhysAddr 0x1000)"] by (simp add: vm0_card)
  from map_to_correct [OF arm_page_walks vm0_inv va _ _ vm0_blocked [OF va] this, of "with_phys_addr (PhysAddr 0x5000) rw_kernel_data"]
  show ?thesis by auto
qed


text \<open>A machine with a 1 GiB block where the page is to be mapped.\<close>

definition vm1 :: Vm where
  "vm1 = vm0\<lparr>pmem := set_cell (pmem vm0) (PhysAddr 0x1000) 256 rw_kernel_data\<rparr>"

lemma not_table_rw: "\<not> e_page_or_table rw_kernel_data"
  by (simp add: e_page_or_table_def rw_kernel_data_def with_valid_def with_mair_index_def
      with_pxn_def with_uxn_def with_accessed_def with_shareable_def bit_fields)

lemma vm1_inv: "vm_inv vm1 (PhysAddr 0x1000)"
proof -
  let ?s = "PhysAddr 0x1000"
  have nt: "\<not> is_table rw_kernel_data" by (simp add: is_table_def not_table_rw)
  have ok: "tree_ok (pmem vm0) ?s" using vm0_inv by (simp add: vm_inv_def)
  have "kpath []" "pt (pmem vm0) ?s [] = Some ?s" "hd_ok ([] @ [256])" by (simp_all add: kpath_def)
  note leaf = set_leaf_tree [OF ok this disjI1 [OF nt]]
  show ?thesis using vm0_inv leaf unfolding vm_inv_def vm1_def by (auto simp: kernel_root_def)
qed


text \<open>
  C6. Mapping a range.  Under the same assumptions, for a range below \<open>2 ^ 46\<close> none of whose
  pages has a block mapped above, with enough free pages: \<open>map_phys_range\<close> returns the virtual
  bounds of the rounded range, and afterwards the walk takes the direct-map address of every page
  that the range touches to an entry with that page's physical address and the given attributes,
  and leaves every address of another page as it was.
\<close>

theorem map_phys_range_correct:
  assumes "walks_tables mmu" and "vm_inv v s" and "e_valid entry" and "ps = Page4K \<or> \<not> e_page_or_table entry"
    and "step_by_rounded rng (PageSize_size ps) = Inr pas" and "pas \<noteq> []" and "paddr (pr_end rng) \<le> 2 ^ 46"
    and "\<forall>pa \<in> set pas. \<not> blocked (pmem v) s (physaddr_as_virt pa) ps"
    and "card (needs_all (jobs ps pas) - tabs (pmem v) s) \<le> card (free_addrs (page_alloc v))"
  shows "\<exists>v'. map_phys_range mmu v s rng entry ps =
      Some (Inr (v', Inr (physaddr_as_virt (hd pas), physaddr_as_virt (last pas) + PageSize_size ps))) \<and> vm_inv v' s \<and>
    (\<forall>pa. unat (PageSize_size ps) dvd paddr pa \<and> paddr (pr_start rng) < paddr pa + unat (PageSize_size ps) \<and> pa < pr_end rng \<longrightarrow>
       walk (pmem v') s levels (physaddr_as_virt pa) = Some (final_entry ps (with_phys_addr pa entry), dest_level ps) \<and>
       phys_page_addr (final_entry ps (with_phys_addr pa entry)) = pa) \<and>
    (\<forall>va. unat (va_index va Level0) \<noteq> 511 \<longrightarrow>
       (\<forall>pa \<in> set pas. slot va ps \<noteq> slot (physaddr_as_virt pa) ps) \<longrightarrow>
       walk (pmem v') s levels va = walk (pmem v) s levels va)"
proof -
  note mem = step_by_rounded_members [OF assms(5)]
  obtain v' where v': "map_phys_range mmu v s rng entry ps =
      ret_v v' (physaddr_as_virt (hd pas), physaddr_as_virt (last pas) + PageSize_size ps)"
      "vm_inv v' s" "effect v v' s (jobs ps pas)" "mapped_all v' s ps entry pas"
    using map_phys_range_ok [OF assms] by blast
  have "walk (pmem v') s levels va = walk (pmem v) s levels va"
    if "ix va Level0 \<noteq> 511" "\<forall>pa \<in> set pas. slot va ps \<noteq> slot (physaddr_as_virt pa) ps" for va
    by (rule effectD(1) [OF v'(3) that(1)]) (use that(2) in \<open>auto simp: jobs_def\<close>)
  then show ?thesis
    using v'(1,2,4) page_ok_addr rounded_page_ok [OF assms(5,7)] by (intro exI [of _ v']) (auto simp: ret_v_def mapped_all_def mem)
qed

theorem map_phys_range_correct_witness:
  "\<exists>v'. map_phys_range arm_page vm0 (PhysAddr 0x1000) (PhysRange_new (PhysAddr 0x5100) (PhysAddr 0x5200)) rw_kernel_data Page4K =
      Some (Inr (v', Inr (0xffff800000005000, 0xffff800000006000)))"
proof -
  let ?r = "PhysRange_new (PhysAddr 0x5100) (PhysAddr 0x5200)"
  have st: "step_by_rounded ?r (PageSize_size Page4K) = Inr [PhysAddr 0x5000]" by code_simp
  have "unat (va_index (physaddr_as_virt (PhysAddr 0x5000)) Level0) \<noteq> 511"
    by (simp add: va_index.simps physaddr_as_virt_def KZERO_def)
  then have "\<forall>pa \<in> set [PhysAddr 0x5000]. \<not> blocked (pmem vm0) (PhysAddr 0x1000) (physaddr_as_virt pa) Page4K"
    using vm0_blocked by simp
  moreover have "card (needs_all (jobs Page4K [PhysAddr 0x5000]) - tabs (pmem vm0) (PhysAddr 0x1000)) \<le> card (free_addrs (page_alloc vm0))"
    using card_needs [of "physaddr_as_virt (PhysAddr 0x5000)" Page4K "tabs (pmem vm0) (PhysAddr 0x1000)"]
    by (simp add: vm0_card needs_all_def)
  ultimately have "\<exists>v'. map_phys_range arm_page vm0 (PhysAddr 0x1000) ?r rw_kernel_data Page4K =
      Some (Inr (v', Inr (physaddr_as_virt (hd [PhysAddr 0x5000]), physaddr_as_virt (last [PhysAddr 0x5000]) + PageSize_size Page4K)))"
    using map_phys_range_correct [OF arm_page_walks vm0_inv rw_kernel_data_valid _ st] by (auto simp: PhysRange_new_def)
  then
  show ?thesis by (simp add: physaddr_as_virt_def KZERO_def PAGE_SIZE_4K_def)
qed

text \<open>
  C12. Recursive addresses.  With the recursive slot of the root in use and of the table tree
  leading to the tree's root, the walk takes the recursive address of a virtual address at level
  1, 2 or 3 to exactly the table that its own walk reaches at that level.
\<close>

theorem recursive_table_addr_correct:
  assumes "tree_ok (pmem v) s" and "rec_ok v s" and "l \<noteq> Level0"
    and "pt (pmem v) s (map (\<lambda>k. unat (va_index va k)) (take (depth l) levels)) = Some t"
  shows "arm_page (pmem v) (ttbr1 v) (recursive_table_addr va l) = Some t"
  using recursive_page [OF assms(1,2) _ assms(3)] assms(4) by (simp add: path_def)

theorem recursive_table_addr_correct_witness:
  "arm_page (pmem (write_entry (PhysAddr 0x1000) 256 (table_entry (PhysAddr 0x3000)) (switch vm0 (PhysAddr 0x1000)))) 0x1000
     (recursive_table_addr 0xffff800000005000 Level1) = Some (PhysAddr 0x3000)"
proof -
  let ?s = "PhysAddr 0x1000" and ?q = "PhysAddr 0x3000"
  let ?v = "write_entry ?s 256 (table_entry ?q) (switch vm0 ?s)"
  have i: "unat (va_index 0xffff800000005000 Level0) = 256" by (simp add: va_index.simps)
  have m: "pmem ?v = set_cell (pmem vm0) ?s 256 (table_entry ?q)" and t: "ttbr1 ?v = 0x1000"
    by (simp_all add: switch_def)
  have pre: "tree_ok (pmem vm0) ?s" "kpath ([] @ [256])" "pt (pmem vm0) ?s [] = Some ?s"
      "?q \<notin> tables (pmem vm0) ?s" "page_addr ?q" "\<And>j. pmem vm0 ?q j = 0" "\<not> e_valid (pmem vm0 ?s 256)"
    using vm0_inv by (simp_all add: vm_inv_def kpath_def vm0_tables page_addr_def) (simp_all add: vm0_def)
  note new = set_table_tree [OF pre, folded m]
  have "rec_ok ?v ?s" using new(1) by (simp add: rec_ok_def tree_ok_def kernel_root_def switch_def)
  from recursive_table_addr_correct [OF new(1) this, of Level1 "0xffff800000005000" ?q] new(3) i t
  show ?thesis by simp
qed

end
