(* ===== verification/Vm_Boot.thy ===== *)
theory Vm_Boot
  imports Vm_Correct
begin

text \<open>
  The state in which the kernel starts to build its page table: the page allocator with the early
  pages, and the empty table with its recursive entry.  Also what the attributes of the kernel's
  mappings mean to the hardware.
\<close>

section \<open>The early pages\<close>

lemma PAGE_ALLOC_inv:
  obtains a where "PAGE_ALLOC = Inr a" and "pa_inv a" and "free_pages a = {}" and "PS a = 4096"
    and "paddr (end_pa a) = 2 ^ 32" and "npages a = 2 ^ 20"
proof -
  have p2: "is_power_of_two (4096 :: usize)" by code_simp
  let ?a = "\<lparr>num_bitmaps = 32, bitmap_size_bytes = 4096, bitmaps = replicate 32 (Bitmap_new 4096 0xff),
    alloc_page_size = 4096, end_pa = PhysAddr 0x100000000, next_pa_to_scan = PhysAddr 0\<rparr>"
  have eq: "PAGE_ALLOC = Inr ?a"
    by (simp add: PAGE_ALLOC_def new_all_allocated_def PAGE_SIZE_4K_def mul_c_def)
  have sh: "shape ?a" using p2 by (simp add: shape_def npages_def Bitmap_new_def)
  have "page_allocated ?a p" if "p < npages ?a" for p
  proof -
    have "p div (8 * 4096) < 32" "p mod (8 * 4096) div 8 < 4096"
      using page_index_bounds [OF sh, of p] that by simp_all
    then show ?thesis using bit_ff [of "p mod 8"] by (simp only: page_allocated_def Bitmap_new_def) simp
  qed
  then have f: "free_pages ?a = {}" by (auto simp: free_pages_def)
  have n: "npages ?a = 2 ^ 20" by (simp add: npages_def)
  have "pa_inv ?a" using sh f by (simp add: pa_inv_def npages_def paddr_le_iff)
  then show thesis using that [OF eq _ f] n by simp
qed

lemma mark_free_early:
  assumes "pa_inv a" and "free_pages a = {}" and "PS a = 4096" and "paddr (end_pa a) = 2 ^ 32" and "npages a = 2 ^ 20"
    and "4096 dvd paddr (pr_end r)" and "paddr (pr_end r) \<le> 2 ^ 32"
  obtains a' where "mark_free a r = Inr (a', Inr ())" and "pa_inv a'" and "PS a' = 4096"
    and "geometry a' = geometry a"
    and "free_pages a' = {p. p < 2 ^ 20 \<and> page_overlaps 4096 r p}"
proof -
  have sh: "shape a" using assms(1) by (simp add: pa_inv_def)
  have "pr_end r \<le> end_pa a" "paddr (pr_end r) \<le> npages a * PS a"
    using assms(3-5,7) by (simp_all add: paddr_le_iff)
  then obtain a' where a': "mark_range a r False True = Inr (a', Inr ())" "shape a'" "a' = a\<lparr>bitmaps := bitmaps a'\<rparr>"
    and eff: "\<And>q. q < npages a \<Longrightarrow> page_allocated a' q = (if page_overlaps (PS a) r q then False else page_allocated a q)"
    using mark_range_effect [OF sh, of True r False] by blast
  have fr: "npages a' = npages a" "PS a' = PS a" "end_pa a' = end_pa a" "next_pa_to_scan a' = next_pa_to_scan a"
    by (subst a'(3), simp add: npages_def)+
  have all: "page_allocated a q" if "q < npages a" for q using assms(2) that by (auto simp: free_pages_def)
  have f: "free_pages a' = {p. p < 2 ^ 20 \<and> page_overlaps 4096 r p}"
    using eff all assms(3,5) by (auto simp: free_pages_def fr split: if_splits)
  have "(p + 1) * 4096 \<le> 2 ^ 32" if "p \<in> free_pages a'" for p
  proof -
    have "p < 2 ^ 20" using that f by simp
    then show ?thesis by simp
  qed
  then have "pa_inv a'" using assms(1,3-5) a'(2) by (auto simp: pa_inv_def fr)
  then show thesis using that a'(1) f assms(3) fr by (simp add: mark_free_def geometry_def)
qed

lemma early_free_addrs:
  assumes "shape a" and "PS a = 4096" and "free_pages a = {p. p < 2 ^ 20 \<and> page_overlaps 4096 r p}"
  shows "q \<in> free_addrs a \<longleftrightarrow> 4096 dvd paddr q \<and> paddr q < 2 ^ 32 \<and>
    paddr (pr_start r) < paddr q + 4096 \<and> paddr q < paddr (pr_end r)"
proof
  assume "q \<in> free_addrs a"
  then obtain p where p: "q = PhysAddr (word_of_nat (p * 4096))" "p < 2 ^ 20" "page_overlaps 4096 r p"
    using assms(2,3) by (auto simp: free_addrs_def)
  have "unat (word_of_nat (p * 4096) :: u64) = p * 4096"
    by (rule unat_word_of_nat_small) (use p(2) in simp)
  then have q: "paddr q = p * 4096" using p(1) by simp
  then show "4096 dvd paddr q \<and> paddr q < 2 ^ 32 \<and> paddr (pr_start r) < paddr q + 4096 \<and> paddr q < paddr (pr_end r)"
    using p(2,3) by (simp add: page_overlaps_def)
next
  assume a: "4096 dvd paddr q \<and> paddr q < 2 ^ 32 \<and> paddr (pr_start r) < paddr q + 4096 \<and> paddr q < paddr (pr_end r)"
  then obtain p where p: "paddr q = p * 4096" by (metis dvd_def mult.commute)
  have "p < 2 ^ 20" using a p by simp
  moreover have "page_overlaps 4096 r p" using a p by (simp add: page_overlaps_def)
  moreover have "q = PhysAddr (word_of_nat (p * 4096))"
    using p by (metis PhysAddr.collapse word_of_nat_eqI)
  ultimately show "q \<in> free_addrs a" using assms(2,3) by (auto simp: free_addrs_def)
qed

text \<open>An empty table with its recursive entry is a tree of one table.\<close>

lemma empty_tree:
  fixes m :: pages and t :: PhysAddr
  assumes "page_addr t"
  defines "m' \<equiv> set_cell (m(t := PageTable_empty)) t 511 (table_entry t)"
  shows "tree_ok m' t" and "tables m' t = {t}"
proof -
  have e: "m' t i = (if i = 511 then table_entry t else 0)" for i
    by (simp add: m'_def set_cell_apply PageTable_empty_def Entry_empty_def)
  have p: "pt m' t is = (if is = [] then Some t else None)" if "hd_ok is" for "is"
    using that by (cases "is") (simp_all add: e is_table_def)
  then have only: "is = []" if "kpath is" "pt m' t is = Some q" for "is" q
    using that by (auto simp: kpath_def split: if_splits)
  show "tree_ok m' t"
    using assms(1) only unfolding tree_ok_def by (metis e table_entry_points)
  show "tables m' t = {t}" using only root_in_tables [of t m'] by (fastforce simp: tables_def)
qed

lemma empty_walk:
  fixes m :: pages
  assumes "m t = PageTable_empty" and "ix va Level0 \<noteq> 511"
  shows "walk (set_cell m t 511 e) t levels va = None" and "\<not> blocked (set_cell m t 511 e) t va ps"
  using assms by (simp_all add: walk.simps blocked_def set_cell_apply PageTable_empty_def Entry_empty_def)

text \<open>
  The start of \<open>init\<close>: when the early page tables end on a page boundary below 4 GiB, the page
  allocator is set up without an error, and its free pages are exactly the early pages.  With an
  empty, page-aligned kernel page table below 4 GiB that, like the root in use, is not an early
  page, the invariant of the mapping operations holds once the recursive entry is written.
\<close>

lemma boot_page_table:
  assumes "PAGE_ALLOC = Inr a0" and "early_pages_range ld = Inr r"
    and "4096 dvd paddr (pr_end r)" and "paddr (pr_end r) \<le> 2 ^ 32"
    and "pmem v t = PageTable_empty" and "4096 dvd paddr t" and "paddr t < 2 ^ 48"
    and "paddr t + 4096 \<le> paddr (pr_start r) \<or> paddr (pr_end r) \<le> paddr t"
    and "paddr (kernel_root v) + 4096 \<le> paddr (pr_start r) \<or> paddr (pr_end r) \<le> paddr (kernel_root v)"
  obtains a where "init_page_allocator ld a0 = Inr a" and "geometry a = (4096, 2 ^ 20, PhysAddr 0x100000000)"
    and "\<And>q. q \<in> free_addrs a \<longleftrightarrow> 4096 dvd paddr q \<and> paddr q < 2 ^ 32 \<and>
       paddr (pr_start r) < paddr q + 4096 \<and> paddr q < paddr (pr_end r)"
    and "vm_inv (write_entry t 511 (table_entry t) (v\<lparr>page_alloc := a\<rparr>)) t"
    and "tables (pmem (write_entry t 511 (table_entry t) (v\<lparr>page_alloc := a\<rparr>))) t = {t}"
proof -
  obtain a' where a': "PAGE_ALLOC = Inr a'" "pa_inv a'" "free_pages a' = {}" "PS a' = 4096" "paddr (end_pa a') = 2 ^ 32" "npages a' = 2 ^ 20"
    by (rule PAGE_ALLOC_inv)
  then have "a' = a0" using assms(1) by (metis sum.inject(2))
  with a' obtain a where a: "mark_free a0 r = Inr (a, Inr ())" "pa_inv a" "PS a = 4096" "geometry a = geometry a0"
      "free_pages a = {p. p < 2 ^ 20 \<and> page_overlaps 4096 r p}"
    using mark_free_early [OF _ _ _ _ _ assms(3,4), of a0] by metis
  have "shape a" using a(2) by (simp add: pa_inv_def)
  note free = early_free_addrs [OF this a(3,5)]
  let ?v = "write_entry t 511 (table_entry t) (v\<lparr>page_alloc := a\<rparr>)"
  have pt: "page_addr t" using assms(6,7) by (simp add: page_addr_def)
  have m: "pmem ?v = set_cell ((pmem v)(t := PageTable_empty)) t 511 (table_entry t)"
    using assms(5) by (simp add: fun_upd_idem)
  note tree = empty_tree [OF pt, of "pmem v", folded m]
  have "t \<notin> free_addrs a" "kernel_root v \<notin> free_addrs a" using assms(8,9) by (auto simp: free)
  moreover have "free_addrs a \<subseteq> Collect page_addr" by (auto simp: free page_addr_def)
  ultimately have "vm_inv ?v t"
    using tree pt a(2) by (auto simp: vm_inv_def kernel_root_def)
  moreover have "init_page_allocator ld a0 = Inr a" using assms(2) a(1) by (simp add: init_page_allocator_def)
  moreover have "geometry a = (4096, 2 ^ 20, PhysAddr 0x100000000)"
    using a(4) a' \<open>a' = a0\<close> PhysAddr_eq_iff [of "0x100000000" "end_pa a0"] by (simp add: geometry_def)
  ultimately show thesis using that free tree(2) by blast
qed

definition small_ld :: LinkerSymbols where
  "small_ld = \<lparr>eboottext = 0xffff800000081000, text_sym = 0xffff800000081000, etext = 0xffff800000090000,
     rodata = 0xffff800000090000, erodata = 0xffff800000094000, data_sym = 0xffff800000094000,
     edata = 0xffff800000096000, bss = 0xffff800000096000, ebss = 0xffff8000000a0000,
     end_sym = 0xffff800000400000, early_pagetables = 0xffff800000200000, eearly_pagetables = 0xffff800000400000\<rparr>"

section \<open>Properties\<close>



end
