(* ===== verification/Vm_Init.thy ===== *)
theory Vm_Init
  imports Vm_Boot
begin

text \<open>
  The construction of the kernel's page table by \<open>init\<close> of \<^verbatim>\<open>aarch64/src/vm.rs\<close>: the rows of the
  memory map one after the other, the layout of the kernel in memory as the linker script
  \<^verbatim>\<open>aarch64/lib/kernel.ld\<close> fixes it, and the state of the page table and of the page allocator
  when the kernel switches to the new table.
\<close>

section \<open>The rows of the memory map\<close>

text \<open>The pages that a row of the memory map touches.\<close>

definition row_pages :: "mapping_row \<Rightarrow> PhysAddr set" where
  "row_pages = (\<lambda>(r, e, ps). {pa. unat (PageSize_size ps) dvd paddr pa \<and>
     paddr (pr_start r) < paddr pa + unat (PageSize_size ps) \<and> pa < pr_end r})"

definition row_jobs :: "mapping_row \<Rightarrow> (usize \<times> PageSize) set" where
  "row_jobs row = (\<lambda>pa. (physaddr_as_virt pa, snd (snd row))) ` row_pages row"

definition row_ok :: "mapping_row \<Rightarrow> bool" where
  "row_ok = (\<lambda>(r, e, ps). e_valid e \<and> (ps = Page4K \<or> \<not> e_page_or_table e) \<and> pr_start r < pr_end r \<and>
     paddr (pr_end r) \<le> 2 ^ 46)"

definition row_mapped :: "Vm \<Rightarrow> PhysAddr \<Rightarrow> mapping_row \<Rightarrow> bool" where
  "row_mapped v s = (\<lambda>(r, e, ps). \<forall>pa \<in> row_pages (r, e, ps). walk (pmem v) s levels (physaddr_as_virt pa) =
     Some (final_entry ps (with_phys_addr pa e), dest_level ps))"

definition rows_apart :: "mapping_row \<Rightarrow> mapping_row \<Rightarrow> bool" where
  "rows_apart a b \<longleftrightarrow> (\<forall>j \<in> row_jobs a. \<forall>k \<in> row_jobs b. apart j k)"

lemma page_size_power: "is_power_of_two (PageSize_size ps)"
proof -
  have "is_power_of_two PAGE_SIZE_4K" "is_power_of_two PAGE_SIZE_2M" "is_power_of_two PAGE_SIZE_1G" by code_simp+
  then show ?thesis by (cases ps) simp_all
qed

lemma page_sizes [simp]:
  "unat PAGE_SIZE_4K = 2 ^ 12" "unat PAGE_SIZE_2M = 2 ^ 21" "unat PAGE_SIZE_1G = 2 ^ 30"
  by (simp_all add: PAGE_SIZE_4K_def PAGE_SIZE_2M_def PAGE_SIZE_1G_def push_bit_eq_mult)

lemma page_size_bounds: "0 < unat (PageSize_size ps)" "unat (PageSize_size ps) \<le> 2 ^ 30"
  by (cases ps; simp)+

lemma row_pages_list:
  assumes "row_ok (r, e, ps)"
  obtains pas where "step_by_rounded r (PageSize_size ps) = Inr pas" and "set pas = row_pages (r, e, ps)" and "pas \<noteq> []"
    and "\<forall>pa \<in> set pas. page_ok ps pa" and "row_jobs (r, e, ps) = jobs ps pas"
proof -
  have le: "paddr (pr_end r) \<le> 2 ^ 46" and lt: "pr_start r < pr_end r" using assms by (simp_all add: row_ok_def)
  have "paddr (pr_end r) + unat (PageSize_size ps) < 2 ^ 64" using le page_size_bounds(2) [of ps] by simp
  then obtain pas where pas: "step_by_rounded r (PageSize_size ps) = Inr pas"
    using step_by_rounded_ok page_size_power by blast
  note mem = step_by_rounded_members [OF pas]
  have eq: "set pas = row_pages (r, e, ps)" by (auto simp: mem row_pages_def)
  let ?S = "unat (PageSize_size ps)" and ?x = "paddr (pr_start r) div unat (PageSize_size ps) * unat (PageSize_size ps)"
  have x: "?x \<le> paddr (pr_start r)" "paddr (pr_start r) < ?x + ?S"
    using dividend_less_div_times [of ?S "paddr (pr_start r)"] page_size_bounds(1) [of ps] by (simp_all add: add.commute)
  moreover obtain pa where "paddr pa = ?x" using paddr_surj [of ?x] x(1) paddr_bound [of "pr_start r"] by fastforce
  ultimately have "pa \<in> set pas" using lt le_less_trans [OF x(1)] by (simp add: mem paddr_less_iff)
  then have "pas \<noteq> []" by auto
  moreover have "row_jobs (r, e, ps) = jobs ps pas" by (simp add: row_jobs_def jobs_def eq)
  ultimately show thesis using that [OF pas eq] rounded_page_ok [OF pas le] by blast
qed

lemma row_jobs_ok:
  assumes "row_ok row" and "(va, ps) \<in> row_jobs row"
  obtains pa where "va = physaddr_as_virt pa" and "pa \<in> row_pages row" and "ps = snd (snd row)" and "page_ok ps pa"
    and "ix va Level0 \<noteq> 511"
proof -
  obtain r e qs where row: "row = (r, e, qs)" by (cases row)
  from assms(2) obtain pa where pa: "va = physaddr_as_virt pa" "pa \<in> row_pages row" "ps = snd (snd row)"
    by (auto simp: row_jobs_def)
  moreover have "page_ok ps pa" using row_pages_list [OF assms(1) [unfolded row]] pa row by (metis snd_conv)
  ultimately show thesis using that page_ok_virt(2) by blast
qed

lemma map_rows_ok:
  assumes "walks_tables mmu" and "vm_inv v s" and "\<forall>row \<in> set rows. row_ok row" and "sorted_wrt rows_apart rows"
    and "\<forall>row \<in> set rows. \<forall>(va, ps) \<in> row_jobs row. \<not> blocked (pmem v) s va ps"
    and "card (needs_all (\<Union> (row_jobs ` set rows)) - tabs (pmem v) s) \<le> card (free_addrs (page_alloc v))"
  shows "\<exists>v'. map_rows mmu v s rows = Some (Inr v') \<and> vm_inv v' s \<and> effect v v' s (\<Union> (row_jobs ` set rows)) \<and>
    (\<forall>row \<in> set rows. row_mapped v' s row)"
  using assms(2-)
proof (induction rows arbitrary: v)
  case Nil
  then show ?case by (intro exI [of _ v]) (simp add: effect_empty)
next
  case (Cons row rows)
  obtain r e ps where row: "row = (r, e, ps)" by (cases row)
  have ok: "row_ok (r, e, ps)" using Cons.prems(2) row by simp
  obtain pas where pas: "step_by_rounded r (PageSize_size ps) = Inr pas" "set pas = row_pages (r, e, ps)" "pas \<noteq> []"
      "\<forall>pa \<in> set pas. page_ok ps pa" "row_jobs row = jobs ps pas"
    using row_pages_list [OF ok] row by metis
  let ?K = "\<Union> (row_jobs ` set rows)"
  have finK: "finite ?K"
  proof (intro finite_UN_I)
    fix x
    assume "x \<in> set rows"
    then have "row_ok x" using Cons.prems(2) by simp
    then show "finite (row_jobs x)" by (cases x) (metis jobs_simps(3) row_pages_list)
  qed simp
  have ap: "apart j k" if "j \<in> jobs ps pas" "k \<in> ?K" for j k
    using that Cons.prems(3) pas(5) by (auto simp: rows_apart_def)
  have all: "\<Union> (row_jobs ` set (row # rows)) = jobs ps pas \<union> ?K" using pas(5) by simp
  have "card (needs_all (jobs ps pas) - tabs (pmem v) s) \<le> card (needs_all (jobs ps pas \<union> ?K) - tabs (pmem v) s)"
    by (intro card_mono finite_Diff finite_needs) (auto simp: needs_all_simps(1) finK)
  then have cnt: "card (needs_all (jobs ps pas) - tabs (pmem v) s) \<le> card (free_addrs (page_alloc v))"
    using Cons.prems(5) unfolding all by simp
  have "\<forall>pa \<in> set pas. \<not> blocked (pmem v) s (physaddr_as_virt pa) ps"
    using Cons.prems(4) pas(5) by (auto simp: jobs_def)
  then obtain v1 where v1: "map_phys_range mmu v s r e ps =
      ret_v v1 (physaddr_as_virt (hd pas), physaddr_as_virt (last pas) + PageSize_size ps)"
      "vm_inv v1 s" "effect v v1 s (jobs ps pas)" "mapped_all v1 s ps e pas"
    using map_phys_range_ok [OF assms(1) Cons.prems(1) _ _ pas(1,3) _ _ cnt] ok by (auto simp: row_ok_def)
  have ixk: "ix va Level0 \<noteq> 511" if k: "(va, qs) \<in> ?K" for va qs
  proof -
    obtain x where x: "x \<in> set rows" "(va, qs) \<in> row_jobs x" using k by blast
    then have "row_ok x" using Cons.prems(2) by simp
    then show ?thesis using x(2) by (rule row_jobs_ok)
  qed
  have "\<forall>x \<in> set rows. \<forall>(va, qs) \<in> row_jobs x. \<not> blocked (pmem v1) s va qs"
  proof (intro ballI, clarify)
    fix x va qs
    assume x: "x \<in> set rows" "(va, qs) \<in> row_jobs x" and b: "blocked (pmem v1) s va qs"
    then have k: "(va, qs) \<in> ?K" by blast
    have "\<not> blocked (pmem v) s va qs" using Cons.prems(4) x by fastforce
    then show False using effect_apart(2) [OF v1(3) ixk [OF k] apart_sym [OF ap [OF _ k]]] b by blast
  qed
  moreover have "card (needs_all ?K - tabs (pmem v1) s) \<le> card (free_addrs (page_alloc v1))"
    using missing_after [OF v1(3) ap _ finK] Cons.prems(5) unfolding all by simp
  ultimately obtain v' where v': "map_rows mmu v1 s rows = Some (Inr v')" "vm_inv v' s" "effect v1 v' s ?K"
      "\<forall>row \<in> set rows. row_mapped v' s row"
    using Cons.IH [OF v1(2)] Cons.prems(2,3) by auto
  have "walk (pmem v') s levels (physaddr_as_virt pa) = walk (pmem v1) s levels (physaddr_as_virt pa)" if "pa \<in> set pas" for pa
    using effect_apart(1) [OF v'(3) page_ok_virt(2), of ps pa ps] ap pas(4) that by (auto simp: jobs_def)
  then have "row_mapped v' s row" using v1(4) by (simp add: row_mapped_def row mapped_all_def pas(2))
  moreover have "effect v v' s (\<Union> (row_jobs ` set (row # rows)))"
    unfolding all by (rule effect_trans [OF v1(3) v'(3) _ finK ap]) simp_all
  moreover have "map_rows mmu v s (row # rows) = Some (Inr v')" using v1(1) v'(1) row by (simp add: ret_v_def)
  ultimately show ?case using v'(2,4) by (intro exI [of _ v']) simp
qed

section \<open>Rows apart in physical memory\<close>

text \<open>The bounds of a row, rounded to its page size.\<close>

definition row_lo :: "mapping_row \<Rightarrow> nat" where
  "row_lo = (\<lambda>(r, e, ps). paddr (pr_start r) div unat (PageSize_size ps) * unat (PageSize_size ps))"

definition row_hi :: "mapping_row \<Rightarrow> nat" where
  "row_hi = (\<lambda>(r, e, ps). (paddr (pr_end r) + unat (PageSize_size ps) - 1) div unat (PageSize_size ps) * unat (PageSize_size ps))"

lemma row_pages_bounds:
  assumes "pa \<in> row_pages row"
  shows "row_lo row \<le> paddr pa" and "paddr pa + unat (PageSize_size (snd (snd row))) \<le> row_hi row"
proof -
  obtain r e ps where row: "row = (r, e, ps)" by (cases row)
  let ?S = "unat (PageSize_size ps)"
  have S: "0 < ?S" by (rule page_size_bounds)
  from assms obtain k where k: "paddr pa = ?S * k" and lo: "paddr (pr_start r) < ?S * k + ?S" and hi: "?S * k < paddr (pr_end r)"
    by (auto simp: row_pages_def row paddr_less_iff elim!: dvdE)
  have "paddr (pr_start r) div ?S < k + 1" using lo by (intro less_mult_imp_div_less) (simp add: algebra_simps)
  then show "row_lo row \<le> paddr pa" by (simp add: row_lo_def row k mult.commute [of ?S])
  have "(k + 1) * ?S \<le> paddr (pr_end r) + ?S - 1" using hi S by (simp add: algebra_simps)
  then have "k + 1 \<le> (paddr (pr_end r) + ?S - 1) div ?S" using S by (simp only: less_eq_div_iff_mult_less_eq)
  then have "(k + 1) * ?S \<le> (paddr (pr_end r) + ?S - 1) div ?S * ?S" by (rule mult_le_mono1)
  then show "paddr pa + unat (PageSize_size (snd (snd row))) \<le> row_hi row"
    by (simp add: row_hi_def row k algebra_simps)
qed

lemma larger_apart:
  assumes "page_ok ps pa" and "page_ok qs pb" and "depth (dest_level ps) \<le> depth (dest_level qs)"
    and "paddr pa + unat (PageSize_size ps) \<le> paddr pb \<or> paddr pb < paddr pa"
  shows "apart (physaddr_as_virt pa, ps) (physaddr_as_virt pb, qs)"
proof (rule ccontr)
  let ?S = "unat (PageSize_size ps)"
  assume "\<not> apart (physaddr_as_virt pa, ps) (physaddr_as_virt pb, qs)"
  then have "path (physaddr_as_virt pa) (depth (dest_level ps) + 1) = path (physaddr_as_virt pb) (depth (dest_level ps) + 1)"
    using assms(3) by (simp add: apart_def min_absorb1)
  then have eq: "paddr pa div ?S = paddr pb div ?S" using path_virt_inj page_ok_virt(1) assms(1,2) by blast
  have S: "0 < ?S" by (rule page_size_bounds)
  obtain k where k: "paddr pa = k * ?S" using assms(1) by (metis dvd_div_mult_self page_ok_def)
  then have "paddr pb div ?S = k" using eq S by simp
  then have "k * ?S \<le> paddr pb" "paddr pb < k * ?S + ?S"
    using S div_times_less_eq_dividend [of "paddr pb" ?S] dividend_less_div_times [OF S, of "paddr pb"] by simp_all
  then show False using assms(4) k by simp
qed

lemma rows_apart_sym: "rows_apart a b \<Longrightarrow> rows_apart b a"
  using apart_sym by (auto simp: rows_apart_def)

lemma rows_apartI:
  assumes "row_ok a" and "row_ok b" and "row_hi a \<le> row_lo b"
  shows "rows_apart a b"
  unfolding rows_apart_def
proof (intro ballI)
  fix j k
  assume j: "j \<in> row_jobs a" and k: "k \<in> row_jobs b"
  obtain va ps where jv: "j = (va, ps)" by (cases j)
  obtain vb qs where kv: "k = (vb, qs)" by (cases k)
  obtain pa where pa: "va = physaddr_as_virt pa" "pa \<in> row_pages a" "ps = snd (snd a)" "page_ok ps pa"
    using row_jobs_ok [OF assms(1)] j jv by metis
  obtain pb where pb: "vb = physaddr_as_virt pb" "pb \<in> row_pages b" "qs = snd (snd b)" "page_ok qs pb"
    using row_jobs_ok [OF assms(2)] k kv by metis
  have le: "paddr pa + unat (PageSize_size ps) \<le> paddr pb"
    using row_pages_bounds(2) [OF pa(2)] row_pages_bounds(1) [OF pb(2)] assms(3) pa(3) by simp
  show "apart j k"
  proof (cases "depth (dest_level ps) \<le> depth (dest_level qs)")
    case True
    then show ?thesis using larger_apart [OF pa(4) pb(4) True] le by (simp add: jv kv pa(1) pb(1))
  next
    case False
    then have "apart k j"
      using larger_apart [OF pb(4) pa(4)] le page_size_bounds(1) [of ps] by (simp add: jv kv pa(1) pb(1))
    then show ?thesis by (rule apart_sym)
  qed
qed

text \<open>A symmetric relation between the elements of a list does not depend on their order.\<close>

lemma sorted_wrt_insort:
  assumes "\<And>x y. P x y \<Longrightarrow> P y x" and "sorted_wrt P xs" and "\<forall>y \<in> set xs. P x y"
  shows "sorted_wrt P (insort_key f x xs)"
  using assms(2,3)
proof (induction xs)
  case (Cons y ys)
  then have "P y x" using assms(1) by simp
  then show ?case using Cons by (simp add: set_insort_key)
qed simp

lemma sorted_wrt_sort_key:
  assumes "\<And>x y. P x y \<Longrightarrow> P y x" and "sorted_wrt P xs"
  shows "sorted_wrt P (sort_key f xs)"
  using assms(2)
proof (induction xs)
  case (Cons x xs)
  then have "sorted_wrt P (sort_key f xs)" "\<forall>y \<in> set (sort_key f xs). P x y" by simp_all
  then show ?case unfolding sort_key_simps by (rule sorted_wrt_insort [rotated 1]) (rule assms(1))
qed simp

section \<open>The kernel in memory\<close>

text \<open>The physical address of a linker symbol, and the layout that the linker script gives: the
  sections one behind the other, each ending on a page boundary, then the early page tables.\<close>

definition phys :: "usize \<Rightarrow> nat" where
  "phys x = unat x - unat KZERO"

definition kernel_layout :: "LinkerSymbols \<Rightarrow> bool" where
  "kernel_layout ld \<longleftrightarrow>
     KZERO < eboottext ld \<and> text_sym ld = eboottext ld \<and> text_sym ld \<le> etext ld \<and>
     rodata ld = etext ld \<and> rodata ld \<le> erodata ld \<and> data_sym ld = erodata ld \<and> data_sym ld \<le> edata ld \<and>
     rodata ld < edata ld \<and> bss ld = edata ld \<and> bss ld < ebss ld \<and> ebss ld \<le> early_pagetables ld \<and>
     early_pagetables ld < eearly_pagetables ld \<and>
     (\<forall>x \<in> {etext ld, edata ld, ebss ld, early_pagetables ld, eearly_pagetables ld}. 4096 dvd unat x)"

lemma phys_range_of_eq:
  assumes "KZERO \<le> s" and "KZERO \<le> e"
  obtains r where "phys_range_of s e = Inr r" and "paddr (pr_start r) = phys s" and "paddr (pr_end r) = phys e"
proof -
  have "from_virt_to_physaddr x = Inr (PhysAddr (x - KZERO))" "unat (x - KZERO) = phys x" if "KZERO \<le> x" for x
    using that by (simp_all add: from_virt_to_physaddr_def sub_c_def phys_def unat_sub)
  then show thesis using assms that by (simp add: phys_range_of_def PhysRange_new_def)
qed

lemma kernel_layoutD:
  assumes "kernel_layout ld"
  shows "KZERO \<le> etext ld" "0 < phys (etext ld)" "phys (etext ld) < phys (edata ld)" "phys (edata ld) < phys (ebss ld)"
    "phys (ebss ld) \<le> phys (early_pagetables ld)" "phys (early_pagetables ld) < phys (eearly_pagetables ld)"
    and "\<forall>x \<in> {etext ld, edata ld, ebss ld, early_pagetables ld, eearly_pagetables ld}. 4096 dvd phys x"
proof -
  note ord = assms [unfolded kernel_layout_def word_less_nat_alt word_le_nat_alt]
  have K: "4096 dvd unat KZERO" by (simp add: KZERO_def)
  show "KZERO \<le> etext ld" using ord by (auto simp: word_le_nat_alt)
  show "0 < phys (etext ld)" "phys (etext ld) < phys (edata ld)" "phys (edata ld) < phys (ebss ld)"
    "phys (ebss ld) \<le> phys (early_pagetables ld)" "phys (early_pagetables ld) < phys (eearly_pagetables ld)"
    using ord by (auto simp: phys_def)
  show "\<forall>x \<in> {etext ld, edata ld, ebss ld, early_pagetables ld, eearly_pagetables ld}. 4096 dvd phys x"
    using ord K unfolding phys_def by (blast intro: dvd_diff_nat)
qed

text \<open>The devices of a Raspberry Pi are above the first 512 MiB and below 4 GiB.\<close>

lemma rpi_mmio_range:
  assumes "rpi_mmio midr = Inr (Some mm)"
  shows "2 ^ 21 dvd paddr (pr_start mm)" and "paddr (pr_end mm) = paddr (pr_start mm) + 2 ^ 22"
    and "2 ^ 29 \<le> paddr (pr_start mm)" and "paddr (pr_end mm) \<le> 2 ^ 32"
proof -
  obtain p where p: "mmio p = Inr (Some mm)" using assms by (auto simp: rpi_mmio_def split: sum.splits)
  have len: "mul_c 2 PAGE_SIZE_2M = Inr 0x400000" by code_simp
  have "mm \<in> {PhysRange_with_end 0x20000000 0x20400000, PhysRange_with_end 0x3f000000 0x3f400000, PhysRange_with_end 0xfe000000 0xfe400000}"
    using p by (cases p) (auto simp: mmio_def len PhysRange_with_len_def PhysRange_with_end_def add_c_def)
  then show "2 ^ 21 dvd paddr (pr_start mm)" "paddr (pr_end mm) = paddr (pr_start mm) + 2 ^ 22"
    "2 ^ 29 \<le> paddr (pr_start mm)" "paddr (pr_end mm) \<le> 2 ^ 32"
    by (auto simp: PhysRange_with_end_def)
qed

lemma custom_map_rows:
  assumes ld: "kernel_layout ld" and mm: "rpi_mmio midr = Inr (Some mm)"
  obtains tx da bs where "custom_map ld midr dtb = Inr (sort_key (\<lambda>row. pr_start (fst row))
      [(dtb, ro_kernel_data, Page4K), (tx, ro_kernel_text, Page4K), (da, rw_kernel_data, Page4K),
       (bs, rw_kernel_data, Page4K), (mm, ro_kernel_device, Page2M)])"
    and "paddr (pr_start tx) = 0" and "paddr (pr_end tx) = phys (etext ld)"
    and "paddr (pr_start da) = phys (etext ld)" and "paddr (pr_end da) = phys (edata ld)"
    and "paddr (pr_start bs) = phys (edata ld)" and "paddr (pr_end bs) = phys (ebss ld)"
proof -
  note l = ld [unfolded kernel_layout_def]
  have K: "KZERO \<le> base_addr" "KZERO \<le> eboottext ld" "KZERO \<le> text_sym ld" "KZERO \<le> etext ld" "KZERO \<le> rodata ld"
      "KZERO \<le> erodata ld" "KZERO \<le> data_sym ld" "KZERO \<le> edata ld" "KZERO \<le> bss ld" "KZERO \<le> ebss ld"
    using l by (auto simp: base_addr_def KZERO_def)
  obtain bt where bt: "boottext_range ld = Inr bt" "paddr (pr_start bt) = phys base_addr" "paddr (pr_end bt) = phys (eboottext ld)"
    using phys_range_of_eq [OF K(1,2)] unfolding boottext_range_def by metis
  obtain tr where tr: "text_range ld = Inr tr" "paddr (pr_start tr) = phys (text_sym ld)" "paddr (pr_end tr) = phys (etext ld)"
    using phys_range_of_eq [OF K(3,4)] unfolding text_range_def by metis
  obtain ro where ro: "rodata_range ld = Inr ro" "paddr (pr_start ro) = phys (rodata ld)" "paddr (pr_end ro) = phys (erodata ld)"
    using phys_range_of_eq [OF K(5,6)] unfolding rodata_range_def by metis
  obtain dr where dr: "data_range ld = Inr dr" "paddr (pr_start dr) = phys (data_sym ld)" "paddr (pr_end dr) = phys (edata ld)"
    using phys_range_of_eq [OF K(7,8)] unfolding data_range_def by metis
  obtain bs where bs: "bss_range ld = Inr bs" "paddr (pr_start bs) = phys (bss ld)" "paddr (pr_end bs) = phys (ebss ld)"
    using phys_range_of_eq [OF K(9,10)] unfolding bss_range_def by metis
  have mono: "phys x \<le> phys y" if "x \<le> y" for x y using that by (simp add: phys_def word_le_nat_alt diff_le_mono)
  have "phys (eboottext ld) \<le> phys (etext ld)" "phys (etext ld) \<le> phys (erodata ld)" "phys (erodata ld) \<le> phys (edata ld)"
    using l by (auto intro!: mono)
  note ends = this
  have b0: "phys base_addr = 0" by (simp add: phys_def base_addr_def KZERO_def)
  have sum: "paddr (pr_start (PhysRange_add a b)) = min (paddr (pr_start a)) (paddr (pr_start b))"
      "paddr (pr_end (PhysRange_add a b)) = max (paddr (pr_end a)) (paddr (pr_end b))" for a b
    by (simp_all add: PhysRange_add_def min_def max_def paddr_le_iff)
  show thesis
  proof (rule that [of "PhysRange_add bt tr" "PhysRange_add ro dr" bs])
    show "custom_map ld midr dtb = Inr (sort_key (\<lambda>row. pr_start (fst row))
        [(dtb, ro_kernel_data, Page4K), (PhysRange_add bt tr, ro_kernel_text, Page4K),
         (PhysRange_add ro dr, rw_kernel_data, Page4K), (bs, rw_kernel_data, Page4K), (mm, ro_kernel_device, Page2M)])"
      by (simp add: custom_map_def bt(1) tr(1) ro(1) dr(1) bs(1) mm unwrap_r_def)
  qed (use bt tr ro dr bs b0 l ends in \<open>simp_all add: sum max_absorb2 min_absorb1\<close>)
qed

end
