(* ===== verification/Vm_Init_Correct.thy ===== *)
theory Vm_Init_Correct
  imports Vm_Init
begin

text \<open>
  What \<open>init\<close> of \<^verbatim>\<open>aarch64/src/vm.rs\<close> leaves behind: the kernel, the devicetree and the devices are
  mapped, nothing else is, and the page allocator has everything else as free, the page tables
  included.
\<close>

section \<open>The memory map of a kernel\<close>

text \<open>The devicetree, rounded to pages, is neither in the kernel with its early page tables nor
  among the devices.\<close>

definition dtb_clear :: "LinkerSymbols \<Rightarrow> PhysRange \<Rightarrow> PhysRange \<Rightarrow> bool" where
  "dtb_clear ld mm dtb \<longleftrightarrow>
     (let lo = paddr (pr_start dtb) div 4096 * 4096; hi = (paddr (pr_end dtb) + 4095) div 4096 * 4096
      in pr_start dtb < pr_end dtb \<and> paddr (pr_end dtb) \<le> 2 ^ 32 \<and>
         phys (ebss ld) \<le> lo \<and> (hi \<le> phys (early_pagetables ld) \<or> phys (eearly_pagetables ld) \<le> lo) \<and>
         (hi \<le> paddr (pr_start mm) \<or> paddr (pr_end mm) \<le> lo))"

text \<open>The tables needed at most: one of level 1, four of level 2, and one of level 3 for every
  2 MiB that the kernel or the devicetree touches.\<close>

definition kernel_tables :: "LinkerSymbols \<Rightarrow> PhysRange \<Rightarrow> nat" where
  "kernel_tables ld dtb = 5 + (phys (ebss ld) + 2 ^ 21 - 1) div 2 ^ 21 +
     ((paddr (pr_end dtb) - 1) div 2 ^ 21 - paddr (pr_start dtb) div 2 ^ 21 + 1)"

lemma kernel_entry_valid:
  "e_valid ro_kernel_data" "e_valid rw_kernel_data" "e_valid ro_kernel_text" "e_valid ro_kernel_device"
  "\<not> e_page_or_table ro_kernel_device"
  by code_simp+

text \<open>The rows of the memory map: each can be mapped, none lies in another, and none among the
  early page tables.\<close>

lemma kernel_rows:
  assumes ld: "kernel_layout ld" and mm: "rpi_mmio midr = Inr (Some mm)" and dtb: "dtb_clear ld mm dtb"
    and early: "phys (eearly_pagetables ld) \<le> paddr (pr_start mm)"
  obtains rows where "custom_map ld midr dtb = Inr rows" and "\<forall>row \<in> set rows. row_ok row"
    and "sorted_wrt rows_apart rows" and "sorted_wrt (\<lambda>a b. pr_start a \<le> pr_start b) (map fst rows)"
    and "\<forall>row \<in> set rows. row_hi row \<le> 2 ^ 32 \<and>
      (row_hi row \<le> phys (early_pagetables ld) \<or> phys (eearly_pagetables ld) \<le> row_lo row) \<and>
      (snd (snd row) = Page4K \<longrightarrow> row_hi row \<le> phys (ebss ld) \<or> fst row = dtb)" and "rows \<noteq> []"
proof -
  obtain tx da bs where cm: "custom_map ld midr dtb = Inr (sort_key (\<lambda>row. pr_start (fst row))
      [(dtb, ro_kernel_data, Page4K), (tx, ro_kernel_text, Page4K), (da, rw_kernel_data, Page4K),
       (bs, rw_kernel_data, Page4K), (mm, ro_kernel_device, Page2M)])"
    and tx: "paddr (pr_start tx) = 0" "paddr (pr_end tx) = phys (etext ld)"
    and da: "paddr (pr_start da) = phys (etext ld)" "paddr (pr_end da) = phys (edata ld)"
    and bs: "paddr (pr_start bs) = phys (edata ld)" "paddr (pr_end bs) = phys (ebss ld)"
    by (rule custom_map_rows [OF ld mm])
  let ?d = "(dtb, ro_kernel_data, Page4K)" and ?t = "(tx, ro_kernel_text, Page4K)" and ?a = "(da, rw_kernel_data, Page4K)"
    and ?b = "(bs, rw_kernel_data, Page4K)" and ?m = "(mm, ro_kernel_device, Page2M)"
  let ?rows = "[?d, ?t, ?a, ?b, ?m]"
  note L = kernel_layoutD [OF ld] and M = rpi_mmio_range [OF mm] and D = dtb [unfolded dtb_clear_def Let_def]
  have up: "(4095 + x) div 4096 * 4096 = x" if "4096 dvd x" for x :: nat
    using that by (auto elim!: dvdE)
  have lo: "row_lo ?t = 0" "row_lo ?a = phys (etext ld)" "row_lo ?b = phys (edata ld)" "row_lo ?m = paddr (pr_start mm)"
      "row_lo ?d = paddr (pr_start dtb) div 4096 * 4096"
    using L(7) M(1) by (simp_all add: row_lo_def tx da bs)
  have hi: "row_hi ?t = phys (etext ld)" "row_hi ?a = phys (edata ld)" "row_hi ?b = phys (ebss ld)"
      "row_hi ?d = (paddr (pr_end dtb) + 4095) div 4096 * 4096"
    using L(7) up by (simp_all add: row_hi_def tx da bs)
  have "paddr (pr_end mm) + 2097151 = paddr (pr_start mm) + 2097151 + 2 ^ 21 * 2" using M(2) by simp
  then have him: "row_hi ?m = paddr (pr_end mm)" using M(1,2) by (auto simp: row_hi_def elim!: dvdE)
  have dlt: "paddr (pr_start dtb) < paddr (pr_end dtb)" "paddr (pr_end dtb) \<le> 2 ^ 32"
    using D by (simp_all add: paddr_less_iff)
  have ok: "\<forall>row \<in> set ?rows. row_ok row"
    using L M dlt early kernel_entry_valid by (auto simp: row_ok_def paddr_less_iff tx da bs)
  have "(paddr (pr_end dtb) + 4095) div 4096 < 2 ^ 20 + 1" using dlt(2) by (intro less_mult_imp_div_less) simp
  then have hd: "row_hi ?d \<le> 2 ^ 32" by (simp add: hi)
  have sep: "sorted_wrt rows_apart ?rows"
  proof -
    have r: "row_hi ?t \<le> row_lo ?a" "row_hi ?t \<le> row_lo ?b" "row_hi ?a \<le> row_lo ?b" "row_hi ?t \<le> row_lo ?m"
        "row_hi ?a \<le> row_lo ?m" "row_hi ?b \<le> row_lo ?m" "row_hi ?t \<le> row_lo ?d" "row_hi ?a \<le> row_lo ?d" "row_hi ?b \<le> row_lo ?d"
        "row_hi ?d \<le> row_lo ?m \<or> row_hi ?m \<le> row_lo ?d"
      using L early D by (simp_all add: lo hi him)
    have "rows_apart x y" if "x \<in> set ?rows" "y \<in> set ?rows" "row_hi x \<le> row_lo y \<or> row_hi y \<le> row_lo x" for x y
      using that ok rows_apartI rows_apart_sym by blast
    then show ?thesis using r by simp
  qed
  have "sorted_wrt (\<lambda>a b. pr_start a \<le> pr_start b) (map fst (sort_key (\<lambda>row. pr_start (fst row)) ?rows))"
    using sorted_sort_key [of "\<lambda>row. pr_start (fst row)" ?rows] by (simp add: sorted_wrt_map sorted_map)
  moreover have "sorted_wrt rows_apart (sort_key (\<lambda>row. pr_start (fst row)) ?rows)"
    using rows_apart_sym sep by (rule sorted_wrt_sort_key)
  moreover have "\<forall>row \<in> set ?rows. row_hi row \<le> 2 ^ 32 \<and>
      (row_hi row \<le> phys (early_pagetables ld) \<or> phys (eearly_pagetables ld) \<le> row_lo row) \<and>
      (snd (snd row) = Page4K \<longrightarrow> row_hi row \<le> phys (ebss ld) \<or> fst row = dtb)"
    using L M early D hd by (auto simp: lo hi him)
  ultimately show thesis using that [OF cm] ok by (simp only: set_sort) (simp add: sort_key_simps)
qed

section \<open>How many tables the memory map needs\<close>

definition region :: "nat \<Rightarrow> nat list" where
  "region n = [256, n div 512, n mod 512]"

lemma needs_virt:
  assumes "paddr pa < 2 ^ 32"
  shows "needs (physaddr_as_virt pa) ps \<subseteq>
    insert [256] ((\<lambda>i. [256, i]) ` {..<4}) \<union> (if ps = Page4K then {region (paddr pa div 2 ^ 21)} else {})"
proof -
  have p: "paddr pa < 2 ^ 47" using assms by simp
  have q: "paddr pa div 2 ^ 39 = 0" "paddr pa div 2 ^ 30 < 4" using assms by (simp_all add: less_mult_imp_div_less)
  then have i: "ix (physaddr_as_virt pa) Level0 = 256" "ix (physaddr_as_virt pa) Level1 = paddr pa div 2 ^ 30"
      "ix (physaddr_as_virt pa) Level2 = paddr pa div 2 ^ 21 mod 512"
    using ix_virt [OF p] by simp_all
  have r: "region (paddr pa div 2 ^ 21) = [256, paddr pa div 2 ^ 30, paddr pa div 2 ^ 21 mod 512]"
    by (simp add: region_def div_mult2_eq [symmetric])
  have "{1..depth (dest_level ps)} = (case ps of Page4K \<Rightarrow> {1, 2, 3} | Page2M \<Rightarrow> {1, 2} | Page1G \<Rightarrow> {1})"
    by (cases ps) auto
  then show ?thesis
    unfolding needs_def r using q(2) by (cases ps) (simp_all add: path_simps [unfolded One_nat_def] i)
qed

lemma dtb_regions:
  assumes "4096 dvd pa" and "s < pa + 4096" and "pa < (e :: nat)"
  shows "s div 2 ^ 21 \<le> pa div 2 ^ 21" and "pa div 2 ^ 21 \<le> (e - 1) div 2 ^ 21"
proof -
  let ?n = "pa div 2 ^ 21"
  obtain k where k: "pa = 4096 * k" using assms(1) by blast
  have "pa < (?n + 1) * 2 ^ 21" using dividend_less_div_times [of "2 ^ 21" pa] by simp
  then have "4096 * k < 4096 * ((?n + 1) * 512)" by (simp add: k)
  then have "k + 1 \<le> (?n + 1) * 512" by simp
  then have "s < (?n + 1) * 2 ^ 21" using assms(2) k by simp
  then have "s div 2 ^ 21 < ?n + 1" by (rule less_mult_imp_div_less)
  then show "s div 2 ^ 21 \<le> ?n" by simp
  show "?n \<le> (e - 1) div 2 ^ 21" using assms(3) by (intro div_le_mono) simp
qed

lemma kernel_needs:
  assumes ok: "\<forall>row \<in> set rows. row_ok row"
    and rows: "\<forall>row \<in> set rows. row_hi row \<le> 2 ^ 32 \<and> (snd (snd row) = Page4K \<longrightarrow> row_hi row \<le> phys (ebss ld) \<or> fst row = dtb)"
  shows "card (needs_all (\<Union> (row_jobs ` set rows)) - T) \<le> kernel_tables ld dtb"
proof -
  let ?K = "(phys (ebss ld) + 2 ^ 21 - 1) div 2 ^ 21" and ?lo = "paddr (pr_start dtb) div 2 ^ 21" and ?hi = "(paddr (pr_end dtb) - 1) div 2 ^ 21"
  let ?A = "insert [256] ((\<lambda>i. [256, i]) ` {..<4 :: nat})" and ?B = "region ` ({..<?K} \<union> {?lo..?hi})"
  have "needs va ps \<subseteq> ?A \<union> ?B" if row: "row \<in> set rows" and j: "(va, ps) \<in> row_jobs row" for row va ps
  proof -
    have "row_ok row" using ok row by blast
    from this j obtain pa where pa: "va = physaddr_as_virt pa" "pa \<in> row_pages row" "ps = snd (snd row)"
      by (rule row_jobs_ok)
    note b = row_pages_bounds [OF pa(2)]
    have lt: "paddr pa < row_hi row" using b(2) page_size_bounds(1) [of ps] pa(3) by simp
    have "region (paddr pa div 2 ^ 21) \<in> ?B" if "ps = Page4K"
    proof (cases "fst row = dtb")
      case True
      then have "4096 dvd paddr pa" "paddr (pr_start dtb) < paddr pa + 4096" "paddr pa < paddr (pr_end dtb)"
        using pa(2,3) that by (cases row; auto simp: row_pages_def paddr_less_iff)+
      from dtb_regions [OF this] show ?thesis by simp
    next
      case False
      then have "paddr pa < phys (ebss ld)" using rows row lt pa(3) that by fastforce
      also have "phys (ebss ld) \<le> ?K * 2 ^ 21"
        using dividend_less_div_times [of "2 ^ 21" "phys (ebss ld) + 2 ^ 21 - 1"] by simp
      finally have "paddr pa div 2 ^ 21 < ?K" by (rule less_mult_imp_div_less)
      then show ?thesis by simp
    qed
    moreover have "paddr pa < 2 ^ 32" using lt rows row by fastforce
    ultimately show ?thesis using needs_virt [of pa ps] pa(1) by (auto split: if_splits)
  qed
  then have sub: "needs_all (\<Union> (row_jobs ` set rows)) - T \<subseteq> ?A \<union> ?B" unfolding needs_all_def by fast
  have "card ?A \<le> 5" using card_image_le [of "{..<4 :: nat}" "\<lambda>i. [256, i]"] by (simp add: card_insert_if)
  moreover have "card ?B \<le> ?K + (?hi - ?lo + 1)"
  proof -
    have "card ?B \<le> card ({..<?K} \<union> {?lo..?hi})" by (rule card_image_le) simp
    also have "\<dots> \<le> card {..<?K} + card {?lo..?hi}" by (rule card_Un_le)
    finally show ?thesis unfolding card_lessThan card_atLeastAtMost by linarith
  qed
  moreover have "card (?A \<union> ?B) \<le> card ?A + card ?B" by (rule card_Un_le)
  moreover have "card (needs_all (\<Union> (row_jobs ` set rows)) - T) \<le> card (?A \<union> ?B)" by (rule card_mono [OF _ sub]) simp
  ultimately show ?thesis unfolding kernel_tables_def by linarith
qed

section \<open>Running the initialization\<close>

text \<open>The state in which \<open>init\<close> is called: the page allocator as it is built, an empty page table
  in the BSS, the page table in use outside the early pages, available memory that holds the
  kernel, and enough early pages for the tables.\<close>

definition boot_ok :: "LinkerSymbols \<Rightarrow> PhysRange \<Rightarrow> Vm \<Rightarrow> PhysAddr \<Rightarrow> PhysRange \<Rightarrow> PhysRange \<Rightarrow> bool" where
  "boot_ok ld mm v t dtb avail \<longleftrightarrow>
     kernel_layout ld \<and> phys (eearly_pagetables ld) \<le> paddr (pr_start mm) \<and> dtb_clear ld mm dtb \<and>
     kernel_tables ld dtb * 4096 \<le> phys (eearly_pagetables ld) - phys (early_pagetables ld) \<and>
     PAGE_ALLOC = Inr (page_alloc v) \<and> pmem v t = PageTable_empty \<and> 4096 dvd paddr t \<and>
     phys (bss ld) \<le> paddr t \<and> paddr t < phys (ebss ld) \<and> 4096 dvd paddr (kernel_root v) \<and> kernel_root v \<noteq> t \<and>
     (paddr (kernel_root v) < phys (early_pagetables ld) \<or> phys (eearly_pagetables ld) \<le> paddr (kernel_root v)) \<and>
     paddr (pr_start avail) \<le> phys (early_pagetables ld) \<and> phys (eearly_pagetables ld) \<le> paddr (pr_end avail) \<and>
     paddr (pr_end avail) \<le> 2 ^ 32"

lemma aligned_less: "4096 dvd a \<Longrightarrow> 4096 dvd b \<Longrightarrow> a < b \<Longrightarrow> a + 4096 \<le> b" for a b :: nat
  by (auto elim!: dvdE)

text \<open>The early pages are free at first, and there are as many as the early tables have room for.\<close>

lemma boot_early:
  assumes b: "boot_ok ld mm v t dtb avail" and mm: "rpi_mmio midr = Inr (Some mm)"
  obtains a where "init_page_allocator ld (page_alloc v) = Inr a" and "geometry a = (4096, 2 ^ 20, PhysAddr 0x100000000)"
    and "\<And>q. q \<in> free_addrs a \<longleftrightarrow> 4096 dvd paddr q \<and> phys (early_pagetables ld) \<le> paddr q \<and> paddr q < phys (eearly_pagetables ld)"
    and "kernel_tables ld dtb \<le> card (free_addrs a)"
    and "vm_inv (write_entry t 511 (table_entry t) (v\<lparr>page_alloc := a\<rparr>)) t"
    and "tables (pmem (write_entry t 511 (table_entry t) (v\<lparr>page_alloc := a\<rparr>))) t = {t}"
proof -
  note B = b [unfolded boot_ok_def]
  have ld: "kernel_layout ld" using B by blast
  note L = kernel_layoutD [OF ld] and M = rpi_mmio_range [OF mm]
  have "KZERO \<le> early_pagetables ld" "KZERO \<le> eearly_pagetables ld" using ld by (auto simp: kernel_layout_def)
  then obtain r where r: "early_pages_range ld = Inr r" "paddr (pr_start r) = phys (early_pagetables ld)"
      "paddr (pr_end r) = phys (eearly_pagetables ld)"
    using phys_range_of_eq unfolding early_pages_range_def by metis
  let ?E = "phys (early_pagetables ld)" and ?F = "phys (eearly_pagetables ld)"
  have al: "4096 dvd ?E" "4096 dvd ?F" "4096 dvd phys (ebss ld)" using L(7) by blast+
  have F: "?F \<le> 2 ^ 32" using B M by simp
  have t: "paddr t + 4096 \<le> ?E" using aligned_less [of "paddr t" "phys (ebss ld)"] al B L(5) by simp
  have root: "paddr (kernel_root v) + 4096 \<le> ?E \<or> ?F \<le> paddr (kernel_root v)"
    using B aligned_less [of "paddr (kernel_root v)" ?E] al by auto
  have "paddr t < 2 ^ 48" using t L(6) F by simp
  then obtain a where a: "init_page_allocator ld (page_alloc v) = Inr a" "geometry a = (4096, 2 ^ 20, PhysAddr 0x100000000)"
      and fr: "\<And>q. q \<in> free_addrs a \<longleftrightarrow> 4096 dvd paddr q \<and> paddr q < 2 ^ 32 \<and> ?E < paddr q + 4096 \<and> paddr q < ?F"
      and inv: "vm_inv (write_entry t 511 (table_entry t) (v\<lparr>page_alloc := a\<rparr>)) t"
        "tables (pmem (write_entry t 511 (table_entry t) (v\<lparr>page_alloc := a\<rparr>))) t = {t}"
    using boot_page_table [of "page_alloc v" ld r v t] r al F B t root by (auto simp: r(2,3))
  have free: "q \<in> free_addrs a \<longleftrightarrow> 4096 dvd paddr q \<and> ?E \<le> paddr q \<and> paddr q < ?F" for q
    using fr [of q] F aligned_less [of "paddr q" ?E] al(1) by (cases "paddr q < ?E") auto
  have "kernel_tables ld dtb \<le> card (free_addrs a)"
  proof -
    let ?f = "\<lambda>k. PhysAddr (word_of_nat (?E + k * 4096))"
    have lt: "?E + k * 4096 < ?F" if "k < kernel_tables ld dtb" for k
    proof -
      have "kernel_tables ld dtb * 4096 \<le> ?F - ?E" using B by blast
      then show ?thesis using that by linarith
    qed
    have u: "paddr (?f k) = ?E + k * 4096" if "k < kernel_tables ld dtb" for k
    proof -
      have "?E + k * 4096 < 2 ^ 64" using lt [OF that] F by simp
      then show ?thesis using unat_word_of_nat_small [of "?E + k * 4096", where 'a = 64] by simp
    qed
    have "?f ` {..<kernel_tables ld dtb} \<subseteq> free_addrs a" using u al lt by (auto simp: free)
    moreover have "inj_on ?f {..<kernel_tables ld dtb}" by (rule inj_onI) (metis add_left_cancel lessThan_iff mult_cancel2 u zero_neq_numeral)
    ultimately show ?thesis using card_mono [of "free_addrs a" "?f ` {..<kernel_tables ld dtb}"]
      by (simp add: card_image free_addrs_def)
  qed
  then show thesis using that a free inv by blast
qed

text \<open>All of \<open>init\<close>: \<open>w\<close> is the state after the rows are mapped, \<open>v'\<close> the one after the unused
  ranges are freed.\<close>

definition booted :: "LinkerSymbols \<Rightarrow> PhysRange \<Rightarrow> Vm \<Rightarrow> PhysAddr \<Rightarrow> mapping_row list \<Rightarrow> Vm \<Rightarrow> bool" where
  "booted ld avail v t rows v' \<longleftrightarrow>
     ttbr1 v' = ttbr1 v \<and> pmem v' (kernel_root v) 511 = pmem v (kernel_root v) 511 \<and>
     (\<forall>row \<in> set rows. row_mapped v' t row) \<and>
     (\<forall>va. ix va Level0 \<noteq> 511 \<longrightarrow> (\<forall>row \<in> set rows. \<forall>(vb, ps) \<in> row_jobs row. slot va ps \<noteq> slot vb ps) \<longrightarrow>
        walk (pmem v') t levels va = None) \<and>
     t \<in> tables (pmem v') t \<and> tables (pmem v') t \<noteq> {t} \<and>
     (\<forall>p \<in> tables (pmem v') t - {t}. 4096 dvd paddr p \<and> phys (early_pagetables ld) \<le> paddr p \<and> paddr p < phys (eearly_pagetables ld)) \<and>
     tree_ok (pmem v') t \<and> pa_inv (page_alloc v') \<and> PS (page_alloc v') = 4096 \<and> end_pa (page_alloc v') = pr_end avail \<and>
     (\<forall>q. q \<in> free_addrs (page_alloc v') \<longleftrightarrow> 4096 dvd paddr q \<and> paddr q + 4096 \<le> paddr (pr_end avail) \<and>
        (\<exists>b. b div 4096 = paddr q div 4096 \<and> paddr (pr_start avail) \<le> b \<and> (\<forall>row \<in> set rows. \<not> in_range (fst row) b)))"

lemma booted_unmapped:
  assumes "booted ld avail v t rows v'" and "ix va Level0 \<noteq> 511"
    and "\<And>row vb ps. row \<in> set rows \<Longrightarrow> (vb, ps) \<in> row_jobs row \<Longrightarrow> slot va ps \<noteq> slot vb ps"
  shows "walk (pmem v') t levels va = None"
proof -
  have "\<forall>row \<in> set rows. \<forall>(vb, ps) \<in> row_jobs row. slot va ps \<noteq> slot vb ps" using assms(3) by blast
  then show ?thesis using assms(1,2) unfolding booted_def by blast
qed

text \<open>A byte in no row shows a page free that overlaps no row.\<close>

lemma row_in_range:
  assumes "in_range (fst row) b"
  shows "row_lo row \<le> b" and "b < row_hi row"
proof -
  obtain r e ps where row: "row = (r, e, ps)" by (cases row)
  let ?S = "unat (PageSize_size ps)"
  have S: "0 < ?S" by (rule page_size_bounds)
  have b: "paddr (pr_start r) \<le> b" "b < paddr (pr_end r)" using assms by (simp_all add: in_range_def row)
  have "row_lo row \<le> paddr (pr_start r)" by (simp add: row_lo_def row)
  then show "row_lo row \<le> b" using b(1) by simp
  have "paddr (pr_end r) + ?S - 1 < row_hi row + ?S"
    using dividend_less_div_times [OF S, of "paddr (pr_end r) + ?S - 1"] by (simp add: row_hi_def row)
  then show "b < row_hi row" using b(2) by simp
qed

lemma free_after:
  assumes inv: "pa_inv a" and geo: "geometry a = (4096, 2 ^ 20, PhysAddr 0x100000000)"
    and early: "\<And>q. q \<in> free_addrs a \<Longrightarrow> E \<le> paddr q \<and> paddr q < F"
    and rows: "\<forall>row \<in> set rows. row_hi row \<le> E \<or> F \<le> row_lo row" "\<forall>row \<in> set rows. row_hi row \<le> 2 ^ 32"
    and srt: "sorted_wrt (\<lambda>a b. pr_start a \<le> pr_start b) (map fst rows)" and ok: "\<forall>row \<in> set rows. row_ok row"
    and av: "paddr (pr_start avail) \<le> E" "F \<le> paddr (pr_end avail)" "paddr (pr_end avail) \<le> 2 ^ 32"
  obtains a' where "free_unused_ranges a avail (map fst rows) = Inr (a', Inr ())" and "pa_inv a'"
    and "PS a' = 4096" and "end_pa a' = pr_end avail"
    and "\<And>q. q \<in> free_addrs a' \<longleftrightarrow> 4096 dvd paddr q \<and> paddr q + 4096 \<le> paddr (pr_end avail) \<and>
      (\<exists>b. b div 4096 = paddr q div 4096 \<and> paddr (pr_start avail) \<le> b \<and> (\<forall>row \<in> set rows. \<not> in_range (fst row) b))"
proof -
  have P: "PS a = 4096" and n: "npages a = 2 ^ 20" and e: "paddr (end_pa a) = 2 ^ 32"
    using geo by (simp_all add: geometry_def)
  have sh: "shape a" using inv by (simp add: pa_inv_def)
  have "\<forall>r \<in> set (map fst rows). pr_start r \<le> end_pa a"
  proof
    fix r
    assume "r \<in> set (map fst rows)"
    then obtain row where row: "row \<in> set rows" "r = fst row" by auto
    then have "in_range r (paddr (pr_start r))" using ok by (cases row) (auto simp: row_ok_def in_range_def paddr_less_iff)
    then have "paddr (pr_start r) < row_hi row" using row_in_range(2) row(2) by blast
    then show "pr_start r \<le> end_pa a" using rows(2) row(1) by (fastforce simp: paddr_le_iff e)
  qed
  moreover have "pr_end avail \<le> end_pa a" using av(3) by (simp add: paddr_le_iff e)
  ultimately obtain a' where a': "free_unused_ranges a avail (map fst rows) = Inr (a', Inr ())"
      "pa_inv a'" "PS a' = 4096" "end_pa a' = pr_end avail" and f: "free_pages a' = {p. p < 2 ^ 20 \<and> (p + 1) * 4096 \<le> paddr (pr_end avail) \<and>
      (p \<in> free_pages a \<or> (\<exists>b. b div 4096 = p \<and> paddr (pr_start avail) \<le> b \<and> (\<forall>r \<in> set (map fst rows). \<not> in_range r b)))}"
    using free_unused_ranges_free [OF inv _ srt, of avail] unfolding P n by blast
  have sh': "shape a'" using a'(2) by (simp add: pa_inv_def)
  have "q \<in> free_addrs a' \<longleftrightarrow> 4096 dvd paddr q \<and> paddr q + 4096 \<le> paddr (pr_end avail) \<and>
      (\<exists>b. b div 4096 = paddr q div 4096 \<and> paddr (pr_start avail) \<le> b \<and> (\<forall>row \<in> set rows. \<not> in_range (fst row) b))" (is "_ \<longleftrightarrow> _ \<and> _ \<and> ?byte") for q
  proof
    assume "q \<in> free_addrs a'"
    then obtain p where p: "p \<in> free_pages a'" "paddr q = p * 4096" using free_addrs_iff [OF sh'] a'(3) by auto
    have ?byte
    proof (cases "p \<in> free_pages a")
      case True
      then have "q \<in> free_addrs a" using p(2) by (auto simp: free_addrs_iff [OF sh] P)
      then have E: "E \<le> paddr q" "paddr q < F" using early by blast+
      then have "\<not> in_range (fst row) (paddr q)" if "row \<in> set rows" for row
        using row_in_range [of row "paddr q"] rows(1) that by fastforce
      then show ?thesis using E av(1) by (intro exI [of _ "paddr q"]) auto
    next
      case False
      then show ?thesis using p by (auto simp: f)
    qed
    then show "4096 dvd paddr q \<and> paddr q + 4096 \<le> paddr (pr_end avail) \<and> ?byte" using p f by auto
  next
    assume q: "4096 dvd paddr q \<and> paddr q + 4096 \<le> paddr (pr_end avail) \<and> ?byte"
    then obtain p where p: "paddr q = p * 4096" by (metis dvd_div_mult_self)
    then have "p \<in> free_pages a'" using q av(3) by (auto simp: f)
    then show "q \<in> free_addrs a'" using p a'(3) by (auto simp: free_addrs_iff [OF sh'])
  qed
  then show thesis using that a' by blast
qed

text \<open>Mapping rows into an empty table maps them and nothing else, and hangs tables below it.\<close>

lemma empty_map_rows:
  assumes mmu: "walks_tables mmu" and inv: "vm_inv w t" "tables (pmem w) t = {t}"
    and e: "m t = PageTable_empty" "pmem w = set_cell m t 511 x"
    and rows: "\<forall>row \<in> set rows. row_ok row" "sorted_wrt rows_apart rows" "rows \<noteq> []"
    and cnt: "card (needs_all (\<Union> (row_jobs ` set rows)) - tabs (pmem w) t) \<le> card (free_addrs (page_alloc w))"
  obtains w' where "map_rows mmu w t rows = Some (Inr w')" and "vm_inv w' t"
    and "effect w w' t (\<Union> (row_jobs ` set rows))" and "\<forall>row \<in> set rows. row_mapped w' t row"
    and "\<And>va. ix va Level0 \<noteq> 511 \<Longrightarrow> \<forall>row \<in> set rows. \<forall>(vb, ps) \<in> row_jobs row. slot va ps \<noteq> slot vb ps \<Longrightarrow>
      walk (pmem w') t levels va = None"
    and "tables (pmem w') t \<noteq> {t}" and "tables (pmem w') t \<subseteq> insert t (free_addrs (page_alloc w))"
proof -
  let ?J = "\<Union> (row_jobs ` set rows)"
  have "ix va Level0 \<noteq> 511" if "row \<in> set rows" "(va, ps) \<in> row_jobs row" for row va ps
    using that rows(1) row_jobs_ok by metis
  then have "\<forall>row \<in> set rows. \<forall>(va, ps) \<in> row_jobs row. \<not> blocked (pmem w) t va ps"
    using empty_walk(2) [of m t, OF e(1)] by (fastforce simp: e(2))
  then obtain w' where w': "map_rows mmu w t rows = Some (Inr w')" "vm_inv w' t" "effect w w' t ?J"
      "\<forall>row \<in> set rows. row_mapped w' t row"
    using map_rows_ok [OF mmu inv(1) rows(1,2) _ cnt] by blast
  note D = effectD [OF w'(3)]
  have walks: "walk (pmem w') t levels va = None"
    if "ix va Level0 \<noteq> 511" "\<forall>row \<in> set rows. \<forall>(vb, ps) \<in> row_jobs row. slot va ps \<noteq> slot vb ps" for va
  proof -
    have "walk (pmem w') t levels va = walk (pmem w) t levels va" by (rule D(1) [OF that(1)]) (use that(2) in fastforce)
    then show ?thesis using empty_walk(1) [of m t, OF e(1) that(1)] by (simp add: e(2))
  qed
  have "tables (pmem w') t \<noteq> {t}"
  proof -
    obtain row where row: "row \<in> set rows" using rows(3) by (meson list.set_sel(1))
    obtain r qe ps where rw: "row = (r, qe, ps)" by (cases row)
    obtain pas where "pas \<noteq> []" "row_jobs row = jobs ps pas"
      using row_pages_list [of r qe ps] rows(1) row rw by metis
    then obtain pa where j: "(physaddr_as_virt pa, ps) \<in> ?J" using row by (cases pas) auto
    have "path (physaddr_as_virt pa) 1 \<in> needs_all ?J"
      using needs_all_simps(2) [OF j] by (cases ps) (auto simp: needs_def)
    then have "path (physaddr_as_virt pa) 1 \<in> tabs (pmem w') t" using D(4) by blast
    then obtain p where p: "kpath (path (physaddr_as_virt pa) 1)" "pt (pmem w') t (path (physaddr_as_virt pa) 1) = Some p"
      by (auto simp: tabs_def)
    moreover have "p \<noteq> t"
      using tree_ok_unique [of "pmem w'" t "path (physaddr_as_virt pa) 1" "[]" t] p w'(2) by (auto simp: vm_inv_def kpath_def path_simps [unfolded One_nat_def])
    ultimately show ?thesis by (auto simp: tables_def)
  qed
  then show thesis using that [OF w' walks] effect_tables [OF w'(3)] inv(2) by simp
qed

lemma vm_init_booted:
  assumes mmu: "walks_tables mmu" and mm: "rpi_mmio midr = Inr (Some mm)" and b: "boot_ok ld mm v t dtb avail"
  obtains v' rows where "vm_init mmu ld midr v t dtb avail = Some (Inr v')" and "custom_map ld midr dtb = Inr rows"
    and "\<forall>row \<in> set rows. row_ok row \<and> row_hi row \<le> 2 ^ 32 \<and>
      (row_hi row \<le> phys (early_pagetables ld) \<or> phys (eearly_pagetables ld) \<le> row_lo row)"
    and "booted ld avail v t rows v'"
proof -
  let ?E = "phys (early_pagetables ld)" and ?F = "phys (eearly_pagetables ld)"
  note B = b [unfolded boot_ok_def]
  obtain a where a: "init_page_allocator ld (page_alloc v) = Inr a" "geometry a = (4096, 2 ^ 20, PhysAddr 0x100000000)"
    and fr: "\<And>q. q \<in> free_addrs a \<longleftrightarrow> 4096 dvd paddr q \<and> ?E \<le> paddr q \<and> paddr q < ?F"
    and cnt: "kernel_tables ld dtb \<le> card (free_addrs a)"
    and inv: "vm_inv (write_entry t 511 (table_entry t) (v\<lparr>page_alloc := a\<rparr>)) t"
      "tables (pmem (write_entry t 511 (table_entry t) (v\<lparr>page_alloc := a\<rparr>))) t = {t}"
    by (rule boot_early [OF b mm]) (rule that)
  define w where "w = write_entry t 511 (table_entry t) (v\<lparr>page_alloc := a\<rparr>)"
  obtain rows where rows: "custom_map ld midr dtb = Inr rows" "\<forall>row \<in> set rows. row_ok row" "sorted_wrt rows_apart rows"
      "sorted_wrt (\<lambda>a b. pr_start a \<le> pr_start b) (map fst rows)" "rows \<noteq> []"
    and loc: "\<forall>row \<in> set rows. row_hi row \<le> 2 ^ 32 \<and> (row_hi row \<le> ?E \<or> ?F \<le> row_lo row) \<and>
      (snd (snd row) = Page4K \<longrightarrow> row_hi row \<le> phys (ebss ld) \<or> fst row = dtb)"
    using kernel_rows [OF _ mm, of ld dtb] B by metis
  have pw: "pmem w = set_cell (pmem v) t 511 (table_entry t)" "page_alloc w = a" by (simp_all add: w_def)
  have e: "pmem v t = PageTable_empty" using B by blast
  have "card (needs_all (\<Union> (row_jobs ` set rows)) - tabs (pmem w) t) \<le> card (free_addrs (page_alloc w))"
    using kernel_needs [OF rows(2), of ld dtb] loc cnt unfolding pw(2) by (meson le_trans)
  then obtain w' where w': "map_rows mmu w t rows = Some (Inr w')" "vm_inv w' t"
      "effect w w' t (\<Union> (row_jobs ` set rows))" "\<forall>row \<in> set rows. row_mapped w' t row"
    and walks: "\<And>va. ix va Level0 \<noteq> 511 \<Longrightarrow> \<forall>row \<in> set rows. \<forall>(vb, ps) \<in> row_jobs row. slot va ps \<noteq> slot vb ps \<Longrightarrow>
      walk (pmem w') t levels va = None"
    and tb: "tables (pmem w') t \<noteq> {t}" "tables (pmem w') t \<subseteq> insert t (free_addrs (page_alloc w))"
    by (rule empty_map_rows [OF mmu inv [folded w_def] e pw(1) rows(2,3,5)]) (rule that)
  note D = effectD [OF w'(3)]
  have geo: "pa_inv (page_alloc w')" "geometry (page_alloc w') = (4096, 2 ^ 20, PhysAddr 0x100000000)"
    using w'(2) D(11) a(2) pw(2) by (simp_all add: vm_inv_def)
  have sub: "?E \<le> paddr q \<and> paddr q < ?F" if "q \<in> free_addrs (page_alloc w')" for q
    using that D(8) fr pw(2) by auto
  have loc': "\<forall>row \<in> set rows. row_hi row \<le> ?E \<or> ?F \<le> row_lo row" "\<forall>row \<in> set rows. row_hi row \<le> 2 ^ 32"
    and av: "paddr (pr_start avail) \<le> ?E" "?F \<le> paddr (pr_end avail)" "paddr (pr_end avail) \<le> 2 ^ 32"
    using loc B by blast+
  obtain a' where a': "free_unused_ranges (page_alloc w') avail (map fst rows) = Inr (a', Inr ())" "pa_inv a'"
      "PS a' = 4096" "end_pa a' = pr_end avail"
    and fa: "\<And>q. q \<in> free_addrs a' \<longleftrightarrow> 4096 dvd paddr q \<and> paddr q + 4096 \<le> paddr (pr_end avail) \<and>
      (\<exists>b. b div 4096 = paddr q div 4096 \<and> paddr (pr_start avail) \<le> b \<and> (\<forall>row \<in> set rows. \<not> in_range (fst row) b))"
    by (rule free_after [OF geo sub loc' rows(4,2) av]) (assumption, rule that)
  let ?v = "w'\<lparr>page_alloc := a'\<rparr>"
  have run: "vm_init mmu ld midr v t dtb avail = Some (Inr ?v)"
    using a(1) rows(1) w'(1) a'(1) by (simp add: vm_init_def w_def pagealloc_free_unused_ranges_def)
  have "kernel_root w = kernel_root v" "ttbr1 w = ttbr1 v" by (simp_all add: w_def kernel_root_def)
  then have "pmem w' (kernel_root v) 511 = pmem v (kernel_root v) 511" "ttbr1 w' = ttbr1 v"
    using D(6,7) B by (auto simp: pw(1) set_cell_apply)
  moreover have "\<forall>p \<in> tables (pmem w') t - {t}. 4096 dvd paddr p \<and> ?E \<le> paddr p \<and> paddr p < ?F" using tb(2) fr pw(2) by blast
  ultimately have "booted ld avail v t rows ?v"
    unfolding booted_def using w'(2,4) walks tb(1) root_in_tables a'(2-4) fa by (simp add: row_mapped_def vm_inv_def)
  then show thesis using that [OF run rows(1)] rows(2) loc by blast
qed

lemma tables_freed:
  assumes b: "boot_ok ld mm v t dtb avail"
    and rows: "\<forall>row \<in> set rows. row_ok row \<and> row_hi row \<le> 2 ^ 32 \<and>
      (row_hi row \<le> phys (early_pagetables ld) \<or> phys (eearly_pagetables ld) \<le> row_lo row)"
    and bt: "booted ld avail v t rows v'"
  shows "tables (pmem v') t - {t} \<subseteq> free_addrs (page_alloc v')"
proof
  let ?E = "phys (early_pagetables ld)" and ?F = "phys (eearly_pagetables ld)"
  have ld: "kernel_layout ld" and av: "paddr (pr_start avail) \<le> ?E" "?F \<le> paddr (pr_end avail)"
    using b unfolding boot_ok_def by blast+
  have F: "4096 dvd ?F" using kernel_layoutD(7) [OF ld] by blast
  have free: "q \<in> free_addrs (page_alloc v') \<longleftrightarrow> 4096 dvd paddr q \<and> paddr q + 4096 \<le> paddr (pr_end avail) \<and>
      (\<exists>b. b div 4096 = paddr q div 4096 \<and> paddr (pr_start avail) \<le> b \<and> (\<forall>row \<in> set rows. \<not> in_range (fst row) b))" for q
    using bt unfolding booted_def by blast
  fix p
  assume "p \<in> tables (pmem v') t - {t}"
  then have p: "4096 dvd paddr p" "?E \<le> paddr p" "paddr p < ?F" using bt unfolding booted_def by blast+
  have "\<not> in_range (fst row) (paddr p)" if "row \<in> set rows" for row
    using row_in_range [of row "paddr p"] rows that p by fastforce
  moreover have "paddr p + 4096 \<le> ?F" by (rule aligned_less [OF p(1) F p(3)])
  ultimately show "p \<in> free_addrs (page_alloc v')" unfolding free using p av by (intro conjI exI [of _ "paddr p"]) auto
qed

lemma booted_maps:
  assumes bt: "booted ld avail v t rows v'" and r: "(r, e, ps) \<in> set rows" "row_ok (r, e, ps)" and pa: "pa \<in> row_pages (r, e, ps)"
  shows "walk (pmem v') t levels (physaddr_as_virt pa) = Some (final_entry ps (with_phys_addr pa e), dest_level ps)"
    "phys_page_addr (final_entry ps (with_phys_addr pa e)) = pa"
proof -
  have "row_mapped v' t (r, e, ps)" using bt r(1) unfolding booted_def by blast
  moreover have "page_ok ps pa" using row_pages_list [OF r(2)] pa by metis
  ultimately show "walk (pmem v') t levels (physaddr_as_virt pa) = Some (final_entry ps (with_phys_addr pa e), dest_level ps)"
    "phys_page_addr (final_entry ps (with_phys_addr pa e)) = pa"
    using pa page_ok_addr by (auto simp: row_mapped_def)
qed

text \<open>Allocating as many pages as are free gives all of them.\<close>

lemma alloc_all:
  assumes "pa_inv a"
  obtains a' pas where "alloc_many alloc_page (card (free_pages a)) a = Some (a', pas)" and "set pas = free_addrs a"
proof -
  have c: "card (free_addrs a) = card (free_pages a)" using assms by (intro card_free_addrs) (simp add: pa_inv_def)
  then obtain a' pas where r: "alloc_many alloc_page (card (free_pages a)) a = Some (a', pas)"
    using bitmap_source.alloc_many_iff [OF assms, of "card (free_pages a)"] by fastforce
  then have "length pas = card (free_addrs a)" "distinct pas" "set pas \<subseteq> free_addrs a"
    using bitmap_source.alloc_many_sound [OF assms] c by auto
  then have "set pas = free_addrs a"
    by (intro card_subset_eq) (simp_all add: free_addrs_def distinct_card)
  then show thesis using that r by blast
qed

section \<open>A small kernel\<close>

definition small_dtb :: PhysRange where
  "small_dtb = PhysRange_with_end 0x8000100 0x8002100"

definition small_mem :: PhysRange where
  "small_mem = PhysRange_with_end 0 0x3c000000"

definition small_vm :: "BitmapPageAlloc \<Rightarrow> Vm" where
  "small_vm a = vm0\<lparr>page_alloc := a\<rparr>"

lemma small_mmio: "rpi_mmio 0x410fd034 = Inr (Some (PhysRange_with_end 0x3f000000 0x3f400000))"
  by code_simp

lemma small_phys:
  "phys (eboottext small_ld) = 0x81000" "phys (etext small_ld) = 0x90000" "phys (edata small_ld) = 0x96000"
  "phys (bss small_ld) = 0x96000" "phys (ebss small_ld) = 0xa0000"
  "phys (early_pagetables small_ld) = 0x200000" "phys (eearly_pagetables small_ld) = 0x400000"
  by (simp_all add: phys_def small_ld_def KZERO_def)

lemma small_boot:
  assumes "PAGE_ALLOC = Inr a"
  shows "boot_ok small_ld (PhysRange_with_end 0x3f000000 0x3f400000) (small_vm a) (PhysAddr 0x98000) small_dtb small_mem"
proof -
  have "kernel_layout small_ld" by (simp add: kernel_layout_def small_ld_def KZERO_def)
  moreover have "dtb_clear small_ld (PhysRange_with_end 0x3f000000 0x3f400000) small_dtb"
    by (simp add: dtb_clear_def small_phys small_dtb_def PhysRange_with_end_def Let_def paddr_less_iff)
  moreover have "kernel_tables small_ld small_dtb = 7"
    by (simp add: kernel_tables_def small_phys small_dtb_def PhysRange_with_end_def)
  moreover have "pmem (small_vm a) (PhysAddr 0x98000) = PageTable_empty" "kernel_root (small_vm a) = PhysAddr 0x2000"
    by (auto simp: small_vm_def vm0_def PageTable_empty_def Entry_empty_def kernel_root_def)
  ultimately show ?thesis
    using assms by (simp add: boot_ok_def small_phys small_vm_def small_mem_def PhysRange_with_end_def)
qed

text \<open>The memory map of the kernel in physical addresses: what \<open>custom_map\<close> should contain.\<close>

definition kernel_map :: "LinkerSymbols \<Rightarrow> PhysRange \<Rightarrow> PhysRange \<Rightarrow> mapping_row list" where
  "kernel_map ld dtb mm =
     [(dtb, ro_kernel_data, Page4K),
      (PhysRange_with_end 0 (etext ld - KZERO), ro_kernel_text, Page4K),
      (PhysRange_with_end (etext ld - KZERO) (edata ld - KZERO), rw_kernel_data, Page4K),
      (PhysRange_with_end (edata ld - KZERO) (ebss ld - KZERO), rw_kernel_data, Page4K),
      (mm, ro_kernel_device, Page2M)]"

lemma custom_map_set:
  assumes ld: "kernel_layout ld" and mm: "rpi_mmio midr = Inr (Some mm)" and c: "custom_map ld midr dtb = Inr rows"
  shows "set rows = set (kernel_map ld dtb mm)"
proof -
  obtain tx da bs where r: "custom_map ld midr dtb = Inr (sort_key (\<lambda>row. pr_start (fst row))
      [(dtb, ro_kernel_data, Page4K), (tx, ro_kernel_text, Page4K), (da, rw_kernel_data, Page4K),
       (bs, rw_kernel_data, Page4K), (mm, ro_kernel_device, Page2M)])"
    and e: "paddr (pr_start tx) = 0" "paddr (pr_end tx) = phys (etext ld)"
      "paddr (pr_start da) = phys (etext ld)" "paddr (pr_end da) = phys (edata ld)"
      "paddr (pr_start bs) = phys (edata ld)" "paddr (pr_end bs) = phys (ebss ld)"
    by (rule custom_map_rows [OF ld mm])
  have "KZERO \<le> etext ld" "KZERO \<le> edata ld" "KZERO \<le> ebss ld"
    using ld unfolding kernel_layout_def by auto
  then have p: "phys (etext ld) = unat (etext ld - KZERO)" "phys (edata ld) = unat (edata ld - KZERO)"
      "phys (ebss ld) = unat (ebss ld - KZERO)"
    by (simp_all add: phys_def unat_sub word_le_nat_alt)
  have eq: "r = PhysRange_with_end a b" if "paddr (pr_start r) = unat a" "paddr (pr_end r) = unat b" for r a b
    using that by (cases "pr_start r"; cases "pr_end r"; cases r) (simp add: PhysRange_with_end_def word_unat_eq_iff)
  have t: "tx = PhysRange_with_end 0 (etext ld - KZERO)" "da = PhysRange_with_end (etext ld - KZERO) (edata ld - KZERO)"
      "bs = PhysRange_with_end (edata ld - KZERO) (ebss ld - KZERO)"
    using e by (auto intro!: eq simp: p)
  have "rows = sort_key (\<lambda>row. pr_start (fst row)) (kernel_map ld dtb mm)"
    unfolding kernel_map_def t [symmetric] using r c by (simp del: sort_key_simps)
  then show ?thesis by (simp only: set_sort)
qed

section \<open>Properties\<close>


lemma small_rows:
  "custom_map small_ld 0x410fd034 small_dtb = Inr
     [(PhysRange_with_end 0 0x90000, ro_kernel_text, Page4K), (PhysRange_with_end 0x90000 0x96000, rw_kernel_data, Page4K),
      (PhysRange_with_end 0x96000 0xa0000, rw_kernel_data, Page4K), (small_dtb, ro_kernel_data, Page4K),
      (PhysRange_with_end 0x3f000000 0x3f400000, ro_kernel_device, Page2M)]"
  by code_simp






end
