(* ===== verification/Fmt.thy ===== *)
theory Fmt
  imports R9_Prelude
begin

text \<open>
  What the kernel uses of Rust's \<^verbatim>\<open>core::fmt\<close>: numbers in decimal and hexadecimal with the width,
  \<open>0\<close> and \<open>#\<close> flags, padded strings, and the output of \<open>debug_struct\<close> in its short and its
  pretty form.
\<close>

section \<open>Numbers\<close>

text \<open>The digits of a number, the most significant first; zero has the one digit 0.\<close>

function digits :: "nat \<Rightarrow> nat \<Rightarrow> nat list" where
  "digits b n = (if b < 2 \<or> n < b then [n] else digits b (n div b) @ [n mod b])"
  by pat_completeness auto
termination
  by (relation "measure snd") (simp_all add: div_less_dividend)

declare digits.simps [simp del]

definition digit_char :: "nat \<Rightarrow> char" where
  "digit_char d = (if d < 10 then char_of (48 + d) else char_of (87 + d))"

definition show_nat :: "nat \<Rightarrow> string" where
  "show_nat n = map digit_char (digits 10 n)"

definition lower_hex :: "nat \<Rightarrow> string" where
  "lower_hex n = map digit_char (digits 16 n)"

text \<open>Zero padding to a width; with \<open>#\<close> the prefix counts and stays in front.\<close>

definition zero_pad :: "nat \<Rightarrow> string \<Rightarrow> string" where
  "zero_pad w s = replicate (w - length s) (CHR ''0'') @ s"

definition alt_hex :: "nat \<Rightarrow> nat \<Rightarrow> string" where
  "alt_hex w n = ''0x'' @ zero_pad (w - 2) (lower_hex n)"

text \<open>A string padded on the right.\<close>

definition left_pad :: "nat \<Rightarrow> string \<Rightarrow> string" where
  "left_pad w s = s @ replicate (w - length s) (CHR '' '')"

definition show_bool :: "bool \<Rightarrow> string" where
  "show_bool b = (if b then ''true'' else ''false'')"

section \<open>Structures\<close>

fun join :: "string \<Rightarrow> string list \<Rightarrow> string" where
  "join sep [] = []"
| "join sep [s] = s"
| "join sep (s # t # ss) = s @ sep @ join sep (t # ss)"

definition debug_struct :: "string \<Rightarrow> (string \<times> string) list \<Rightarrow> string" where
  "debug_struct name fields = name @ '' { '' @ join '', '' (map (\<lambda>(f, v). f @ '': '' @ v) fields) @ '' }''"

text \<open>The writer that indents the lines of a field by four columns: the flag says that a line has
  just begun.\<close>

fun pad_adapter :: "bool \<Rightarrow> string \<Rightarrow> string" where
  "pad_adapter on_newline [] = []"
| "pad_adapter on_newline (c # cs) = (if on_newline then ''    '' else []) @ c # pad_adapter (c = CHR ''\<newline>'') cs"

definition debug_struct_pretty :: "string \<Rightarrow> (string \<times> string) list \<Rightarrow> string" where
  "debug_struct_pretty name fields =
     name @ '' {\<newline>'' @ concat (map (\<lambda>(f, v). pad_adapter True (f @ '': '' @ v @ '',\<newline>'')) fields) @ ''}''"

section \<open>Reading back\<close>

definition digit_val :: "char \<Rightarrow> nat" where
  "digit_val c = (if of_char c < (58 :: nat) then of_char c - 48 else of_char c - 87)"

definition number :: "nat \<Rightarrow> nat list \<Rightarrow> nat" where
  "number b = foldl (\<lambda>n d. n * b + d) 0"

definition read_hex :: "string \<Rightarrow> nat" where
  "read_hex s = number 16 (map digit_val s)"

lemma number_digits: "2 \<le> b \<Longrightarrow> number b (digits b n) = n"
proof (induction b n rule: digits.induct)
  case (1 b n)
  show ?case
  proof (cases "n < b")
    case True
    then show ?thesis by (subst digits.simps) (simp add: number_def)
  next
    case False
    then have "number b (digits b (n div b)) = n div b" using 1 by simp
    then show ?thesis using False by (subst digits.simps) (simp add: number_def)
  qed
qed

lemma digits_less: "2 \<le> b \<Longrightarrow> d \<in> set (digits b n) \<Longrightarrow> d < b"
proof (induction b n rule: digits.induct)
  case (1 b n)
  then show ?case by (subst (asm) (2) digits.simps) (auto split: if_splits)
qed

lemma digit_val_char: "d < 16 \<Longrightarrow> digit_val (digit_char d) = d"
  by (simp add: digit_val_def digit_char_def)

lemma read_lower_hex: "read_hex (lower_hex n) = n"
proof -
  have "map digit_val (lower_hex n) = digits 16 n"
    unfolding lower_hex_def using digits_less [of 16 _ n] by (simp add: map_idI digit_val_char)
  then show ?thesis by (simp add: read_hex_def number_digits)
qed

lemma read_zeros: "read_hex (replicate k (CHR ''0'') @ s) = read_hex s"
  by (induction k) (simp_all add: read_hex_def number_def digit_val_def)

lemma read_zero_pad: "read_hex (zero_pad w (lower_hex n)) = n"
  by (simp add: zero_pad_def read_zeros read_lower_hex)

text \<open>A number below \<open>16 ^ k\<close> has at most \<open>k\<close> digits, so a wide enough field has a fixed length.\<close>

lemma length_digits: "n < b ^ k \<Longrightarrow> 2 \<le> b \<Longrightarrow> 0 < k \<Longrightarrow> length (digits b n) \<le> k"
proof (induction b n arbitrary: k rule: digits.induct)
  case (1 b n)
  show ?case
  proof (cases "n < b")
    case True
    then show ?thesis using 1 by (subst digits.simps) simp
  next
    case False
    obtain j where k: "k = Suc j" using 1(4) by (cases k) auto
    then have "0 < j" using 1(2) False by (cases j) auto
    note j = k this
    have "n div b < b ^ j" using 1 j by (simp add: less_mult_imp_div_less mult.commute)
    then have "length (digits b (n div b)) \<le> j" using 1 False j by simp
    then show ?thesis using False j by (subst digits.simps) simp
  qed
qed

lemma length_alt_hex:
  assumes "n < 16 ^ k" and "0 < k" and "k + 2 \<le> w"
  shows "length (alt_hex w n) = w"
proof -
  have "length (lower_hex n) \<le> k" using assms by (simp add: lower_hex_def length_digits)
  then show ?thesis using assms(3) by (simp add: alt_hex_def zero_pad_def)
qed

section \<open>Texts of lines\<close>

text \<open>A text of whole lines is determined, within a longer text, by the number of its lines.\<close>

definition newlines :: "string \<Rightarrow> nat" where
  "newlines s = length (filter (\<lambda>c. c = CHR ''\<newline>'') s)"

definition whole_lines :: "string \<Rightarrow> bool" where
  "whole_lines s \<longleftrightarrow> s \<noteq> [] \<and> last s = CHR ''\<newline>''"

lemma newlines_append [simp]: "newlines (s @ t) = newlines s + newlines t"
  by (simp add: newlines_def)

lemma newlines_0: "newlines s = 0 \<longleftrightarrow> CHR ''\<newline>'' \<notin> set s"
  by (auto simp: newlines_def filter_empty_conv)

lemma lines_prefix:
  assumes "whole_lines a" and "whole_lines b" and "newlines a = newlines b" and "a @ s = b @ t"
  shows "a = b \<and> s = t"
proof -
  have *: "u = []" if "x = y @ u" "whole_lines x" "newlines x = newlines y" for x y u :: string
  proof (rule ccontr)
    assume u: "u \<noteq> []"
    then have "last u = CHR ''\<newline>''" using that by (simp add: whole_lines_def)
    then have "CHR ''\<newline>'' \<in> set u" using u last_in_set by metis
    then have "newlines u \<noteq> 0" by (simp add: newlines_0)
    then show False using that by simp
  qed
  obtain u where "a = b @ u \<and> u @ s = t \<or> a @ u = b \<and> s = u @ t"
    using assms(4) [unfolded append_eq_append_conv2] ..
  then show ?thesis
  proof (elim disjE conjE)
    assume "a = b @ u" "u @ s = t"
    moreover have "u = []" by (rule *) fact+
    ultimately show ?thesis by simp
  next
    assume "a @ u = b" "s = u @ t"
    moreover have "u = []" by (rule * [OF \<open>a @ u = b\<close> [symmetric] assms(2) assms(3) [symmetric]])
    ultimately show ?thesis by simp
  qed
qed

lemma concat_lines_inj:
  assumes "length as = length bs" and "\<And>i. i < length as \<Longrightarrow> whole_lines (as ! i) \<and> whole_lines (bs ! i) \<and> newlines (as ! i) = newlines (bs ! i)"
    and "concat as @ s = concat bs @ t"
  shows "as = bs"
  using assms
proof (induction as bs rule: list_induct2)
  case (Cons a as b bs)
  have "a = b \<and> concat as @ s = concat bs @ t" using Cons.prems(1) [of 0] Cons.prems(2) by (intro lines_prefix) simp_all
  moreover have "as = bs" using Cons.IH Cons.prems(1) [of "Suc i" for i] calculation by force
  ultimately show ?case by simp
qed simp

lemma newlines_pad: "newlines (pad_adapter on s) = newlines s"
  by (induction on s rule: pad_adapter.induct) (auto simp: newlines_def)

lemma pad_adapter_inj: "pad_adapter on s = pad_adapter on t \<Longrightarrow> s = t"
proof (induction on s arbitrary: t rule: pad_adapter.induct)
  case (1 on)
  then show ?case by (cases t) simp_all
next
  case (2 on c cs)
  then show ?case by (cases t) (auto split: if_splits)
qed

lemma last_pad: "s \<noteq> [] \<Longrightarrow> last (pad_adapter on s) = last s"
proof (induction on s rule: pad_adapter.induct)
  case (2 on c cs)
  have "pad_adapter b cs = [] \<longleftrightarrow> cs = []" for b by (cases cs) simp_all
  with 2 show ?case by auto
qed simp

lemma pad_nonempty: "pad_adapter on s = [] \<longleftrightarrow> s = []"
  by (cases s) simp_all

text \<open>The pretty form determines the values, when they have as many lines each.\<close>

lemma debug_struct_pretty_inj:
  assumes "debug_struct_pretty name fs @ s = debug_struct_pretty name gs @ t" and "map fst fs = map fst gs"
    and "map (newlines \<circ> snd) fs = map (newlines \<circ> snd) gs"
  shows "fs = gs"
proof -
  let ?b = "\<lambda>(f, v). pad_adapter True (f @ '': '' @ v @ '',\<newline>'')"
  have len: "length fs = length gs" using assms(2) map_eq_imp_length_eq by blast
  have nth: "fst (fs ! i) = fst (gs ! i) \<and> newlines (snd (fs ! i)) = newlines (snd (gs ! i))" if "i < length fs" for i
    using that len assms(2,3) by (metis comp_apply nth_map)
  have "whole_lines (?b x)" for x by (simp add: whole_lines_def pad_nonempty last_pad split: prod.split)
  moreover have "newlines (?b (fs ! i)) = newlines (?b (gs ! i))" if "i < length fs" for i
    using nth [OF that] by (cases "fs ! i"; cases "gs ! i") (simp add: newlines_pad, simp add: newlines_def)
  moreover have "concat (map ?b fs) @ ''}'' @ s = concat (map ?b gs) @ ''}'' @ t"
    using assms(1) by (simp add: debug_struct_pretty_def)
  ultimately have eq: "map ?b fs = map ?b gs" by (intro concat_lines_inj) (use len in \<open>auto simp del: split_paired_All\<close>)
  show ?thesis
  proof (rule nth_equalityI [OF len])
    fix i
    assume i: "i < length fs"
    have "map ?b fs ! i = map ?b gs ! i" by (simp only: eq)
    then have b: "?b (fs ! i) = ?b (gs ! i)" using i len by (simp only: nth_map)
    obtain f v g w where fv: "fs ! i = (f, v)" "gs ! i = (g, w)" by (meson surj_pair)
    then have "f = g" using nth [OF i] by simp
    moreover have "f @ '': '' @ v @ '',\<newline>'' = g @ '': '' @ w @ '',\<newline>''"
      using b unfolding fv prod.case by (rule pad_adapter_inj)
    ultimately show "fs ! i = gs ! i" by (simp add: fv)
  qed
qed

end
