(* ===== verification/Print_Tables.thy ===== *)
theory Print_Tables
  imports Vm_Correct Fmt
begin

text \<open>
  Printing the page tables, from \<^verbatim>\<open>aarch64/src/vm.rs\<close>: the \<open>Debug\<close> output of an entry, \<open>print_pte\<close>,
  and \<open>print_table_at_level\<close>, which reaches each child table through its recursive address.  The
  text printed is returned; reading a table at an address without a translation is a fault.
\<close>

section \<open>Entries\<close>

fun Mair_debug :: "Mair \<Rightarrow> string" where
  "Mair_debug Mair_Normal = ''Normal''"
| "Mair_debug Mair_Device = ''Device''"

fun AccessPermission_debug :: "AccessPermission \<Rightarrow> string" where
  "AccessPermission_debug PrivRw = ''PrivRw''"
| "AccessPermission_debug AllRw = ''AllRw''"
| "AccessPermission_debug PrivRo = ''PrivRo''"
| "AccessPermission_debug AllRo = ''AllRo''"

fun Shareable_debug :: "Shareable \<Rightarrow> string" where
  "Shareable_debug Sh_Non = ''Non''"
| "Shareable_debug Sh_Unpredictable = ''Unpredictable''"
| "Shareable_debug Sh_Outer = ''Outer''"
| "Shareable_debug Sh_Inner = ''Inner''"

fun Level_debug :: "Level \<Rightarrow> string" where
  "Level_debug Level0 = ''Level0''"
| "Level_debug Level1 = ''Level1''"
| "Level_debug Level2 = ''Level2''"
| "Level_debug Level3 = ''Level3''"

fun PageSize_debug :: "PageSize \<Rightarrow> string" where
  "PageSize_debug Page4K = ''Page4K''"
| "PageSize_debug Page2M = ''Page2M''"
| "PageSize_debug Page1G = ''Page1G''"

definition Entry_debug :: "Entry \<Rightarrow> string" where
  "Entry_debug e =
     ''Entry: '' @ alt_hex 0 (unat (push_bit 12 (e_addr e))) @ '' '' @
     (if e_valid e then '' Valid'' else '' Invalid'') @
     (if e_page_or_table e then '' Page/Table'' else '' Block'') @
     '' '' @ Mair_debug (e_mair_index e) @
     (if e_non_secure e then '' NonSecure'' else '' Secure'') @
     '' '' @ AccessPermission_debug (e_access_permission e) @ '' '' @ Shareable_debug (e_shareable e) @
     (if e_accessed e then '' Accessed'' else []) @
     (if e_pxn e then '' PXN'' else []) @
     (if e_uxn e then '' UXN'' else [])"

definition line :: "string \<Rightarrow> string" where
  "line s = s @ ''\<newline>''"

definition print_pte :: "nat \<Rightarrow> nat \<Rightarrow> Level \<Rightarrow> Entry \<Rightarrow> string" where
  "print_pte indent i level pte =
     line (left_pad indent [] @ ''['' @ zero_pad 3 (show_nat i) @
       (if Entry_table pte level
        then ''] Table '' @ Entry_debug pte @ '' (pte:'' @ alt_hex 16 (unat pte) @ '')''
        else ''] Entry va:'' @ alt_hex 18 (unat (virt_page_addr pte)) @ '' -> '' @ Entry_debug pte @
             '' (pte:'' @ alt_hex 16 (unat pte) @ '')''))"

section \<open>Tables\<close>

definition PageTable_debug :: "usize \<Rightarrow> string" where
  "PageTable_debug self_va = lower_hex (unat self_va)"

text \<open>The loop over the entries: the text of each, until one panics.\<close>

fun each_r :: "('a \<Rightarrow> string rust) \<Rightarrow> 'a list \<Rightarrow> string rust" where
  "each_r f [] = Inr []"
| "each_r f (x # xs) = bind_r (f x) (\<lambda>s. bind_r (each_r f xs) (\<lambda>t. Inr (s @ t)))"

lemma each_r_cong [fundef_cong]: "xs = ys \<Longrightarrow> (\<And>x. x \<in> set ys \<Longrightarrow> f x = g x) \<Longrightarrow> each_r f xs = each_r g ys"
  by (induction xs arbitrary: ys) auto

definition table_head :: "Level \<Rightarrow> usize \<Rightarrow> string" where
  "table_head level self_va =
     line (left_pad (2 + depth level * 2) [] @ ''Table '' @ Level_debug level @ '' va:'' @ alt_hex 0 (unat self_va))"

text \<open>\<open>self\<close> is the table's page and \<open>self_va\<close> the pointer to it that is printed.\<close>

function print_table_at_level :: "mmu \<Rightarrow> Vm \<Rightarrow> PhysAddr \<Rightarrow> usize \<Rightarrow> Level \<Rightarrow> usize \<Rightarrow> string rust" where
  "print_table_at_level mmu s self self_va level table_va =
     (let indent = 2 + depth level * 2
      in bind_r (each_r (\<lambda>i.
           let pte = pmem s self i
           in if \<not> e_valid pte then Inr []
              else bind_r (if i \<noteq> 511 \<and> Entry_table pte level
                           then (case next_level level of
                                   None \<Rightarrow> Inl Unwrap_Failed
                                 | Some next_nevel \<Rightarrow>
                                     let child_va = push_bit 9 table_va OR push_bit 12 (word_of_nat i)
                                     in case mmu (pmem s) (ttbr1 s) child_va of
                                          None \<Rightarrow> Inl Undefined_Behaviour
                                        | Some child_table \<Rightarrow>
                                            print_table_at_level mmu s child_table child_va next_nevel child_va)
                           else Inr []) (\<lambda>below. Inr (print_pte indent i level pte @ below))) [0..<512]) (\<lambda>entries.
         Inr (table_head level self_va @ entries)))"
  by pat_completeness auto
termination
proof (relation "measure (\<lambda>(mmu, s, self, self_va, level, table_va). 4 - depth level)", goal_cases)
  case (2 mmu s self self_va level table_va indent i pte l)
  then show ?case by (cases level) auto
qed simp

declare print_table_at_level.simps [simp del]

definition print_recursive_tables :: "mmu \<Rightarrow> Vm \<Rightarrow> PhysAddr \<Rightarrow> string rust" where
  "print_recursive_tables mmu s self =
     bind_r (print_table_at_level mmu s self (physaddr_as_virt self) Level0 0xfffffffffffff000) (\<lambda>t.
       Inr (line (''Root va:'' @ alt_hex 0 (unat (physaddr_as_virt self))) @ t))"

section \<open>The addresses of the children\<close>

lemma bit_recursive:
  "n < 64 \<Longrightarrow> bit (recursive_table_addr va l) n \<longleftrightarrow> 12 + 9 * depth l \<le> n \<or> 12 \<le> n \<and> bit va (36 - 9 * depth l + n)"
  unfolding recursive_table_addr_def Let_def bits9
  by (cases l; simp only: Level.case;
      cases "n < 12"; cases "n < 21"; cases "n < 30"; cases "n < 39"; cases "n < 48"; simp add: bit_simps less_diff_conv2)

lemma bit_index: "n < 64 \<Longrightarrow> bit (va_index va l) n \<longleftrightarrow> n < 9 \<and> bit va (39 - 9 * depth l + n)"
  by (cases l) (auto simp: va_index.simps bits9(1) bit_simps)

lemma recursive_root: "recursive_table_addr va Level0 = 0xfffffffffffff000"
proof -
  have ones: "(0xfffffffffffff000 :: u64) = push_bit 12 (mask 52)" by (simp add: mask_eq_decr_exp push_bit_eq_mult)
  show ?thesis unfolding ones by (rule bit_word_eqI) (auto simp: bit_recursive bit_simps)
qed

lemma recursive_child:
  assumes "next_level l = Some l'"
  shows "recursive_table_addr va l' = push_bit 9 (recursive_table_addr va l) OR push_bit 12 (va_index va l)"
proof (rule bit_word_eqI)
  fix n
  assume "n < LENGTH(64)"
  then show "bit (recursive_table_addr va l') n = bit (push_bit 9 (recursive_table_addr va l) OR push_bit 12 (va_index va l)) n"
    using assms by (cases l; cases "n < 12"; cases "n < 21"; cases "n < 30"; cases "n < 39";
      auto simp: bit_push_bit_iff bit_or_iff bit_recursive bit_index less_diff_conv2 le_diff_conv2)
qed

text \<open>The address that the code computes for the table on a path, and its recursive address.\<close>

definition table_va :: "nat list \<Rightarrow> usize" where
  "table_va is = foldl (\<lambda>va i. push_bit 9 va OR push_bit 12 (word_of_nat i)) 0xfffffffffffff000 is"

lemma recursive_path: "recursive_table_addr va l = table_va (path va (depth l))"
proof -
  have w: "word_of_nat (ix va l) = va_index va l" for l by simp
  show ?thesis
    by (cases l) (simp_all add: table_va_def path_simps [unfolded One_nat_def] w recursive_root
        recursive_child [of Level0 Level1] recursive_child [of Level1 Level2] recursive_child [of Level2 Level3])
qed

text \<open>Up to three indices are those of an address.\<close>

lemma va_of_path:
  assumes "length is \<le> 3" and "\<forall>i \<in> set is. i < 512"
  obtains va where "path va (length is) = is"
proof -
  define i where "i = (\<lambda>k. if k < length is then is ! k else 0)"
  have lt: "i k < 512" for k using assms(2) by (simp add: i_def)
  define n where "n = i 0 * 2 ^ 39 + i 1 * 2 ^ 30 + i 2 * 2 ^ 21"
  define va :: usize where "va = word_of_nat n"
  have "n < 2 ^ 64" using lt [of 0] lt [of 1] lt [of 2] by (simp add: n_def)
  then have u: "unat va = n" using unat_word_of_nat_small [of n, where 'a = 64] by (simp add: va_def)
  have "n div 2 ^ 39 = i 0" "n div 2 ^ 30 = i 1 + i 0 * 512" "n div 2 ^ 21 = i 2 + (i 0 * 512 + i 1) * 512"
    using lt [of 0] lt [of 1] lt [of 2] by (simp_all add: n_def)
  then have "ix va Level0 = i 0" "ix va Level1 = i 1" "ix va Level2 = i 2"
    unfolding va_index.simps unat_index u using lt [of 0] lt [of 1] lt [of 2] by (simp_all only: mod_mult_self1 mod_less)
  moreover have "length is = 0 \<or> length is = 1 \<or> length is = 2 \<or> length is = 3" using assms(1) by linarith
  ultimately have "path va (length is) = is"
    by (elim disjE) (auto simp: path_def i_def length_Suc_conv numeral_2_eq_2 numeral_3_eq_3)
  then show thesis by (rule that)
qed

section \<open>The text of a tree\<close>

text \<open>What should be printed: the tables and their entries in order, each child read in the page
  that its entry names.\<close>

fun table_text :: "pages \<Rightarrow> Level list \<Rightarrow> PhysAddr \<Rightarrow> usize \<Rightarrow> nat list \<Rightarrow> string" where
  "table_text m [] t self_va is = []"
| "table_text m (l # ls) t self_va is =
     table_head l self_va @ concat (map (\<lambda>i.
       let e = m t i
       in if \<not> e_valid e then []
          else print_pte (2 + depth l * 2) i l e @
            (if i \<noteq> 511 \<and> Entry_table e l
             then table_text m ls (phys_page_addr e) (table_va (is @ [i])) (is @ [i]) else [])) [0..<512])"

lemma each_r_Inr: "(\<And>x. x \<in> set xs \<Longrightarrow> f x = Inr (g x)) \<Longrightarrow> each_r f xs = Inr (concat (map g xs))"
  by (induction xs) simp_all

lemma print_table_eq:
  assumes b: "\<And>i. i < 512 \<Longrightarrow> i \<noteq> 511 \<Longrightarrow> e_valid (pmem s self i) \<Longrightarrow> Entry_table (pmem s self i) level \<Longrightarrow>
    \<exists>l' c. next_level level = Some l' \<and> mmu (pmem s) (ttbr1 s) (push_bit 9 va OR push_bit 12 (word_of_nat i)) = Some c \<and>
      print_table_at_level mmu s c (push_bit 9 va OR push_bit 12 (word_of_nat i)) l' (push_bit 9 va OR push_bit 12 (word_of_nat i)) = Inr (below i)"
  shows "print_table_at_level mmu s self self_va level va =
    Inr (table_head level self_va @ concat (map (\<lambda>i. if \<not> e_valid (pmem s self i) then []
      else print_pte (2 + depth level * 2) i level (pmem s self i) @
        (if i \<noteq> 511 \<and> Entry_table (pmem s self i) level then below i else [])) [0..<512]))"
proof -
  have "each_r (\<lambda>i. if \<not> e_valid (pmem s self i) then Inr []
      else bind_r (if i \<noteq> 511 \<and> Entry_table (pmem s self i) level
                   then (case next_level level of
                           None \<Rightarrow> Inl Unwrap_Failed
                         | Some l \<Rightarrow>
                             case mmu (pmem s) (ttbr1 s) (push_bit 9 va OR push_bit 12 (word_of_nat i)) of
                               None \<Rightarrow> Inl Undefined_Behaviour
                             | Some c \<Rightarrow>
                                 print_table_at_level mmu s c (push_bit 9 va OR push_bit 12 (word_of_nat i)) l
                                   (push_bit 9 va OR push_bit 12 (word_of_nat i)))
                   else Inr []) (\<lambda>below. Inr (print_pte (2 + depth level * 2) i level (pmem s self i) @ below))) [0..<512] =
    Inr (concat (map (\<lambda>i. if \<not> e_valid (pmem s self i) then []
      else print_pte (2 + depth level * 2) i level (pmem s self i) @
        (if i \<noteq> 511 \<and> Entry_table (pmem s self i) level then below i else [])) [0..<512]))"
    (is "each_r ?f _ = Inr (concat (map ?g _))")
  proof (rule each_r_Inr)
    fix i :: nat
    assume "i \<in> set [0..<512]"
    then have i: "i < 512" by simp
    show "?f i = Inr (?g i)"
    proof (cases "e_valid (pmem s self i) \<and> i \<noteq> 511 \<and> Entry_table (pmem s self i) level")
      case True
      then show ?thesis using b [OF i] by auto
    qed auto
  qed
  then show ?thesis by (subst print_table_at_level.simps) (simp only: Let_def bind_r_Inr)
qed

lemma table_va_child: "push_bit 9 (table_va is) OR push_bit 12 (word_of_nat i) = table_va (is @ [i])"
  by (simp add: table_va_def)

lemma child_page:
  assumes mmu: "walks_tables mmu" and ok: "tree_ok (pmem v) s" and root: "rec_ok v s"
    and "is": "length is = depth l" "l \<noteq> Level0" "\<forall>i \<in> set is. i < 512" and p: "pt (pmem v) s is = Some t"
  shows "mmu (pmem v) (ttbr1 v) (table_va is) = Some t"
proof -
  have "length is \<le> 3" using "is"(1) by (cases l) simp_all
  then obtain va where va: "path va (length is) = is" using "is"(3) by (rule va_of_path)
  then have "arm_page (pmem v) (ttbr1 v) (recursive_table_addr va l) = Some t"
    using recursive_page [OF ok root _ "is"(2), of va t] p "is"(1) by simp
  then show ?thesis using mmu va "is"(1) by (simp add: walks_tables_def recursive_path)
qed

lemma print_table_text:
  assumes mmu: "walks_tables mmu" and ok: "tree_ok (pmem v) s" and root: "rec_ok v s"
  shows "length is = depth l \<Longrightarrow> \<forall>i \<in> set is. i < 512 \<Longrightarrow> hd_ok is \<Longrightarrow> pt (pmem v) s is = Some t \<Longrightarrow>
    print_table_at_level mmu v t self_va l (table_va is) = Inr (table_text (pmem v) (drop (depth l) levels) t self_va is)"
proof (induction "3 - depth l" arbitrary: l "is" t self_va)
  case hyps: (0 l)
  then have l: "l = Level3" by (cases l) simp_all
  have lv: "drop (depth Level3) levels = [Level3]" by simp
  have "print_table_at_level mmu v t self_va Level3 (table_va is) =
    Inr (table_head Level3 self_va @ concat (map (\<lambda>i. if \<not> e_valid (pmem v t i) then []
      else print_pte (2 + depth Level3 * 2) i Level3 (pmem v t i) @
        (if i \<noteq> 511 \<and> Entry_table (pmem v t i) Level3
         then table_text (pmem v) [] (phys_page_addr (pmem v t i)) (table_va (is @ [i])) (is @ [i]) else [])) [0..<512]))"
    by (rule print_table_eq) (simp add: Entry_table_def)
  then show ?case unfolding l lv table_text.simps(2) Let_def .
next
  case hyps: (Suc n l)
  obtain l' where l': "next_level l = Some l'" "depth l' = depth l + 1" "l' \<noteq> Level0" "drop (depth l) levels = l # drop (depth l') levels"
    using hyps(2) by (cases l) auto
  let ?below = "\<lambda>i. table_text (pmem v) (drop (depth l') levels) (phys_page_addr (pmem v t i)) (table_va (is @ [i])) (is @ [i])"
  have "print_table_at_level mmu v t self_va l (table_va is) =
    Inr (table_head l self_va @ concat (map (\<lambda>i. if \<not> e_valid (pmem v t i) then []
      else print_pte (2 + depth l * 2) i l (pmem v t i) @
        (if i \<noteq> 511 \<and> Entry_table (pmem v t i) l then ?below i else [])) [0..<512]))"
  proof (rule print_table_eq)
    fix i :: nat
    assume i: "i < 512" "i \<noteq> 511" "e_valid (pmem v t i)" "Entry_table (pmem v t i) l"
    have p: "pt (pmem v) s (is @ [i]) = Some (phys_page_addr (pmem v t i))"
      using hyps(6) i by (simp add: pt_append is_table_def Entry_table_def)
    have j: "length (is @ [i]) = depth l'" "\<forall>j \<in> set (is @ [i]). j < 512" using hyps(3,4) i l'(2) by auto
    have "hd_ok (is @ [i])" "n = 3 - depth l'" using hyps(2,5) i l'(2) by (cases "is"; simp)+
    then show "\<exists>l' c. next_level l = Some l' \<and> mmu (pmem v) (ttbr1 v) (push_bit 9 (table_va is) OR push_bit 12 (word_of_nat i)) = Some c \<and>
        print_table_at_level mmu v c (push_bit 9 (table_va is) OR push_bit 12 (word_of_nat i)) l'
          (push_bit 9 (table_va is) OR push_bit 12 (word_of_nat i)) = Inr (?below i)"
      using hyps(1) [OF _ j _ p] child_page [OF mmu ok root j(1) l'(3) j(2) p] l'(1)
      unfolding table_va_child by blast
  qed
  then show ?case unfolding l'(4) table_text.simps Let_def .
qed

lemma print_tables_text:
  assumes "walks_tables mmu" and "tree_ok (pmem v) (kernel_root v)"
  shows "print_recursive_tables mmu v (kernel_root v) =
    Inr (line (''Root va:'' @ alt_hex 0 (unat (physaddr_as_virt (kernel_root v)))) @
      table_text (pmem v) levels (kernel_root v) (physaddr_as_virt (kernel_root v)) [])"
proof -
  have "rec_ok v (kernel_root v)" using assms(2) by (simp add: rec_ok_def tree_ok_def)
  then have "print_table_at_level mmu v (kernel_root v) va Level0 (table_va []) =
      Inr (table_text (pmem v) (drop (depth Level0) levels) (kernel_root v) va [])" for va
    by (intro print_table_text [OF assms]) simp_all
  then show ?thesis by (simp add: print_recursive_tables_def table_va_def)
qed

section \<open>Properties\<close>



end
