(* ===== verification/Debug_Text.thy ===== *)
theory Debug_Text
  imports Registers Page_Allocator Fmt
begin

text \<open>
  The \<open>Debug\<close> and \<open>Display\<close> output of addresses, ranges and system registers, from
  \<^verbatim>\<open>port/src/mem.rs\<close>, \<^verbatim>\<open>port/src/bitmapalloc.rs\<close> and \<^verbatim>\<open>aarch64/src/registers.rs\<close>, and lemmas that say when
  a text determines what was printed.  The argument \<open>alternate\<close> is the flag \<open>#\<close> of the formatter.
\<close>

section \<open>Addresses and ranges\<close>

definition PhysAddr_debug :: "PhysAddr \<Rightarrow> string" where
  "PhysAddr_debug pa = ''PhysAddr('' @ alt_hex 16 (paddr pa) @ '')''"

definition PhysRange_display :: "PhysRange \<Rightarrow> string" where
  "PhysRange_display r = alt_hex 16 (paddr (pr_start r)) @ ''..'' @ alt_hex 16 (paddr (pr_end r))"

section \<open>Registers\<close>

definition debug_struct_with :: "bool \<Rightarrow> string \<Rightarrow> (string \<times> string) list \<Rightarrow> string" where
  "debug_struct_with alternate = (if alternate then debug_struct_pretty else debug_struct)"

fun PartNum_debug :: "PartNum \<Rightarrow> string" where
  "PartNum_debug PN_Unknown = ''Unknown''"
| "PartNum_debug PN_RaspberryPi1 = ''RaspberryPi1''"
| "PartNum_debug PN_RaspberryPi2 = ''RaspberryPi2''"
| "PartNum_debug PN_RaspberryPi3 = ''RaspberryPi3''"
| "PartNum_debug PN_RaspberryPi4 = ''RaspberryPi4''"

definition MidrEl1_debug :: "bool \<Rightarrow> MidrEl1 \<Rightarrow> string" where
  "MidrEl1_debug alternate r = debug_struct_with alternate ''MidrEl1''
     [(''revision'', alt_hex 0 (unat (midr_revision r))),
      (''partnum'', PartNum_debug (case partnum_enum r of Inl _ \<Rightarrow> PN_Unknown | Inr p \<Rightarrow> p)),
      (''architecture'', alt_hex 0 (unat (midr_architecture r))),
      (''variant'', alt_hex 0 (unat (midr_variant r))),
      (''implementer'', alt_hex 0 (unat (midr_implementer r)))]"

fun ExceptionClass_debug :: "ExceptionClass \<Rightarrow> string" where
  "ExceptionClass_debug EC_Unknown = ''Unknown''"
| "ExceptionClass_debug EC_WaitFor = ''WaitFor''"
| "ExceptionClass_debug EC_FloatSimd = ''FloatSimd''"
| "ExceptionClass_debug EC_Ls64 = ''Ls64''"
| "ExceptionClass_debug EC_BranchTargetException = ''BranchTargetException''"
| "ExceptionClass_debug EC_IllegalExecutionState = ''IllegalExecutionState''"
| "ExceptionClass_debug EC_MsrMrsSystem = ''MsrMrsSystem''"
| "ExceptionClass_debug EC_Sve = ''Sve''"
| "ExceptionClass_debug EC_Tstart = ''Tstart''"
| "ExceptionClass_debug EC_PointerAuthFailure = ''PointerAuthFailure''"
| "ExceptionClass_debug EC_Sme = ''Sme''"
| "ExceptionClass_debug EC_GranuleProtectionCheck = ''GranuleProtectionCheck''"
| "ExceptionClass_debug EC_InstructionAbortLowerEl = ''InstructionAbortLowerEl''"
| "ExceptionClass_debug EC_InstructionAbortSameEl = ''InstructionAbortSameEl''"
| "ExceptionClass_debug EC_PcAlignmentFault = ''PcAlignmentFault''"
| "ExceptionClass_debug EC_DataAbortLowerEl = ''DataAbortLowerEl''"
| "ExceptionClass_debug EC_DataAbortSameEl = ''DataAbortSameEl''"
| "ExceptionClass_debug EC_SpAlignmentFault = ''SpAlignmentFault''"
| "ExceptionClass_debug EC_MemoryOperationException = ''MemoryOperationException''"
| "ExceptionClass_debug EC_TrappedFloatingPointException = ''TrappedFloatingPointException''"
| "ExceptionClass_debug EC_SError = ''SError''"
| "ExceptionClass_debug EC_BreakpointLowerEl = ''BreakpointLowerEl''"
| "ExceptionClass_debug EC_BreakpointSameEl = ''BreakpointSameEl''"
| "ExceptionClass_debug EC_SoftwareStepLowerEl = ''SoftwareStepLowerEl''"
| "ExceptionClass_debug EC_SoftwareStepSameEl = ''SoftwareStepSameEl''"
| "ExceptionClass_debug EC_WatchpointLowerEl = ''WatchpointLowerEl''"
| "ExceptionClass_debug EC_WatchpointSameEl = ''WatchpointSameEl''"
| "ExceptionClass_debug EC_Brk = ''Brk''"

fun Result_debug :: "u8 + ExceptionClass \<Rightarrow> string" where
  "Result_debug (Inl n) = ''Err('' @ show_nat (unat n) @ '')''"
| "Result_debug (Inr ec) = ''Ok('' @ ExceptionClass_debug ec @ '')''"

definition EsrEl1_fields :: "EsrEl1 \<Rightarrow> (string \<times> string) list" where
  "EsrEl1_fields r =
     [(''iss'', alt_hex 10 (unat (esr_iss r))),
      (''il'', show_bool (esr_il r)),
      (''ec'', Result_debug (exception_class_enum r)),
      (''iss2'', alt_hex 4 (unat (esr_iss2 r)))]"

definition EsrEl1_debug :: "bool \<Rightarrow> EsrEl1 \<Rightarrow> string" where
  "EsrEl1_debug alternate r = debug_struct_with alternate ''EsrEl1'' (EsrEl1_fields r)"

section \<open>What a text determines\<close>

lemma digit_char_inj: "x < 16 \<Longrightarrow> y < 16 \<Longrightarrow> digit_char x = digit_char y \<Longrightarrow> x = y"
  by (metis digit_val_char)

lemma show_nat_inj: "show_nat m = show_nat n \<Longrightarrow> m = n"
proof -
  assume "show_nat m = show_nat n"
  moreover have "map digit_val (show_nat k) = digits 10 k" for k
  proof -
    have "digit_val (digit_char d) = d" if "d \<in> set (digits 10 k)" for d
      using digits_less [of 10 d k] that digit_val_char [of d] by simp
    then show ?thesis by (simp add: show_nat_def map_idI)
  qed
  ultimately have "digits 10 m = digits 10 n" by metis
  moreover have "number 10 (digits 10 k) = k" for k by (rule number_digits) simp
  ultimately show ?thesis by metis
qed

lemma alt_hex_inj: "alt_hex w m = alt_hex w n \<Longrightarrow> m = n"
proof -
  assume "alt_hex w m = alt_hex w n"
  then have "zero_pad (w - 2) (lower_hex m) = zero_pad (w - 2) (lower_hex n)" by (simp add: alt_hex_def)
  from arg_cong [OF this, of read_hex] show ?thesis by (simp only: read_zero_pad)
qed

text \<open>The names of the exception classes already differ in the sum of their characters.\<close>

lemma ExceptionClass_debug_inj:
  assumes "ExceptionClass_debug c = ExceptionClass_debug d"
  shows "c = d"
proof -
  let ?sum = "\<lambda>c. sum_list (map of_char (ExceptionClass_debug c)) :: nat"
  have "distinct (map ?sum (map snd ExceptionClass_variants))" by (simp add: ExceptionClass_variants_def)
  then have "inj_on ?sum (set (map snd ExceptionClass_variants))" by (simp only: distinct_map)
  moreover have "e \<in> set (map snd ExceptionClass_variants)" for e by (cases e) (simp_all add: ExceptionClass_variants_def)
  ultimately show ?thesis using assms by (simp only: inj_on_def)
qed

lemma Result_debug_inj: "Result_debug r = Result_debug s \<Longrightarrow> r = s"
proof (cases r; cases s)
  fix m n
  assume "Result_debug r = Result_debug s" "r = Inl m" "s = Inl n"
  then have "unat m = unat n" by (auto dest: show_nat_inj)
  then show ?thesis using \<open>r = Inl m\<close> \<open>s = Inl n\<close> by (simp add: word_unat_eq_iff)
qed (auto dest: ExceptionClass_debug_inj)

lemma exception_class_inj:
  assumes "exception_class_enum r = exception_class_enum s"
  shows "esr_ec r = esr_ec s"
proof -
  have d: "distinct (map snd ExceptionClass_variants)" by (simp add: ExceptionClass_variants_def)
  have "n = m" if "try_from_primitive ExceptionClass_variants n = try_from_primitive ExceptionClass_variants m" for n m
  proof (cases "map_of ExceptionClass_variants n"; cases "map_of ExceptionClass_variants m")
    fix a b
    assume ab: "map_of ExceptionClass_variants n = Some a" "map_of ExceptionClass_variants m = Some b"
    then have "(n, a) \<in> set ExceptionClass_variants" "(m, a) \<in> set ExceptionClass_variants"
      using that by (auto simp: try_from_primitive_def dest: map_of_SomeD)
    then show ?thesis using d by (metis eq_key_imp_eq_value map_of_eq_Some_iff distinct_map inj_on_def snd_conv prod.inject)
  qed (use that in \<open>auto simp: try_from_primitive_def\<close>)
  then show ?thesis using assms by (simp add: exception_class_enum_def)
qed

lemma PhysAddr_debug_inj: "PhysAddr_debug p = PhysAddr_debug q \<Longrightarrow> p = q"
  by (cases p; cases q) (auto simp: PhysAddr_debug_def word_unat_eq_iff dest: alt_hex_inj)

section \<open>Bitmaps\<close>

text \<open>The loop over the bytes that the iterator gives.\<close>

partial_function (option) debug_bytes :: "BitmapPageAlloc \<Rightarrow> ByteIter \<Rightarrow> string \<Rightarrow> string rust option" where
  "debug_bytes a it out =
     (case indices_next a it of
        Inl p \<Rightarrow> Some (Inl p)
      | Inr None \<Rightarrow> Some (Inr out)
      | Inr (Some (b, it')) \<Rightarrow>
          (case byte_at a b of
             Inl p \<Rightarrow> Some (Inl p)
           | Inr byte \<Rightarrow> debug_bytes a it' (out @ zero_pad 2 (lower_hex (unat byte)))))"

declare debug_bytes.simps [code]

definition BitmapPageAlloc_debug :: "BitmapPageAlloc \<Rightarrow> string rust option" where
  "BitmapPageAlloc_debug a =
     (case indices_from a 0 0 of
        Inl p \<Rightarrow> Some (Inl p)
      | Inr it \<Rightarrow> debug_bytes a it ''0x'')"

lemma debug_bytes_yields:
  assumes "shape a" and "yields a it (map (ix_of a) ns)" and "set ns \<subseteq> {..<nbytes a}"
  shows "debug_bytes a it out = Some (Inr (out @ concat (map (\<lambda>n. zero_pad 2 (lower_hex (unat (byte_val a n)))) ns)))"
  using assms(2,3)
proof (induction it "map (ix_of a) ns" arbitrary: ns out rule: yields.induct)
  case (stop it)
  then show ?case by (subst debug_bytes.simps) simp
next
  case (more it ix it' ixs)
  then obtain n ns' where ns: "ns = n # ns'" "ix = ix_of a n" "ixs = map (ix_of a) ns'"
    by (auto simp: Cons_eq_map_conv)
  with more show ?case
    by (subst debug_bytes.simps) (simp add: byte_at_ix_of [OF assms(1)])
qed

text \<open>The text shows distinct bytes of the bitmaps, two digits each, and leaves out only bytes for pages
  beyond the end of the memory.\<close>

lemma BitmapPageAlloc_debug_text:
  assumes "pa_inv a"
  obtains ns where "BitmapPageAlloc_debug a =
      Some (Inr (''0x'' @ concat (map (\<lambda>n. zero_pad 2 (lower_hex (unat (byte_val a n)))) ns)))"
    and "distinct ns" and "set ns \<subseteq> {..<nbytes a}"
    and "\<And>m. m < nbytes a \<Longrightarrow> m \<notin> set ns \<Longrightarrow> paddr (end_pa a) \<le> 8 * m * PS a"
proof -
  have sh: "shape a" and em: "paddr (end_pa a) \<le> npages a * PS a" using assms by (auto simp: pa_inv_def)
  obtain it ns where it: "indices_from a 0 0 = Inr it" "yields a it (map (ix_of a) ns)"
      "set ns \<subseteq> {..<nbytes a}" "distinct ns"
    and skip: "\<And>m. m < nbytes a \<Longrightarrow> m \<notin> set ns \<Longrightarrow> paddr (end_pa a) \<le> 8 * m * PS a"
    using indices_from_yields [OF sh, of 0 0 0] em shape_pos [OF sh] by auto
  from debug_bytes_yields [OF sh it(2,3), of "''0x''"] show thesis
    using it skip by (intro that) (simp_all add: BitmapPageAlloc_debug_def)
qed

end
