(* ===== verification/Mmio.thy ===== *)
theory Mmio
  imports Mem Fdt
begin

text \<open>
  Model of \<^verbatim>\<open>aarch64/src/io.rs\<close>: volatile accesses to device registers.

  The hardware is the argument \<open>bus\<close>: what a load returns, and how loads and stores change the
  state of the devices.  The state \<open>io\<close> of the program's side is the devices' state and the
  stores made so far, in order.  An action changes the state and returns a value, panics, or
  never returns (\<open>None\<close>).  Delays change nothing and are left out.
\<close>

section \<open>Actions\<close>

datatype access = Store8 usize u8 | Store32 usize u32 | Out8 u16 u8

record 'd bus =
  load8 :: "usize \<Rightarrow> 'd \<Rightarrow> u8 \<times> 'd"
  load32 :: "usize \<Rightarrow> 'd \<Rightarrow> u32 \<times> 'd"
  perform :: "access \<Rightarrow> 'd \<Rightarrow> 'd"

record 'd io =
  device :: 'd
  written :: "access list"

type_synonym ('d, 'a) act = "'d io \<Rightarrow> ('a \<times> 'd io) rust option"

definition ret_a :: "'a \<Rightarrow> ('d, 'a) act" where
  "ret_a a s = Some (Inr (a, s))"

definition bind_a :: "('d, 'a) act \<Rightarrow> ('a \<Rightarrow> ('d, 'b) act) \<Rightarrow> ('d, 'b) act" where
  "bind_a m f s =
     (case m s of None \<Rightarrow> None | Some (Inl p) \<Rightarrow> Some (Inl p) | Some (Inr (a, s')) \<Rightarrow> f a s')"

definition lift_a :: "'a rust \<Rightarrow> ('d, 'a) act" where
  "lift_a r s = Some (bind_r r (\<lambda>a. Inr (a, s)))"

definition store_a :: "'d bus \<Rightarrow> access \<Rightarrow> ('d, unit) act" where
  "store_a bus x s = Some (Inr ((), \<lparr>device = perform bus x (device s), written = written s @ [x]\<rparr>))"

definition load8_a :: "'d bus \<Rightarrow> usize \<Rightarrow> ('d, u8) act" where
  "load8_a bus a s = (let (v, d) = load8 bus a (device s) in Some (Inr (v, s\<lparr>device := d\<rparr>)))"

definition load32_a :: "'d bus \<Rightarrow> usize \<Rightarrow> ('d, u32) act" where
  "load32_a bus a s = (let (v, d) = load32 bus a (device s) in Some (Inr (v, s\<lparr>device := d\<rparr>)))"

named_theorems act_simps

lemma bind_a_ret [act_simps]: "bind_a (ret_a a) f = f a"
  by (simp add: bind_a_def ret_a_def fun_eq_iff)

lemma bind_a_lift [act_simps]:
  "bind_a (lift_a (Inr a)) f = f a" "bind_a (lift_a (Inl p)) f s = Some (Inl p)"
  by (simp_all add: bind_a_def lift_a_def fun_eq_iff)

lemma bind_a_assoc [act_simps]: "bind_a (bind_a m f) g = bind_a m (\<lambda>a. bind_a (f a) g)"
  by (simp add: bind_a_def fun_eq_iff split: option.split sum.split)

lemma bind_a_store [act_simps]:
  "bind_a (store_a bus x) f s = f () \<lparr>device = perform bus x (device s), written = written s @ [x]\<rparr>"
  by (simp add: bind_a_def store_a_def)

lemma bind_a_load32 [act_simps]:
  "bind_a (load32_a bus a) f s =
     f (fst (load32 bus a (device s))) (s\<lparr>device := snd (load32 bus a (device s))\<rparr>)"
  by (simp add: bind_a_def load32_a_def split: prod.split)

lemma bind_a_load8 [act_simps]:
  "bind_a (load8_a bus a) f s =
     f (fst (load8 bus a (device s))) (s\<lparr>device := snd (load8 bus a (device s))\<rparr>)"
  by (simp add: bind_a_def load8_a_def split: prod.split)

lemma bind_a_Some: "m s = Some (Inr (a, s')) \<Longrightarrow> bind_a m f s = f a s'"
  by (simp add: bind_a_def)

section \<open>Registers\<close>

definition reg_addr :: "VirtRange \<Rightarrow> usize \<Rightarrow> usize rust" where
  "reg_addr rng offset = bind_r (VirtRange_offset_addr rng offset) unwrap_r"

definition write_reg :: "'d bus \<Rightarrow> VirtRange \<Rightarrow> usize \<Rightarrow> u32 \<Rightarrow> ('d, unit) act" where
  "write_reg bus rng offset v = bind_a (lift_a (reg_addr rng offset)) (\<lambda>dst. store_a bus (Store32 dst v))"

definition write_or_reg :: "'d bus \<Rightarrow> VirtRange \<Rightarrow> usize \<Rightarrow> u32 \<Rightarrow> ('d, unit) act" where
  "write_or_reg bus rng offset v =
     bind_a (lift_a (reg_addr rng offset)) (\<lambda>dst.
     bind_a (load32_a bus dst) (\<lambda>old. store_a bus (Store32 dst (v OR old))))"

definition read_reg :: "'d bus \<Rightarrow> VirtRange \<Rightarrow> usize \<Rightarrow> ('d, u32) act" where
  "read_reg bus rng offset = bind_a (lift_a (reg_addr rng offset)) (load32_a bus)"

datatype GpioPull = Off | Down | Up

fun GpioPull_as_u32 :: "GpioPull \<Rightarrow> u32" where
  "GpioPull_as_u32 Off = 0"
| "GpioPull_as_u32 Down = 1"
| "GpioPull_as_u32 Up = 2"

text \<open>The loop \<open>while busy(read()) {}\<close>.\<close>

partial_function (option) poll :: "('d, 'v) act \<Rightarrow> ('v \<Rightarrow> bool) \<Rightarrow> ('d, 'v) act" where
  "poll rd busy s =
     (case rd s of
        None \<Rightarrow> None
      | Some (Inl p) \<Rightarrow> Some (Inl p)
      | Some (Inr (v, s')) \<Rightarrow> if busy v then poll rd busy s' else Some (Inr (v, s')))"

declare poll.simps [code]

text \<open>\<open>dt.find_compatible(name).next()\<close>, and the first register block of a node, translated.\<close>

fun seq_first :: "'a seq_r \<Rightarrow> 'a option rust" where
  "seq_first Done = Inr None"
| "seq_first (Fail p) = Inl p"
| "seq_first (Item x r) = Inr (Some x)"

definition first_reg :: "DeviceTree \<Rightarrow> Node option \<Rightarrow> RegBlock option rust" where
  "first_reg dt node =
     (case node of
        None \<Rightarrow> Inr None
      | Some n \<Rightarrow> bind_r (seq_first (property_translated_reg_iter dt n)) (\<lambda>r. Inr (Option.bind r regblock)))"

section \<open>In bounds\<close>

definition in_bounds :: "VirtRange \<Rightarrow> usize \<Rightarrow> bool" where
  "in_bounds rng offset \<longleftrightarrow> unat (vr_start rng) + unat offset < unat (vr_end rng)"

lemma unat_less_power64: "unat w < 2 ^ 64" for w :: usize
  using unsigned_less [of w] by simp

lemma reg_addr_in_bounds:
  assumes "in_bounds rng offset"
  shows "reg_addr rng offset = Inr (vr_start rng + offset)"
proof -
  have lt: "unat (vr_start rng) + unat offset < 2 ^ 64"
    using assms unat_less_power64 [of "vr_end rng"] by (simp add: in_bounds_def)
  then have "unat (vr_start rng + offset) = unat (vr_start rng) + unat offset"
    by (rule unat_add_usize)
  then have "vr_start rng \<le> vr_start rng + offset \<and> vr_start rng + offset < vr_end rng"
    using assms by (simp add: in_bounds_def word_le_nat_alt word_less_nat_alt)
  moreover have "add_c (vr_start rng) offset = Inr (vr_start rng + offset)"
    using lt by (rule add_c_usize)
  ultimately show ?thesis
    by (simp add: reg_addr_def VirtRange_offset_addr_def unwrap_r_def)
qed

text \<open>An access out of bounds panics.\<close>

lemma reg_addr_out_of_bounds:
  assumes "\<not> in_bounds rng offset"
  shows "\<exists>p. reg_addr rng offset = Inl p"
proof (cases "unat (vr_start rng) + unat offset < 2 ^ 64")
  case True
  then have "unat (vr_start rng + offset) = unat (vr_start rng) + unat offset" by (rule unat_add_usize)
  then have "\<not> vr_start rng + offset < vr_end rng"
    using assms by (simp add: in_bounds_def word_less_nat_alt)
  moreover have "add_c (vr_start rng) offset = Inr (vr_start rng + offset)"
    using True by (rule add_c_usize)
  ultimately show ?thesis by (simp add: reg_addr_def VirtRange_offset_addr_def unwrap_r_def)
next
  case False
  then show ?thesis by (simp add: reg_addr_def VirtRange_offset_addr_def add_c_alt)
qed

lemma in_bounds_shift:
  "in_bounds rng offset \<Longrightarrow> n \<le> offset \<Longrightarrow> in_bounds rng n"
  by (simp add: in_bounds_def word_le_nat_alt)

text \<open>The accesses at an address in bounds, alone and in a sequence.\<close>

lemma read_reg_eq: "reg_addr rng offset = Inr a \<Longrightarrow> read_reg bus rng offset = load32_a bus a"
  by (simp add: read_reg_def act_simps)

lemma write_reg_eq: "reg_addr rng offset = Inr a \<Longrightarrow> write_reg bus rng offset v = store_a bus (Store32 a v)"
  by (simp add: write_reg_def act_simps)

lemma write_or_reg_eq:
  "reg_addr rng offset = Inr a \<Longrightarrow>
   bind_a (write_or_reg bus rng offset v) f s =
     bind_a (load32_a bus a) (\<lambda>old. bind_a (store_a bus (Store32 a (v OR old))) f) s"
  by (simp only: write_or_reg_def bind_a_lift bind_a_assoc)

section \<open>Polling\<close>

text \<open>The device after \<open>k\<close> loads of a register.\<close>

definition spin :: "'d bus \<Rightarrow> usize \<Rightarrow> nat \<Rightarrow> 'd \<Rightarrow> 'd" where
  "spin bus a k = (\<lambda>d. snd (load32 bus a d)) ^^ k"

definition answer :: "'d bus \<Rightarrow> usize \<Rightarrow> nat \<Rightarrow> 'd \<Rightarrow> u32" where
  "answer bus a k d = fst (load32 bus a (spin bus a k d))"

lemma spin_simps [simp]: "spin bus a 0 d = d" "spin bus a (Suc k) d = spin bus a k (snd (load32 bus a d))"
  by (simp_all add: spin_def funpow_Suc_right del: funpow.simps)

lemma answer_simps [simp]:
  "answer bus a 0 d = fst (load32 bus a d)" "answer bus a (Suc k) d = answer bus a k (snd (load32 bus a d))"
  by (simp_all add: answer_def)

lemma poll_step:
  assumes "reg_addr rng offset = Inr a"
  shows "poll (read_reg bus rng offset) busy s =
    (let s' = s\<lparr>device := snd (load32 bus a (device s))\<rparr>; v = fst (load32 bus a (device s))
     in if busy v then poll (read_reg bus rng offset) busy s' else Some (Inr (v, s')))"
  by (subst poll.simps) (simp add: read_reg_def assms act_simps load32_a_def split: prod.split)

lemma poll_returns:
  assumes "reg_addr rng offset = Inr a"
  shows "\<not> busy (answer bus a k (device s)) \<Longrightarrow>
    \<exists>j v. j \<le> k \<and> \<not> busy v \<and> v = answer bus a j (device s) \<and>
      poll (read_reg bus rng offset) busy s = Some (Inr (v, s\<lparr>device := spin bus a (Suc j) (device s)\<rparr>))"
proof (induction k arbitrary: s)
  case 0
  then show ?case by (intro exI [of _ "0 :: nat"] exI) (simp add: poll_step [OF assms] Let_def)
next
  case (Suc k)
  show ?case
  proof (cases "busy (fst (load32 bus a (device s)))")
    case False
    then show ?thesis by (intro exI [of _ "0 :: nat"] exI) (simp add: poll_step [OF assms] Let_def)
  next
    case True
    let ?s = "s\<lparr>device := snd (load32 bus a (device s))\<rparr>"
    have "\<not> busy (answer bus a k (device ?s))" using Suc.prems by simp
    from Suc.IH [OF this] obtain j v where "j \<le> k" "\<not> busy v" "v = answer bus a j (device ?s)"
      "poll (read_reg bus rng offset) busy ?s = Some (Inr (v, ?s\<lparr>device := spin bus a (Suc j) (device ?s)\<rparr>))"
      by blast
    then show ?thesis using True
      by (intro exI [of _ "Suc j"]) (auto simp: poll_step [OF assms, of bus busy s] Let_def)
  qed
qed

lemma poll_only_returns:
  "poll rd busy s = Some y \<Longrightarrow> rd = load32_a bus a \<Longrightarrow> \<exists>k. \<not> busy (answer bus a k (device s))"
proof (induction rd busy s y rule: poll.raw_induct [rotated, consumes 1])
  case (1 g rd busy s z)
  show ?case
  proof (cases "busy (fst (load32 bus a (device s)))")
    case False
    then show ?thesis by (intro exI [of _ "0 :: nat"]) simp
  next
    case True
    with 1 have "g rd busy (s\<lparr>device := snd (load32 bus a (device s))\<rparr>) = Some z"
      by (simp add: load32_a_def split: prod.splits)
    from "1.IH" [OF this "1.prems"] obtain k
      where "\<not> busy (answer bus a k (device (s\<lparr>device := snd (load32 bus a (device s))\<rparr>)))" by blast
    then show ?thesis by (intro exI [of _ "Suc k"]) simp
  qed
qed

end
