(* ===== verification/Mailbox.thy ===== *)
theory Mailbox
  imports Mmio Kmem
begin

text \<open>
  Model of \<^verbatim>\<open>aarch64/src/mailbox.rs\<close>: requests to the board's firmware.

  A message is a 16-byte aligned struct in memory that the firmware reads and overwrites, so its
  words are stored and loaded on the bus; \<open>msg\<close> is its address, chosen by the compiler on the
  stack.  The generic parameters \<open>T\<close> and \<open>U\<close> appear as the words of the request's body, the
  size of the response's body and the action that loads it.  The static \<open>MAILBOX\<close> is an
  argument; its lock is held during a request.
\<close>

section \<open>Registers\<close>

definition MBOX_READ :: usize where "MBOX_READ = 0x00"
definition MBOX_STATUS :: usize where "MBOX_STATUS = 0x18"
definition MBOX_WRITE :: usize where "MBOX_WRITE = 0x20"
definition MBOX_FULL :: u32 where "MBOX_FULL = 0x80000000"
definition MBOX_EMPTY :: u32 where "MBOX_EMPTY = 0x40000000"

record Mailbox =
  mbox_range :: VirtRange

text \<open>The first register block of a node, moved to its virtual address.\<close>

definition mapped_range :: "DeviceTree \<Rightarrow> Node option \<Rightarrow> usize \<Rightarrow> VirtRange rust" where
  "mapped_range dt node mmio_virt_offset =
     bind_r (first_reg dt node) (\<lambda>r.
     bind_r (unwrap_r r) (\<lambda>reg.
     bind_r (RegBlock_with_offset reg mmio_virt_offset) VirtRange_from))"

definition Mailbox_new :: "DeviceTree \<Rightarrow> usize \<Rightarrow> Mailbox rust" where
  "Mailbox_new dt mmio_virt_offset =
     bind_r (seq_first (find_compatible dt (str_bytes ''brcm,bcm2835-mbox''))) (\<lambda>node.
     bind_r (mapped_range dt node mmio_virt_offset) (\<lambda>rng. Inr \<lparr>mbox_range = rng\<rparr>))"

definition mailbox_init :: "DeviceTree \<Rightarrow> Mailbox option rust" where
  "mailbox_init dt = bind_r (Mailbox_new dt KZERO) (\<lambda>mb. Inr (Some mb))"

section \<open>Requests\<close>

definition ArmToVc :: u32 where "ArmToVc = 8"

text \<open>The word that is written: the address of the message and the channel.\<close>

definition request_word :: "usize \<Rightarrow> u32" where
  "request_word msg = (let uart_mbox_u32 = ucast msg :: u32 in (uart_mbox_u32 AND NOT 0xF) OR ArmToVc)"

definition Mailbox_request :: "'d bus \<Rightarrow> Mailbox \<Rightarrow> usize \<Rightarrow> ('d, unit) act" where
  "Mailbox_request bus mb req =
     bind_a (poll (read_reg bus (mbox_range mb) MBOX_STATUS) (\<lambda>v. v AND MBOX_FULL \<noteq> 0)) (\<lambda>_.
     let r = request_word req
     in bind_a (write_reg bus (mbox_range mb) MBOX_WRITE r) (\<lambda>_.
        bind_a (poll (bind_a (poll (read_reg bus (mbox_range mb) MBOX_STATUS) (\<lambda>v. v AND MBOX_EMPTY \<noteq> 0)) (\<lambda>_.
                        read_reg bus (mbox_range mb) MBOX_READ)) (\<lambda>response. response \<noteq> r)) (\<lambda>_.
          ret_a ())))"

datatype TagId =
    GetFirmwareRevision
  | GetBoardModel
  | GetBoardRevision
  | GetBoardMacAddress
  | GetBoardSerial
  | GetArmMemory
  | GetVcMemory
  | SetClockRate

fun TagId_as_u32 :: "TagId \<Rightarrow> u32" where
  "TagId_as_u32 GetFirmwareRevision = 0x00000001"
| "TagId_as_u32 GetBoardModel = 0x00010001"
| "TagId_as_u32 GetBoardRevision = 0x00010002"
| "TagId_as_u32 GetBoardMacAddress = 0x00010003"
| "TagId_as_u32 GetBoardSerial = 0x00010004"
| "TagId_as_u32 GetArmMemory = 0x00010005"
| "TagId_as_u32 GetVcMemory = 0x00010006"
| "TagId_as_u32 SetClockRate = 0x00038002"

record Tag =
  tag_id0 :: TagId
  tag_buffer_size0 :: u32
  tag_code0 :: u32
  body :: "u32 list"
  end_tag :: u32

text \<open>\<open>size_of::<Message<T, U>>()\<close>: two words and a body, in a union aligned to 16 bytes.\<close>

definition size_of_Message :: "nat \<Rightarrow> nat \<Rightarrow> nat" where
  "size_of_Message t u = (max (8 + t) (8 + u) + 15) div 16 * 16"

definition Request_words :: "u32 \<Rightarrow> u32 \<Rightarrow> Tag \<Rightarrow> u32 list" where
  "Request_words sz code tags =
     [sz, code, TagId_as_u32 (tag_id0 tags), tag_buffer_size0 tags, tag_code0 tags] @ body tags @ [end_tag tags]"

fun store_words :: "'d bus \<Rightarrow> usize \<Rightarrow> u32 list \<Rightarrow> ('d, unit) act" where
  "store_words bus a [] = ret_a ()"
| "store_words bus a (w # ws) = bind_a (store_a bus (Store32 a w)) (\<lambda>_. store_words bus (a + 4) ws)"

text \<open>The body of a response begins after the message's two words and the tag's three.\<close>

definition response_body :: "usize \<Rightarrow> usize" where
  "response_body msg = msg + 20"

definition request ::
    "'d bus \<Rightarrow> Mailbox option \<Rightarrow> usize \<Rightarrow> u32 \<Rightarrow> Tag \<Rightarrow> nat \<Rightarrow> (usize \<Rightarrow> ('d, 'u) act) \<Rightarrow> ('d, 'u) act" where
  "request bus MAILBOX msg code tags size_of_U load_U =
     (let sz = word_of_nat (size_of_Message (4 * length (body tags)) size_of_U)
      in bind_a (store_words bus msg (Request_words sz code tags)) (\<lambda>_.
         bind_a (lift_a (unwrap_r MAILBOX)) (\<lambda>mailbox.
         bind_a (Mailbox_request bus mailbox msg) (\<lambda>_. load_U (response_body msg)))))"

section \<open>The requests of the kernel\<close>

text \<open>An \<open>EmptyRequest\<close> has no words.\<close>

definition empty_tag :: "TagId \<Rightarrow> u32 \<Rightarrow> Tag" where
  "empty_tag i buffer_size =
     \<lparr>tag_id0 = i, tag_buffer_size0 = buffer_size, tag_code0 = 0, body = [], end_tag = 0\<rparr>"

definition load_two :: "'d bus \<Rightarrow> usize \<Rightarrow> ('d, u32 \<times> u32) act" where
  "load_two bus a = bind_a (load32_a bus a) (\<lambda>x. bind_a (load32_a bus (a + 4)) (\<lambda>y. ret_a (x, y)))"

definition set_clock_rate :: "'d bus \<Rightarrow> Mailbox option \<Rightarrow> usize \<Rightarrow> u32 \<Rightarrow> u32 \<Rightarrow> u32 \<Rightarrow> ('d, unit) act" where
  "set_clock_rate bus MAILBOX msg clock_id rate_hz skip_setting_turbo =
     bind_a (request bus MAILBOX msg 0
        \<lparr>tag_id0 = SetClockRate, tag_buffer_size0 = 12, tag_code0 = 0,
         body = [clock_id, rate_hz, skip_setting_turbo], end_tag = 0\<rparr> 8 (load_two bus)) (\<lambda>_. ret_a ())"

text \<open>\<open>MemoryResponse\<close> to a range: the end is computed in 32 bits.\<close>

definition memory_range :: "u32 \<times> u32 \<Rightarrow> PhysRange rust" where
  "memory_range res =
     (let (start, size) = res
      in bind_r (add_c start size) (\<lambda>e. Inr (PhysRange_new (PhysAddr (ucast start)) (PhysAddr (ucast e)))))"

definition get_arm_memory :: "'d bus \<Rightarrow> Mailbox option \<Rightarrow> usize \<Rightarrow> ('d, PhysRange) act" where
  "get_arm_memory bus MAILBOX msg =
     bind_a (request bus MAILBOX msg 0 (empty_tag GetArmMemory 12) 8 (load_two bus)) (\<lambda>res. lift_a (memory_range res))"

definition get_vc_memory :: "'d bus \<Rightarrow> Mailbox option \<Rightarrow> usize \<Rightarrow> ('d, PhysRange) act" where
  "get_vc_memory bus MAILBOX msg =
     bind_a (request bus MAILBOX msg 0 (empty_tag GetVcMemory 12) 8 (load_two bus)) (\<lambda>res. lift_a (memory_range res))"

definition get_firmware_revision :: "'d bus \<Rightarrow> Mailbox option \<Rightarrow> usize \<Rightarrow> ('d, u32) act" where
  "get_firmware_revision bus MAILBOX msg =
     request bus MAILBOX msg 0 (empty_tag GetFirmwareRevision 4) 4 (load32_a bus)"

definition get_board_model :: "'d bus \<Rightarrow> Mailbox option \<Rightarrow> usize \<Rightarrow> ('d, u32) act" where
  "get_board_model bus MAILBOX msg = request bus MAILBOX msg 0 (empty_tag GetBoardModel 4) 4 (load32_a bus)"

definition get_board_revision :: "'d bus \<Rightarrow> Mailbox option \<Rightarrow> usize \<Rightarrow> ('d, u32) act" where
  "get_board_revision bus MAILBOX msg = request bus MAILBOX msg 0 (empty_tag GetBoardRevision 4) 4 (load32_a bus)"

text \<open>\<open>MacAddress\<close> is six bytes.\<close>

fun load_bytes :: "'d bus \<Rightarrow> nat \<Rightarrow> usize \<Rightarrow> ('d, u8 list) act" where
  "load_bytes bus 0 a = ret_a []"
| "load_bytes bus (Suc n) a =
     bind_a (load8_a bus a) (\<lambda>b. bind_a (load_bytes bus n (a + 1)) (\<lambda>bs. ret_a (b # bs)))"

definition get_board_macaddr :: "'d bus \<Rightarrow> Mailbox option \<Rightarrow> usize \<Rightarrow> ('d, u8 list) act" where
  "get_board_macaddr bus MAILBOX msg =
     request bus MAILBOX msg 0 (empty_tag GetBoardMacAddress 6) 6 (load_bytes bus 6)"

definition get_board_serial :: "'d bus \<Rightarrow> Mailbox option \<Rightarrow> usize \<Rightarrow> ('d, u64) act" where
  "get_board_serial bus MAILBOX msg =
     bind_a (request bus MAILBOX msg 0 (empty_tag GetBoardSerial 8) 8 (load_two bus)) (\<lambda>(r0, r1).
       ret_a (push_bit 32 (ucast r0) OR ucast r1))"

section \<open>The firmware's side\<close>

text \<open>
  A conversation in which the word \<open>r\<close> comes back: the status register at \<open>st\<close> shows an empty
  mailbox, or the read register at \<open>rd\<close> gives the reply to somebody else, until it gives \<open>r\<close>.
\<close>

inductive reply :: "'d bus \<Rightarrow> usize \<Rightarrow> usize \<Rightarrow> u32 \<Rightarrow> 'd \<Rightarrow> 'd \<Rightarrow> bool" for bus st rd r where
  waiting: "load32 bus st d = (v, d1) \<Longrightarrow> v AND MBOX_EMPTY \<noteq> 0 \<Longrightarrow> reply bus st rd r d1 d' \<Longrightarrow>
    reply bus st rd r d d'"
| other: "load32 bus st d = (v, d1) \<Longrightarrow> v AND MBOX_EMPTY = 0 \<Longrightarrow> load32 bus rd d1 = (w, d2) \<Longrightarrow> w \<noteq> r \<Longrightarrow>
    reply bus st rd r d2 d' \<Longrightarrow> reply bus st rd r d d'"
| mine: "load32 bus st d = (v, d1) \<Longrightarrow> v AND MBOX_EMPTY = 0 \<Longrightarrow> load32 bus rd d1 = (r, d') \<Longrightarrow>
    reply bus st rd r d d'"

text \<open>The mailbox has room at some time, and whenever the word is written its reply comes.\<close>

definition firmware_answers :: "'d bus \<Rightarrow> Mailbox \<Rightarrow> u32 \<Rightarrow> 'd \<Rightarrow> bool" where
  "firmware_answers bus mb r d \<longleftrightarrow>
     (let at = (\<lambda>offset. vr_start (mbox_range mb) + offset)
      in (\<exists>k. answer bus (at MBOX_STATUS) k d AND MBOX_FULL = 0) \<and>
         (\<forall>k. \<exists>d'. reply bus (at MBOX_STATUS) (at MBOX_READ) r
                (perform bus (Store32 (at MBOX_WRITE) r) (spin bus (at MBOX_STATUS) k d)) d'))"

lemma poll_then_read:
  assumes "reg_addr rng so = Inr st" and "reg_addr rng ro = Inr rd"
    and "load32 bus st d = (v, d1)" and "\<not> busy v" and "load32 bus rd d1 = (w, d2)"
  shows "bind_a (poll (read_reg bus rng so) busy) (\<lambda>_. read_reg bus rng ro) \<lparr>device = d, written = ws\<rparr> =
    Some (Inr (w, \<lparr>device = d2, written = ws\<rparr>))"
proof -
  have "poll (read_reg bus rng so) busy \<lparr>device = d, written = ws\<rparr> = Some (Inr (v, \<lparr>device = d1, written = ws\<rparr>))"
    using assms(3,4) by (simp add: poll_step [OF assms(1)])
  then show ?thesis using assms(5) by (simp add: bind_a_def read_reg_eq [OF assms(2)] load32_a_def)
qed

text \<open>The two nested loops return with the reply.\<close>

lemma wait_reply:
  assumes "reg_addr rng so = Inr st" and "reg_addr rng ro = Inr rd"
  shows "reply bus st rd r d d' \<Longrightarrow>
    poll (bind_a (poll (read_reg bus rng so) (\<lambda>v. v AND MBOX_EMPTY \<noteq> 0)) (\<lambda>_. read_reg bus rng ro))
      (\<lambda>response. response \<noteq> r) \<lparr>device = d, written = ws\<rparr> = Some (Inr (r, \<lparr>device = d', written = ws\<rparr>))"
    (is "_ \<Longrightarrow> poll ?m ?busy _ = _")
proof (induction rule: reply.induct)
  case (waiting d v d1 d')
  have "?m \<lparr>device = d, written = ws\<rparr> = ?m \<lparr>device = d1, written = ws\<rparr>"
    using waiting by (subst bind_a_def, subst poll_step [OF assms(1)]) (simp add: bind_a_def)
  then show ?case using waiting.IH
    by (subst poll.simps, subst (asm) poll.simps) simp
next
  case (other d v d1 w d2 d')
  have "?m \<lparr>device = d, written = ws\<rparr> = Some (Inr (w, \<lparr>device = d2, written = ws\<rparr>))"
    using poll_then_read [OF assms other(1) _ other(3)] other(2) by simp
  then show ?case using other by (subst poll.simps) simp
next
  case (mine d v d1 d')
  have "?m \<lparr>device = d, written = ws\<rparr> = Some (Inr (r, \<lparr>device = d', written = ws\<rparr>))"
    using poll_then_read [OF assms mine(1) _ mine(3)] mine(2) by simp
  then show ?case by (subst poll.simps) simp
qed

text \<open>The stores of a message and the devices after them.\<close>

fun word_stores :: "usize \<Rightarrow> u32 list \<Rightarrow> access list" where
  "word_stores a [] = []"
| "word_stores a (w # ws) = Store32 a w # word_stores (a + 4) ws"

lemma store_words_eq:
  "store_words bus a ws s =
     Some (Inr ((), \<lparr>device = fold (perform bus) (word_stores a ws) (device s), written = written s @ word_stores a ws\<rparr>))"
  by (induction ws arbitrary: a s) (simp_all add: act_simps ret_a_def)

lemma Mailbox_request_answered:
  assumes "in_bounds (mbox_range mb) MBOX_WRITE" and "firmware_answers bus mb (request_word msg) (device s)"
  shows "\<exists>k d'. reply bus (vr_start (mbox_range mb) + MBOX_STATUS) (vr_start (mbox_range mb) + MBOX_READ) (request_word msg)
      (perform bus (Store32 (vr_start (mbox_range mb) + MBOX_WRITE) (request_word msg))
        (spin bus (vr_start (mbox_range mb) + MBOX_STATUS) k (device s))) d' \<and>
    Mailbox_request bus mb msg s =
      Some (Inr ((), \<lparr>device = d', written = written s @ [Store32 (vr_start (mbox_range mb) + MBOX_WRITE) (request_word msg)]\<rparr>))"
proof -
  let ?at = "\<lambda>offset. vr_start (mbox_range mb) + offset"
  have a: "reg_addr (mbox_range mb) MBOX_STATUS = Inr (?at MBOX_STATUS)"
    "reg_addr (mbox_range mb) MBOX_READ = Inr (?at MBOX_READ)"
    "reg_addr (mbox_range mb) MBOX_WRITE = Inr (?at MBOX_WRITE)"
    by (intro reg_addr_in_bounds in_bounds_shift [OF assms(1)];
        simp add: MBOX_STATUS_def MBOX_READ_def MBOX_WRITE_def)+
  obtain k where "\<not> answer bus (?at MBOX_STATUS) k (device s) AND MBOX_FULL \<noteq> 0"
    using assms(2) by (auto simp: firmware_answers_def Let_def)
  from poll_returns [OF a(1), where busy = "\<lambda>v. v AND MBOX_FULL \<noteq> 0", OF this]
  obtain j v where p: "poll (read_reg bus (mbox_range mb) MBOX_STATUS) (\<lambda>v. v AND MBOX_FULL \<noteq> 0) s =
      Some (Inr (v, s\<lparr>device := spin bus (?at MBOX_STATUS) (Suc j) (device s)\<rparr>))" by blast
  obtain d' where r: "reply bus (?at MBOX_STATUS) (?at MBOX_READ) (request_word msg)
      (perform bus (Store32 (?at MBOX_WRITE) (request_word msg)) (spin bus (?at MBOX_STATUS) (Suc j) (device s))) d'"
    using assms(2) unfolding firmware_answers_def Let_def by blast
  have "Mailbox_request bus mb msg s =
      Some (Inr ((), \<lparr>device = d', written = written s @ [Store32 (?at MBOX_WRITE) (request_word msg)]\<rparr>))"
    using wait_reply [OF a(1,2) r]
    by (simp add: Mailbox_request_def bind_a_Some [of "poll _ _", OF p] Let_def write_reg_def a(3) act_simps bind_a_Some ret_a_def)
  with r show ?thesis by blast
qed

section \<open>Properties\<close>


text \<open>A board whose firmware answers at once that the memory is \<open>0x3c000000\<close> bytes from zero.\<close>

definition still_bus :: "(usize \<Rightarrow> u32) \<Rightarrow> unit bus" where
  "still_bus m = \<lparr>load8 = \<lambda>a d. (ucast (m a), d), load32 = \<lambda>a d. (m a, d), perform = \<lambda>x d. d\<rparr>"

definition example_mailbox :: Mailbox where
  "example_mailbox = \<lparr>mbox_range = \<lparr>vr_start = 0xffff80003f00b880, vr_end = 0xffff80003f00b8c0\<rparr>\<rparr>"

definition example_words :: "usize \<Rightarrow> u32" where
  "example_words = (\<lambda>_. 0)(0xffff80003f00b880 := 0x00085008, 0xffff800000085018 := 0x3c000000)"


text \<open>
  The word of a request names the message.  For a message in the kernel's direct map of the
  first 4 GiB, aligned to 16 bytes, the word carries the message's physical address in its upper
  28 bits and the channel in its lower four.
\<close>

theorem request_word_direct_map:
  assumes "pa < 2 ^ 32" and "16 dvd unat pa"
  shows "ucast (request_word (pa + KZERO) AND NOT 0xF) = pa \<and> request_word (pa + KZERO) AND 0xF = ArmToVc"
proof -
  define x where "x = (ucast (pa + KZERO) :: u32)"
  have lt: "unat pa < 2 ^ 32" using assms(1) by (simp add: word_less_nat_alt)
  have "unat x = (unat pa + unat KZERO) mod 2 ^ 64 mod 2 ^ 32"
    by (simp add: x_def unsigned_ucast_eq take_bit_eq_mod unat_word_ariths)
  also have "\<dots> = (unat pa + unat KZERO) mod 2 ^ 32" by (rule mod_mod_cancel) simp
  also have "\<dots> = unat pa" using lt by (simp add: KZERO_def mod_add_right_eq [of "unat pa", symmetric])
  finally have x: "unat x = unat pa" .
  have low: "\<not> bit x n" if "n < 4" for n
  proof -
    have "take_bit 4 (unat x) = 0" using assms(2) x by (simp add: take_bit_eq_0_iff)
    then have "\<not> bit (take_bit 4 (unat x)) n" by simp
    then show ?thesis using that by (simp add: bit_simps)
  qed
  have nib: "bit (0xF :: u32) n \<longleftrightarrow> n < 4" "bit (8 :: u32) n \<longleftrightarrow> n = 3" for n
  proof -
    have "(0xF :: u32) = mask 4" "(8 :: u32) = 2 ^ 3" by (simp_all add: mask_eq_exp_minus_1)
    then show "bit (0xF :: u32) n \<longleftrightarrow> n < 4" "bit (8 :: u32) n \<longleftrightarrow> n = 3"
      by (simp_all only: bit_mask_iff bit_exp_iff possible_bit_word) auto
  qed
  have w: "request_word (pa + KZERO) = (x AND NOT 0xF) OR 8"
    by (simp add: request_word_def ArmToVc_def x_def)
  have "((x AND NOT 0xF) OR 8) AND NOT 0xF = x"
    using low by (intro bit_word_eqI) (auto simp only: bit_or_iff bit_and_iff bit_not_iff possible_bit_word nib)
  moreover have "((x AND NOT 0xF) OR 8) AND 0xF = 8"
    using low by (intro bit_word_eqI) (auto simp only: bit_or_iff bit_and_iff bit_not_iff possible_bit_word nib)
  moreover have "ucast x = pa" using x lt by (simp add: unat_eq_iff [of _ pa] unsigned_ucast_eq take_bit_nat_eq_self_iff)
  ultimately show ?thesis by (simp only: w ArmToVc_def)
qed

theorem request_word_direct_map_witness:
  "ucast (request_word (0x85000 + KZERO) AND NOT 0xF) = (0x85000 :: usize) \<and> request_word (0x85000 + KZERO) AND 0xF = ArmToVc"
  by (rule request_word_direct_map) simp_all

text \<open>
  The size of a request is too small.  \<open>size_of::<Message<T, U>>\<close> leaves out the tag around
  the bodies: whatever the sizes of the two bodies, the size that a message carries is smaller
  than the bytes up to the end of its tag.
\<close>

theorem request_size_too_small:
  "hd (Request_words sz code tags) = sz \<and>
     size_of_Message (4 * length (body tags)) u < max (4 * length (Request_words sz code tags)) (24 + u)"
  by (auto simp: Request_words_def size_of_Message_def)

end
