(* ===== verification/Console.thy ===== *)
theory Console
  imports Mmio
begin

text \<open>
  Model of \<^verbatim>\<open>port/src/devcons.rs\<close>: the console over a UART.

  The trait \<open>Uart\<close> has the one operation \<open>putb\<close>, so a trait object is the action that sends a
  byte.  The static \<open>CONS\<close> is an argument; its lock is held for the whole operation.  The locale
  \<open>uart\<close> states what a driver promises, and the console's lemmas are proved from it once.
\<close>

section \<open>The console\<close>

type_synonym 'd uart_obj = "u8 \<Rightarrow> ('d, unit) act"

definition ctrl :: "u8 \<Rightarrow> u8" where "ctrl b = b - 0x40"

definition BACKSPACE :: u8 where "BACKSPACE = ctrl 0x48"

definition cons_putb :: "'d uart_obj \<Rightarrow> u8 \<Rightarrow> ('d, unit) act" where
  "cons_putb uart_putb b =
     bind_a (if b = 0x0a then uart_putb 0x0d
             else if b = BACKSPACE then bind_a (uart_putb b) (\<lambda>_. uart_putb 0x20)
             else ret_a ()) (\<lambda>_. uart_putb b)"

fun put_bytes :: "'d uart_obj \<Rightarrow> u8 list \<Rightarrow> ('d, unit) act" where
  "put_bytes uart_putb [] = ret_a ()"
| "put_bytes uart_putb (b # bs) = bind_a (cons_putb uart_putb b) (\<lambda>_. put_bytes uart_putb bs)"

definition Console_new :: "('d, 'd uart_obj) act \<Rightarrow> ('d, 'd uart_obj option) act" where
  "Console_new uart_fn = bind_a uart_fn (\<lambda>uart. ret_a (Some uart))"

definition Console_putstr :: "'d uart_obj option \<Rightarrow> u8 list \<Rightarrow> ('d, unit) act" where
  "Console_putstr CONS str = bind_a (lift_a (unwrap_r CONS)) (\<lambda>uart_putb. put_bytes uart_putb str)"

definition PanicConsole_putstr :: "'d uart_obj \<Rightarrow> u8 list \<Rightarrow> ('d, unit) act" where
  "PanicConsole_putstr uart_putb str = put_bytes uart_putb str"

section \<open>What a terminal sees\<close>

text \<open>A newline returns the carriage first, and a backspace wipes the character.\<close>

definition cooked :: "u8 list \<Rightarrow> u8 list" where
  "cooked bs = concat (map (\<lambda>b. if b = 0x0a then [0x0d, 0x0a] else if b = 0x08 then [0x08, 0x20, 0x08] else [b]) bs)"

lemma BACKSPACE_eq: "BACKSPACE = 0x08"
  by (simp add: BACKSPACE_def ctrl_def)

locale uart =
  fixes ready :: "'d io \<Rightarrow> bool"
    and sent :: "'d io \<Rightarrow> u8 list"
    and uart_putb :: "u8 \<Rightarrow> ('d, unit) act"
  assumes putb_sends: "ready s \<Longrightarrow> \<exists>s'. uart_putb b s = Some (Inr ((), s')) \<and> ready s' \<and> sent s' = sent s @ [b]"
begin

definition sends :: "('d, unit) act \<Rightarrow> u8 list \<Rightarrow> bool" where
  "sends m bs \<longleftrightarrow> (\<forall>s. ready s \<longrightarrow> (\<exists>s'. m s = Some (Inr ((), s')) \<and> ready s' \<and> sent s' = sent s @ bs))"

lemma sends_putb: "sends (uart_putb b) [b]"
  using putb_sends by (auto simp: sends_def)

lemma sends_ret: "sends (ret_a ()) []"
  by (simp add: sends_def ret_a_def)

lemma sends_seq:
  assumes "sends m bs" and "sends n cs"
  shows "sends (bind_a m (\<lambda>_. n)) (bs @ cs)"
  unfolding sends_def
proof (intro allI impI)
  fix s
  assume "ready s"
  then obtain s1 where 1: "m s = Some (Inr ((), s1))" "ready s1" "sent s1 = sent s @ bs"
    using assms(1) by (auto simp: sends_def)
  then obtain s2 where "n s1 = Some (Inr ((), s2))" "ready s2" "sent s2 = sent s1 @ cs"
    using assms(2) by (auto simp: sends_def)
  then show "\<exists>s'. bind_a m (\<lambda>_. n) s = Some (Inr ((), s')) \<and> ready s' \<and> sent s' = sent s @ bs @ cs"
    using 1 by (simp add: bind_a_Some)
qed

lemma sends_cons_putb: "sends (cons_putb uart_putb b) (cooked [b])"
  using sends_seq [OF sends_putb [of "0x0d"] sends_putb [of b]] sends_putb [of b]
    sends_seq [OF sends_putb [of b] sends_seq [OF sends_putb [of "0x20"] sends_putb [of b]]]
  by (auto simp: cons_putb_def cooked_def BACKSPACE_eq act_simps)

lemma sends_put_bytes: "sends (put_bytes uart_putb bs) (cooked bs)"
proof (induction bs)
  case Nil
  show ?case using sends_ret by (simp add: cooked_def)
next
  case (Cons b bs)
  from sends_seq [OF sends_cons_putb [of b] Cons.IH] show ?case by (simp add: cooked_def)
qed

lemma console_sends: "sends (Console_putstr (Some uart_putb) bs) (cooked bs)"
  using sends_put_bytes by (simp add: Console_putstr_def unwrap_r_def act_simps)

lemma panic_console_sends: "sends (PanicConsole_putstr uart_putb bs) (cooked bs)"
  using sends_put_bytes by (simp add: PanicConsole_putstr_def)

end

text \<open>Before a console is set up, printing panics.\<close>

lemma no_console: "Console_putstr None bs s = Some (Inl Unwrap_Failed)"
  by (simp add: Console_putstr_def unwrap_r_def act_simps)

end
