(* ===== verification/Uarts.thy ===== *)
theory Uarts
  imports Console Mailbox Registers
begin

text \<open>
  Models of the UART drivers and of the ports' console set-up: \<^verbatim>\<open>aarch64/src/uartmini.rs\<close>,
  \<^verbatim>\<open>uartpl011.rs\<close>, \<^verbatim>\<open>devcons.rs\<close> and the console of the panic handler in \<^verbatim>\<open>runtime.rs\<close>,
  \<^verbatim>\<open>riscv64/src/uart16550.rs\<close> with the two \<^verbatim>\<open>devcons.rs\<close> of its platforms, and
  \<^verbatim>\<open>x86_64/src/devcons.rs\<close>, \<^verbatim>\<open>uart16550.rs\<close> and \<^verbatim>\<open>pio.rs\<close>.
\<close>

section \<open>Mini UART\<close>

definition GPFSEL1 :: usize where "GPFSEL1 = 0x04"
definition GPPUD :: usize where "GPPUD = 0x94"
definition GPPUDCLK0 :: usize where "GPPUDCLK0 = 0x98"
definition AUX_ENABLE :: usize where "AUX_ENABLE = 0x04"
definition AUX_MU_IO :: usize where "AUX_MU_IO = 0x00"
definition AUX_MU_IER :: usize where "AUX_MU_IER = 0x04"
definition AUX_MU_IIR :: usize where "AUX_MU_IIR = 0x08"
definition AUX_MU_LCR :: usize where "AUX_MU_LCR = 0x0c"
definition AUX_MU_MCR :: usize where "AUX_MU_MCR = 0x10"
definition AUX_MU_LSR :: usize where "AUX_MU_LSR = 0x14"
definition AUX_MU_CNTL :: usize where "AUX_MU_CNTL = 0x20"
definition AUX_MU_BAUD :: usize where "AUX_MU_BAUD = 0x28"

record MiniUart =
  gpio_range :: VirtRange
  aux_range :: VirtRange
  miniuart_range :: VirtRange

definition MiniUart_new :: "DeviceTree \<Rightarrow> usize \<Rightarrow> MiniUart rust" where
  "MiniUart_new dt mmio_virt_offset =
     bind_r (seq_first (find_compatible dt (str_bytes ''brcm,bcm2835-gpio''))) (\<lambda>n1.
     bind_r (case n1 of
               Some n \<Rightarrow> Inr (Some n)
             | None \<Rightarrow> seq_first (find_compatible dt (str_bytes ''brcm,bcm2711-gpio''))) (\<lambda>gpio.
     bind_r (mapped_range dt gpio mmio_virt_offset) (\<lambda>gpio_rng.
     bind_r (seq_first (find_compatible dt (str_bytes ''brcm,bcm2835-aux''))) (\<lambda>aux.
     bind_r (mapped_range dt aux mmio_virt_offset) (\<lambda>aux_rng.
     bind_r (seq_first (find_compatible dt (str_bytes ''brcm,bcm2835-aux-uart''))) (\<lambda>mini.
     bind_r (mapped_range dt mini mmio_virt_offset) (\<lambda>mini_rng.
       Inr \<lparr>gpio_range = gpio_rng, aux_range = aux_rng, miniuart_range = mini_rng\<rparr>)))))))"

definition MiniUart_init :: "'d bus \<Rightarrow> MiniUart \<Rightarrow> ('d, unit) act" where
  "MiniUart_init bus u =
     bind_a (read_reg bus (gpio_range u) GPFSEL1) (\<lambda>gpfsel1.
     let gpfsel1 = gpfsel1 AND NOT (push_bit 12 7 OR push_bit 15 7);
         gpfsel1 = gpfsel1 OR (push_bit 12 2 OR push_bit 15 2)
     in
     bind_a (write_reg bus (gpio_range u) GPFSEL1 gpfsel1) (\<lambda>_.
     bind_a (write_reg bus (gpio_range u) GPPUD 0) (\<lambda>_.
     bind_a (write_reg bus (gpio_range u) GPPUDCLK0 (push_bit 14 1 OR push_bit 15 1)) (\<lambda>_.
     bind_a (write_reg bus (gpio_range u) GPPUDCLK0 0) (\<lambda>_.
     bind_a (write_or_reg bus (aux_range u) AUX_ENABLE 1) (\<lambda>_.
     bind_a (write_reg bus (miniuart_range u) AUX_MU_CNTL 0) (\<lambda>_.
     bind_a (write_reg bus (miniuart_range u) AUX_MU_LCR 3) (\<lambda>_.
     bind_a (write_reg bus (miniuart_range u) AUX_MU_MCR 0) (\<lambda>_.
     bind_a (write_reg bus (miniuart_range u) AUX_MU_IER 0) (\<lambda>_.
     bind_a (write_reg bus (miniuart_range u) AUX_MU_IIR 0xc6) (\<lambda>_.
     bind_a (write_reg bus (miniuart_range u) AUX_MU_BAUD 270) (\<lambda>_.
       write_reg bus (miniuart_range u) AUX_MU_CNTL 3))))))))))))"

definition MiniUart_putb :: "'d bus \<Rightarrow> MiniUart \<Rightarrow> u8 \<Rightarrow> ('d, unit) act" where
  "MiniUart_putb bus u b =
     bind_a (poll (read_reg bus (miniuart_range u) AUX_MU_LSR) (\<lambda>v. v AND push_bit 5 1 = 0)) (\<lambda>_.
       write_reg bus (miniuart_range u) AUX_MU_IO (ucast b))"

section \<open>PL011\<close>

definition UART0_DR :: usize where "UART0_DR = 0x00"
definition UART0_FR :: usize where "UART0_FR = 0x18"
definition UART0_IBRD :: usize where "UART0_IBRD = 0x24"
definition UART0_FBRD :: usize where "UART0_FBRD = 0x28"
definition UART0_LCRH :: usize where "UART0_LCRH = 0x2c"
definition UART0_CR :: usize where "UART0_CR = 0x30"
definition UART0_IMSC :: usize where "UART0_IMSC = 0x38"
definition UART0_ICR :: usize where "UART0_ICR = 0x44"

record Pl011Uart =
  pl_gpio_range :: VirtRange
  pl011_range :: VirtRange

text \<open>The ranges are the physical ones.\<close>

definition unmapped_range :: "DeviceTree \<Rightarrow> Node option \<Rightarrow> VirtRange rust" where
  "unmapped_range dt node = bind_r (first_reg dt node) (\<lambda>r. bind_r (unwrap_r r) VirtRange_from)"

definition Pl011Uart_new :: "DeviceTree \<Rightarrow> Pl011Uart rust" where
  "Pl011Uart_new dt =
     bind_r (seq_first (find_compatible dt (str_bytes ''brcm,bcm2835-gpio''))) (\<lambda>gpio.
     bind_r (unmapped_range dt gpio) (\<lambda>gpio_rng.
     bind_r (seq_first (find_compatible dt (str_bytes ''arm,pl011''))) (\<lambda>pl.
     bind_r (unmapped_range dt pl) (\<lambda>pl_rng.
       Inr \<lparr>pl_gpio_range = gpio_rng, pl011_range = pl_rng\<rparr>))))"

definition gpiosetpull :: "'d bus \<Rightarrow> Pl011Uart \<Rightarrow> u32 \<Rightarrow> GpioPull \<Rightarrow> ('d, unit) act" where
  "gpiosetpull bus u pin pull =
     (let reg_offset = ucast pin div 32 :: usize;
          pud_bit = push_bit (unat (pin mod 32)) 1 :: u32;
          gppudclk_reg = GPPUDCLK0 + reg_offset * 4
      in
      bind_a (write_reg bus (pl011_range u) GPPUD (GpioPull_as_u32 pull)) (\<lambda>_.
      bind_a (write_reg bus (pl011_range u) gppudclk_reg pud_bit) (\<lambda>_.
      bind_a (write_reg bus (pl011_range u) GPPUD 0) (\<lambda>_.
        write_reg bus (pl011_range u) gppudclk_reg 0))))"

text \<open>
  The divisor's whole part and its rest in 64ths, rounded.  The code computes them in \<open>f32\<close>; the
  quotients 1.6276 and 40.67 are far from whole numbers, so the rounding to \<open>f32\<close> does not matter.
\<close>

definition int_brd :: "nat \<Rightarrow> nat \<Rightarrow> nat" where
  "int_brd clock_hz baud_rate = clock_hz div (16 * baud_rate)"

definition frac_brd :: "nat \<Rightarrow> nat \<Rightarrow> nat" where
  "frac_brd clock_hz baud_rate =
     (let d = 16 * baud_rate in (2 * 64 * (clock_hz mod d) + d) div (2 * d))"

definition Pl011Uart_init :: "'d bus \<Rightarrow> Mailbox option \<Rightarrow> usize \<Rightarrow> Pl011Uart \<Rightarrow> ('d, unit) act" where
  "Pl011Uart_init bus MAILBOX msg u =
     bind_a (write_reg bus (pl011_range u) UART0_CR 0) (\<lambda>_.
     bind_a (gpiosetpull bus u 14 Off) (\<lambda>_.
     bind_a (gpiosetpull bus u 15 Off) (\<lambda>_.
     bind_a (write_reg bus (pl011_range u) UART0_ICR 0x7ff) (\<lambda>_.
     bind_a (set_clock_rate bus MAILBOX msg 2 3000000 0) (\<lambda>_.
     bind_a (write_reg bus (pl011_range u) UART0_IBRD (word_of_nat (int_brd 3000000 115200))) (\<lambda>_.
     bind_a (write_reg bus (pl011_range u) UART0_FBRD (word_of_nat (frac_brd 3000000 115200))) (\<lambda>_.
     bind_a (write_reg bus (pl011_range u) UART0_LCRH 0x70) (\<lambda>_.
     bind_a (write_reg bus (pl011_range u) UART0_IMSC 0x7f2) (\<lambda>_.
       write_reg bus (pl011_range u) UART0_CR 0x81)))))))))"

definition Pl011Uart_putb :: "'d bus \<Rightarrow> Pl011Uart \<Rightarrow> u8 \<Rightarrow> ('d, unit) act" where
  "Pl011Uart_putb bus u b =
     bind_a (poll (read_reg bus (pl011_range u) UART0_FR) (\<lambda>v. v AND push_bit 5 1 \<noteq> 0)) (\<lambda>_.
       write_reg bus (pl011_range u) UART0_DR (ucast b))"

section \<open>16550 of the RISC-V boards\<close>

text \<open>\<open>ptr.add(n)\<close> on the address of the register block.\<close>

definition ns_write :: "'d bus \<Rightarrow> RegBlock \<Rightarrow> usize \<Rightarrow> u8 \<Rightarrow> ('d, unit) act" where
  "ns_write bus reg n v = store_a bus (Store8 (rb_addr reg + n) v)"

definition Uart16550_putb :: "'d bus \<Rightarrow> RegBlock \<Rightarrow> u8 \<Rightarrow> ('d, unit) act" where
  "Uart16550_putb bus reg b = ns_write bus reg 0 b"

definition baud_divisor :: "u32 \<Rightarrow> u16 rust" where
  "baud_divisor baud =
     bind_r (mul_c baud 16) (\<lambda>d. if d = 0 then Inl Div_By_Zero else Inr (ucast (2227900 div d)))"

definition Uart16550_init :: "'d bus \<Rightarrow> RegBlock \<Rightarrow> u32 \<Rightarrow> ('d, unit) act" where
  "Uart16550_init bus reg baud =
     (let lcr = 3 :: u8
      in
      bind_a (ns_write bus reg 3 lcr) (\<lambda>_.
      bind_a (ns_write bus reg 2 1) (\<lambda>_.
      bind_a (ns_write bus reg 1 1) (\<lambda>_.
      bind_a (lift_a (baud_divisor baud)) (\<lambda>divisor.
      let divisor_least = ucast (divisor AND 0xff); divisor_most = ucast (drop_bit 8 divisor)
      in
      bind_a (ns_write bus reg 3 (lcr OR push_bit 7 1)) (\<lambda>_.
      bind_a (ns_write bus reg 0 divisor_least) (\<lambda>_.
      bind_a (ns_write bus reg 1 divisor_most) (\<lambda>_.
        ns_write bus reg 3 lcr))))))))"

definition Uart16550_put :: "'d bus \<Rightarrow> RegBlock \<Rightarrow> u8 \<Rightarrow> ('d, unit) act" where
  "Uart16550_put bus reg c = ns_write bus reg 0 c"

fun Uart16550_write_str :: "'d bus \<Rightarrow> RegBlock \<Rightarrow> u8 list \<Rightarrow> ('d, unit) act" where
  "Uart16550_write_str bus reg [] = ret_a ()"
| "Uart16550_write_str bus reg (c # out) = bind_a (Uart16550_put bus reg c) (\<lambda>_. Uart16550_write_str bus reg out)"

definition Uart16550_get :: "'d bus \<Rightarrow> RegBlock \<Rightarrow> ('d, u8 option) act" where
  "Uart16550_get bus reg =
     bind_a (load8_a bus (rb_addr reg + 5)) (\<lambda>lsr.
       if lsr AND 1 = 0 then ret_a None
       else bind_a (load8_a bus (rb_addr reg)) (\<lambda>b. ret_a (Some b)))"

section \<open>16550 of the PC\<close>

definition outb :: "'d bus \<Rightarrow> u16 \<Rightarrow> u8 \<Rightarrow> ('d, unit) act" where
  "outb bus p b = store_a bus (Out8 p b)"

definition pc_putb :: "'d bus \<Rightarrow> u16 \<Rightarrow> u8 \<Rightarrow> ('d, unit) act" where
  "pc_putb bus p b = outb bus p b"

section \<open>Setting up the consoles\<close>

text \<open>\<open>devcons::init\<close> of the ports: the new value of \<open>CONS\<close>.\<close>

definition aarch64_devcons_init :: "'d bus \<Rightarrow> DeviceTree \<Rightarrow> ('d, 'd uart_obj option) act" where
  "aarch64_devcons_init bus dt =
     Console_new (bind_a (lift_a (MiniUart_new dt KZERO)) (\<lambda>u.
       bind_a (MiniUart_init bus u) (\<lambda>_. ret_a (MiniUart_putb bus u))))"

definition riscv_devcons_init :: "string \<Rightarrow> 'd bus \<Rightarrow> DeviceTree \<Rightarrow> ('d, 'd uart_obj option) act" where
  "riscv_devcons_init compatible bus dt =
     bind_a (lift_a (bind_r (seq_first (find_compatible dt (str_bytes compatible))) (\<lambda>node.
       bind_r (first_reg dt node) unwrap_r))) (\<lambda>reg.
     Console_new (bind_a (Uart16550_init bus reg 115200) (\<lambda>_. ret_a (Uart16550_putb bus reg))))"

definition virt_devcons_init :: "'d bus \<Rightarrow> DeviceTree \<Rightarrow> ('d, 'd uart_obj option) act" where
  "virt_devcons_init = riscv_devcons_init ''ns16550a''"

definition nezha_devcons_init :: "'d bus \<Rightarrow> DeviceTree \<Rightarrow> ('d, 'd uart_obj option) act" where
  "nezha_devcons_init = riscv_devcons_init ''uart0''"

definition x86_64_devcons_init :: "'d bus \<Rightarrow> ('d, 'd uart_obj option) act" where
  "x86_64_devcons_init bus = Console_new (ret_a (pc_putb bus 0x3f8))"

text \<open>The UART that the panic handler of the aarch64 port finds without a devicetree.\<close>

definition panic_uart :: "MidrEl1 \<Rightarrow> MiniUart rust" where
  "panic_uart midr =
     bind_r (rpi_mmio midr) (\<lambda>mm.
     bind_r (unwrap_r mm) (\<lambda>rng.
     let mmio = physaddr_as_virt (pr_start rng)
     in bind_r (add_c mmio 0x200000) (\<lambda>g.
        bind_r (VirtRange_with_len g 0xb4) (\<lambda>gpio_rng.
        bind_r (add_c mmio 0x215000) (\<lambda>a.
        bind_r (VirtRange_with_len a 0x8) (\<lambda>aux_rng.
        bind_r (add_c mmio 0x215040) (\<lambda>m.
        bind_r (VirtRange_with_len m 0x40) (\<lambda>mini_rng.
          Inr \<lparr>gpio_range = gpio_rng, aux_range = aux_rng, miniuart_range = mini_rng\<rparr>))))))))"

definition panic_print :: "'d bus \<Rightarrow> MidrEl1 \<Rightarrow> u8 list \<Rightarrow> ('d, unit) act" where
  "panic_print bus midr info =
     bind_a (lift_a (panic_uart midr)) (\<lambda>u. PanicConsole_putstr (MiniUart_putb bus u) (info @ [0x0a]))"

end
