(* ===== verification/Uarts_Correct.thy ===== *)
theory Uarts_Correct
  imports Uarts
begin

text \<open>
  What the consoles send: every driver meets the contract of the locale \<open>uart\<close>, on hardware that
  becomes ready to transmit again and again where the driver waits for that.
\<close>

section \<open>Devices that become ready\<close>

text \<open>A register that stops being busy after finitely many reads, now and after every access.\<close>

coinductive live :: "'d bus \<Rightarrow> usize \<Rightarrow> (u32 \<Rightarrow> bool) \<Rightarrow> 'd \<Rightarrow> bool" for bus a busy where
  liveI: "\<not> busy (answer bus a k d) \<Longrightarrow> (\<And>a'. live bus a busy (snd (load32 bus a' d))) \<Longrightarrow>
    (\<And>x. live bus a busy (perform bus x d)) \<Longrightarrow> live bus a busy d"

inductive_cases liveE: "live bus a busy d"

lemma live_spin: "live bus a busy d \<Longrightarrow> live bus a busy (spin bus a' k d)"
proof (induction k arbitrary: d)
  case 0
  then show ?case by simp
next
  case (Suc k)
  from Suc.prems have "live bus a busy (snd (load32 bus a' d))" by (rule liveE)
  from Suc.IH [OF this] show ?case by simp
qed

text \<open>The bytes that were stored to a 32-bit register, to an 8-bit register and to a port.\<close>

definition sent32 :: "usize \<Rightarrow> 'd io \<Rightarrow> u8 list" where
  "sent32 a s = concat (map (\<lambda>x. case x of Store32 b v \<Rightarrow> if a = b then [ucast v] else [] | _ \<Rightarrow> []) (written s))"

definition sent8 :: "usize \<Rightarrow> 'd io \<Rightarrow> u8 list" where
  "sent8 a s = concat (map (\<lambda>x. case x of Store8 b v \<Rightarrow> if a = b then [v] else [] | _ \<Rightarrow> []) (written s))"

definition sent_port :: "u16 \<Rightarrow> 'd io \<Rightarrow> u8 list" where
  "sent_port p s = concat (map (\<lambda>x. case x of Out8 q v \<Rightarrow> if p = q then [v] else [] | _ \<Rightarrow> []) (written s))"

lemma ucast_down_up: "ucast (ucast b :: u32) = b" for b :: u8
  by (rule bit_word_eqI) (simp add: bit_simps)

text \<open>Waiting on a status register and then storing a byte.\<close>

lemma polled_putb:
  assumes "in_bounds rng so" and "in_bounds rng dr" and "live bus (vr_start rng + so) busy (device s)"
  shows "\<exists>s'. bind_a (poll (read_reg bus rng so) busy) (\<lambda>_. write_reg bus rng dr (ucast b)) s = Some (Inr ((), s')) \<and>
    live bus (vr_start rng + so) busy (device s') \<and>
    sent32 (vr_start rng + dr) s' = sent32 (vr_start rng + dr) s @ [b]"
proof -
  note a = reg_addr_in_bounds [OF assms(1)] reg_addr_in_bounds [OF assms(2)]
  from assms(3) obtain k where "\<not> busy (answer bus (vr_start rng + so) k (device s))" by (rule liveE)
  from poll_returns [OF a(1), of busy, OF this] obtain j v where
    p: "poll (read_reg bus rng so) busy s =
      Some (Inr (v, s\<lparr>device := spin bus (vr_start rng + so) (Suc j) (device s)\<rparr>))" by blast
  have "live bus (vr_start rng + so) busy (spin bus (vr_start rng + so) (Suc j) (device s))"
    by (rule live_spin [OF assms(3)])
  then have "live bus (vr_start rng + so) busy
      (perform bus (Store32 (vr_start rng + dr) (ucast b)) (spin bus (vr_start rng + so) (Suc j) (device s)))"
    by (rule liveE)
  then show ?thesis
    by (simp add: bind_a_Some [of "poll _ _", OF p] write_reg_def a(2) act_simps store_a_def sent32_def ucast_down_up)
qed

lemma sent32_new: "sent32 a \<lparr>device = d, written = []\<rparr> = []"
  by (simp add: sent32_def)

section \<open>The drivers\<close>

definition mini_ready :: "'d bus \<Rightarrow> MiniUart \<Rightarrow> 'd io \<Rightarrow> bool" where
  "mini_ready bus u s \<longleftrightarrow> in_bounds (miniuart_range u) AUX_MU_LSR \<and>
     live bus (vr_start (miniuart_range u) + AUX_MU_LSR) (\<lambda>v. v AND push_bit 5 1 = 0) (device s)"

definition pl011_ready :: "'d bus \<Rightarrow> Pl011Uart \<Rightarrow> 'd io \<Rightarrow> bool" where
  "pl011_ready bus u s \<longleftrightarrow> in_bounds (pl011_range u) UART0_FR \<and>
     live bus (vr_start (pl011_range u) + UART0_FR) (\<lambda>v. v AND push_bit 5 1 \<noteq> 0) (device s)"

interpretation mini_uart: uart "mini_ready bus u" "sent32 (vr_start (miniuart_range u) + AUX_MU_IO)" "MiniUart_putb bus u"
  for bus u
proof
  fix s b
  assume r: "mini_ready bus u s"
  then have b: "in_bounds (miniuart_range u) AUX_MU_LSR" "in_bounds (miniuart_range u) AUX_MU_IO"
    by (auto simp: mini_ready_def AUX_MU_IO_def AUX_MU_LSR_def elim: in_bounds_shift)
  from polled_putb [OF b, of bus "\<lambda>v. v AND push_bit 5 1 = 0" s b] r
  show "\<exists>s'. MiniUart_putb bus u b s = Some (Inr ((), s')) \<and> mini_ready bus u s' \<and>
      sent32 (vr_start (miniuart_range u) + AUX_MU_IO) s' = sent32 (vr_start (miniuart_range u) + AUX_MU_IO) s @ [b]"
    by (simp add: MiniUart_putb_def mini_ready_def)
qed

interpretation pl011_uart: uart "pl011_ready bus u" "sent32 (vr_start (pl011_range u) + UART0_DR)" "Pl011Uart_putb bus u"
  for bus u
proof
  fix s b
  assume r: "pl011_ready bus u s"
  then have b: "in_bounds (pl011_range u) UART0_FR" "in_bounds (pl011_range u) UART0_DR"
    by (auto simp: pl011_ready_def UART0_DR_def UART0_FR_def elim: in_bounds_shift)
  from polled_putb [OF b, of bus "\<lambda>v. v AND push_bit 5 1 \<noteq> 0" s b] r
  show "\<exists>s'. Pl011Uart_putb bus u b s = Some (Inr ((), s')) \<and> pl011_ready bus u s' \<and>
      sent32 (vr_start (pl011_range u) + UART0_DR) s' = sent32 (vr_start (pl011_range u) + UART0_DR) s @ [b]"
    by (simp add: Pl011Uart_putb_def pl011_ready_def)
qed

interpretation ns16550_uart: uart "\<lambda>_. True" "sent8 (rb_addr reg)" "Uart16550_putb bus reg" for bus reg
  by unfold_locales (simp add: Uart16550_putb_def ns_write_def store_a_def sent8_def)

interpretation pc_uart: uart "\<lambda>_. True" "sent_port p" "pc_putb bus p" for bus p
  by unfold_locales (simp add: pc_putb_def outb_def store_a_def sent_port_def)

section \<open>Function select\<close>

text \<open>Function 2 for the pins 14 and 15, which have three bits each from bit 12 on.\<close>

definition pins_14_15 :: "u32 \<Rightarrow> u32" where
  "pins_14_15 v = (v AND NOT (push_bit 12 7 OR push_bit 15 7)) OR (push_bit 12 2 OR push_bit 15 2)"

lemma pins_14_15_bit:
  assumes "n < 32"
  shows "bit (pins_14_15 v) n \<longleftrightarrow> n = 13 \<or> n = 16 \<or> (n < 12 \<or> 18 \<le> n) \<and> bit v n"
proof -
  have 7: "(7 :: u32) = mask 3" and 2: "(2 :: u32) = push_bit 1 1" by (simp_all add: mask_eq_exp_minus_1)
  show ?thesis using assms
    by (auto simp only: pins_14_15_def 7 2 bit_or_iff bit_and_iff bit_not_iff bit_push_bit_iff bit_mask_iff possible_bit_word
        push_bit_push_bit bit_1_iff) auto
qed

lemma pins_14_15_bits:
  "field 12 15 (pins_14_15 v) = 2 \<and> field 15 18 (pins_14_15 v) = 2 \<and>
   (\<forall>n. n < 12 \<or> 18 \<le> n \<longrightarrow> bit (pins_14_15 v) n = bit v n)"
proof -
  have two: "bit (2 :: u32) n \<longleftrightarrow> n = 1" for n using bit_exp_iff [of 1 n, where ?'a = u32] by auto
  have f: "field lo (lo + 3) (pins_14_15 v) = 2" if "lo = 12 \<or> lo = 15" for lo
  proof (rule bit_word_eqI)
    fix n
    assume "n < LENGTH(32)"
    show "bit (field lo (lo + 3) (pins_14_15 v)) n \<longleftrightarrow> bit (2 :: u32) n"
      unfolding two bit_field_iff using that by (auto simp: pins_14_15_bit)
  qed
  have "bit (pins_14_15 v) n = bit v n" if "n < 12 \<or> 18 \<le> n" for n
    using that pins_14_15_bit [of n v] bit_imp_le_length [of v n] bit_imp_le_length [of "pins_14_15 v" n] by auto
  then show ?thesis using f [of 12] f [of 15] by simp
qed

lemmas mini_registers = GPFSEL1_def GPPUD_def GPPUDCLK0_def AUX_ENABLE_def AUX_MU_IO_def AUX_MU_IER_def AUX_MU_IIR_def
  AUX_MU_LCR_def AUX_MU_MCR_def AUX_MU_LSR_def AUX_MU_CNTL_def AUX_MU_BAUD_def

section \<open>Examples\<close>

text \<open>A UART of the Raspberry Pi 3 that is ready at every fourth read of its status.\<close>

definition slow_bus :: "nat bus" where
  "slow_bus = \<lparr>load8 = \<lambda>a d. (0, d), load32 = \<lambda>a d. (if d mod 4 = 3 then 0x20 else 0, Suc d), perform = \<lambda>x d. d\<rparr>"

lemma slow_spin: "spin slow_bus a k d = d + k"
  by (induction k arbitrary: d) (simp_all add: slow_bus_def)

lemma slow_live: "live slow_bus a (\<lambda>v. v AND push_bit 5 1 = 0) d"
proof (coinduction arbitrary: d rule: live.coinduct)
  case live
  have "d mod 4 + (3 - d mod 4) = 3" using mod_less_divisor [of 4 d] by simp
  then have "(d + (3 - d mod 4)) mod 4 = 3" using mod_add_left_eq [of d 4 "3 - d mod 4"] by simp
  then have "answer slow_bus a (3 - d mod 4) d = 0x20" by (simp add: answer_def slow_spin) (simp add: slow_bus_def)
  then have "answer slow_bus a (3 - d mod 4) d AND push_bit 5 1 \<noteq> 0" by (simp add: push_bit_eq_mult)
  then show ?case by blast
qed

section \<open>Properties\<close>

text \<open>
  C36. The aarch64 console.  On a mini UART that becomes ready again and again, \<open>putstr\<close> returns,
  and the data register has received the string's bytes in order, with a carriage return before
  each newline, and a space and another backspace after each backspace.
\<close>

theorem mini_console_sends:
  assumes "in_bounds (miniuart_range u) AUX_MU_LSR"
    and "live bus (vr_start (miniuart_range u) + AUX_MU_LSR) (\<lambda>v. v AND push_bit 5 1 = 0) (device s)"
  shows "\<exists>s'. Console_putstr (Some (MiniUart_putb bus u)) bs s = Some (Inr ((), s')) \<and>
    sent32 (vr_start (miniuart_range u) + AUX_MU_IO) s' = sent32 (vr_start (miniuart_range u) + AUX_MU_IO) s @ cooked bs"
  using mini_uart.console_sends [of bus u bs] assms by (auto simp: mini_uart.sends_def mini_ready_def)

definition example_mini :: MiniUart where
  "example_mini =
     \<lparr>gpio_range = \<lparr>vr_start = 0xffff80003f200000, vr_end = 0xffff80003f2000b4\<rparr>,
      aux_range = \<lparr>vr_start = 0xffff80003f215000, vr_end = 0xffff80003f215008\<rparr>,
      miniuart_range = \<lparr>vr_start = 0xffff80003f215040, vr_end = 0xffff80003f215080\<rparr>\<rparr>"

theorem mini_console_sends_witness:
  "\<exists>s'. Console_putstr (Some (MiniUart_putb slow_bus example_mini)) [0x72, 0x39, 0x0a] \<lparr>device = 0, written = []\<rparr> = Some (Inr ((), s')) \<and>
    sent32 0xffff80003f215040 s' = [0x72, 0x39, 0x0d, 0x0a]"
  using mini_console_sends [of example_mini slow_bus "\<lparr>device = 0, written = []\<rparr>" "[0x72, 0x39, 0x0a]"] slow_live
  by (simp add: example_mini_def in_bounds_def AUX_MU_LSR_def AUX_MU_IO_def sent32_new cooked_def)

text \<open>
  Sending a byte returns exactly when the UART becomes ready: the wait in \<open>putb\<close> ends if and
  only if some read of the status register shows room in the transmit FIFO.
\<close>

theorem mini_putb_returns_iff:
  assumes "in_bounds (miniuart_range u) AUX_MU_LSR"
  shows "MiniUart_putb bus u b s \<noteq> None \<longleftrightarrow>
    (\<exists>k. answer bus (vr_start (miniuart_range u) + AUX_MU_LSR) k (device s) AND push_bit 5 1 \<noteq> 0)"
proof -
  let ?busy = "\<lambda>v :: u32. v AND push_bit 5 1 = 0" and ?a = "vr_start (miniuart_range u) + AUX_MU_LSR"
  let ?p = "poll (read_reg bus (miniuart_range u) AUX_MU_LSR) ?busy s"
  note a = reg_addr_in_bounds [OF assms]
  have io: "reg_addr (miniuart_range u) AUX_MU_IO = Inr (vr_start (miniuart_range u) + AUX_MU_IO)"
    by (intro reg_addr_in_bounds in_bounds_shift [OF assms]) (simp add: AUX_MU_IO_def)
  have "MiniUart_putb bus u b s \<noteq> None \<longleftrightarrow> ?p \<noteq> None"
    by (auto simp: MiniUart_putb_def bind_a_def write_reg_def io lift_a_def store_a_def split: option.splits sum.splits)
  also have "\<dots> \<longleftrightarrow> (\<exists>k. \<not> ?busy (answer bus ?a k (device s)))"
  proof
    assume "?p \<noteq> None"
    then obtain y where "poll (load32_a bus ?a) ?busy s = Some y" by (auto simp: read_reg_eq [OF a])
    from poll_only_returns [OF this refl] show "\<exists>k. \<not> ?busy (answer bus ?a k (device s))" .
  next
    assume "\<exists>k. \<not> ?busy (answer bus ?a k (device s))"
    then obtain k where "\<not> ?busy (answer bus ?a k (device s))" ..
    from poll_returns [OF a, of ?busy, OF this] show "?p \<noteq> None" by auto
  qed
  finally show ?thesis .
qed

theorem mini_putb_returns_iff_witness:
  "MiniUart_putb (still_bus (\<lambda>_. 0)) example_mini 0x41 \<lparr>device = (), written = []\<rparr> = None"
proof -
  have "in_bounds (miniuart_range example_mini) AUX_MU_LSR" by (simp add: in_bounds_def example_mini_def AUX_MU_LSR_def)
  from mini_putb_returns_iff [OF this, of "still_bus (\<lambda>_. 0)" "0x41" "\<lparr>device = (), written = []\<rparr>"]
  show ?thesis by (simp add: answer_def still_bus_def)
qed

text \<open>
  Setting up the mini UART.  With the registers in bounds, \<open>init\<close> returns and makes exactly
  these stores, in this order; in the function select register the pins 14 and 15 get function 2
  and the other bits keep what was read.
\<close>

theorem MiniUart_init_stores:
  assumes "in_bounds (gpio_range u) GPPUDCLK0" and "in_bounds (aux_range u) AUX_ENABLE" and "in_bounds (miniuart_range u) AUX_MU_BAUD"
  shows "\<exists>s' sel en. MiniUart_init bus u s = Some (Inr ((), s')) \<and>
    written s' = written s @
      [Store32 (vr_start (gpio_range u) + 0x04) sel, Store32 (vr_start (gpio_range u) + 0x94) 0,
       Store32 (vr_start (gpio_range u) + 0x98) 0xc000, Store32 (vr_start (gpio_range u) + 0x98) 0,
       Store32 (vr_start (aux_range u) + 0x04) en,
       Store32 (vr_start (miniuart_range u) + 0x20) 0, Store32 (vr_start (miniuart_range u) + 0x0c) 3,
       Store32 (vr_start (miniuart_range u) + 0x10) 0, Store32 (vr_start (miniuart_range u) + 0x04) 0,
       Store32 (vr_start (miniuart_range u) + 0x08) 0xc6, Store32 (vr_start (miniuart_range u) + 0x28) 270,
       Store32 (vr_start (miniuart_range u) + 0x20) 3] \<and>
    field 12 15 sel = 2 \<and> field 15 18 sel = 2 \<and> bit en 0 \<and>
    (\<forall>n. n < 12 \<or> 18 \<le> n \<longrightarrow> bit sel n = bit (fst (load32 bus (vr_start (gpio_range u) + 0x04) (device s))) n)"
proof -
  let ?v = "fst (load32 bus (vr_start (gpio_range u) + 0x04) (device s))"
  have g: "reg_addr (gpio_range u) n = Inr (vr_start (gpio_range u) + n)" if "n \<le> 0x98" for n
    using that assms(1) by (intro reg_addr_in_bounds in_bounds_shift [OF assms(1)]) (simp add: GPPUDCLK0_def)
  have m: "reg_addr (miniuart_range u) n = Inr (vr_start (miniuart_range u) + n)" if "n \<le> 0x28" for n
    using that by (intro reg_addr_in_bounds in_bounds_shift [OF assms(3)]) (simp add: AUX_MU_BAUD_def)
  have a: "reg_addr (aux_range u) 0x04 = Inr (vr_start (aux_range u) + 0x04)"
    using reg_addr_in_bounds [OF assms(2)] by (simp add: AUX_ENABLE_def)
  have "\<exists>s' en. MiniUart_init bus u s = Some (Inr ((), s')) \<and> bit en 0 \<and>
    written s' = written s @
      [Store32 (vr_start (gpio_range u) + 0x04) (pins_14_15 ?v), Store32 (vr_start (gpio_range u) + 0x94) 0,
       Store32 (vr_start (gpio_range u) + 0x98) 0xc000, Store32 (vr_start (gpio_range u) + 0x98) 0,
       Store32 (vr_start (aux_range u) + 0x04) en,
       Store32 (vr_start (miniuart_range u) + 0x20) 0, Store32 (vr_start (miniuart_range u) + 0x0c) 3,
       Store32 (vr_start (miniuart_range u) + 0x10) 0, Store32 (vr_start (miniuart_range u) + 0x04) 0,
       Store32 (vr_start (miniuart_range u) + 0x08) 0xc6, Store32 (vr_start (miniuart_range u) + 0x28) 270,
       Store32 (vr_start (miniuart_range u) + 0x20) 3]"
    by (simp add: MiniUart_init_def mini_registers Let_def write_reg_eq write_or_reg_eq read_reg_eq act_simps g m a pins_14_15_def)
      (simp add: store_a_def bit_or_iff)
  then show ?thesis using pins_14_15_bits [of ?v] by blast
qed

theorem MiniUart_init_stores_witness:
  "\<exists>s' sel en. MiniUart_init slow_bus example_mini \<lparr>device = 0, written = []\<rparr> = Some (Inr ((), s')) \<and>
     hd (written s') = Store32 0xffff80003f200004 sel \<and> last (written s') = Store32 0xffff80003f215060 3 \<and>
     field 12 15 sel = 2 \<and> field 15 18 sel = 2"
  using MiniUart_init_stores [of example_mini slow_bus "\<lparr>device = 0, written = []\<rparr>"]
  by (fastforce simp: example_mini_def in_bounds_def GPPUDCLK0_def AUX_ENABLE_def AUX_MU_BAUD_def)



text \<open>
  The consoles of the other ports.  The PC's console sends the cooked bytes to its port.  The
  set-up of the RISC-V boards' UART makes exactly these stores (eight bits, FIFO, receiver
  interrupts, divisor 1), after which the console sends the cooked bytes to its first register.
\<close>

theorem other_consoles_send:
  "(\<exists>C s1 s2. x86_64_devcons_init bus s = Some (Inr (C, s1)) \<and> Console_putstr C bs s1 = Some (Inr ((), s2)) \<and>
      sent_port 0x3f8 s2 = sent_port 0x3f8 s @ cooked bs) \<and>
   (\<exists>s1 s2. Uart16550_init bus reg 115200 s = Some (Inr ((), s1)) \<and>
      written s1 = written s @ map (\<lambda>(n, v). Store8 (rb_addr reg + n) v)
        [(3, 3), (2, 1), (1, 1), (3, 0x83), (0, 1), (1, 0), (3, 3)] \<and>
      Console_putstr (Some (Uart16550_putb bus reg)) bs s1 = Some (Inr ((), s2)) \<and>
      sent8 (rb_addr reg) s2 = sent8 (rb_addr reg) s1 @ cooked bs)"
proof -
  have d: "baud_divisor 115200 = Inr 1" by (simp add: baud_divisor_def mul_c_def)
  have "\<exists>s1. Uart16550_init bus reg 115200 s = Some (Inr ((), s1)) \<and>
      written s1 = written s @ map (\<lambda>(n, v). Store8 (rb_addr reg + n) v)
        [(3, 3), (2, 1), (1, 1), (3, 0x83), (0, 1), (1, 0), (3, 3)]"
    by (simp add: Uart16550_init_def ns_write_def Let_def d act_simps) (simp add: store_a_def)
  then show ?thesis
    using ns16550_uart.console_sends [of reg bus bs] pc_uart.console_sends [of "0x3f8" bus bs]
    by (fastforce simp: ns16550_uart.sends_def pc_uart.sends_def x86_64_devcons_init_def Console_new_def act_simps ret_a_def)
qed

end
