(* ===== verification/Boot_Main.thy ===== *)
theory Boot_Main
  imports Vm_Init_Correct Print_Tables Debug_Text Mailbox Uarts_Correct
begin

text \<open>
  The boot sequence of the aarch64 port, from \<^verbatim>\<open>aarch64/src/main.rs\<close>: it parses the devicetree, sets
  up the mailbox and the console, prints what it finds, builds the kernel's page table and switches
  to it, allocates a page, and prints the page tables.

  The statics are passed as values: \<open>CONS\<close>, \<open>MAILBOX\<close>, the physical address \<open>KPGTBL\<close> of the page table,
  and the state \<open>Vm\<close> with the page allocator.  \<open>main9\<close> ends in an empty loop: the state returned is
  the one it loops in.  A panic ends the run, so what \<open>vm::init\<close> prints is printed after it.
\<close>

section \<open>Printing\<close>

definition println_a :: "'d uart_obj option \<Rightarrow> string \<Rightarrow> ('d, unit) act" where
  "println_a CONS s = Console_putstr CONS (str_bytes (line s))"

definition lift_o :: "'a rust option \<Rightarrow> ('d, 'a) act" where
  "lift_o r s = (case r of None \<Rightarrow> None | Some x \<Rightarrow> lift_a x s)"

definition tab :: string where
  "tab = [CHR 0x09]"

definition memory_range_text :: "string \<Rightarrow> PhysRange \<Rightarrow> usize \<Rightarrow> string" where
  "memory_range_text name rng sz = ''  '' @ name @ PhysRange_display rng @ '' ('' @ alt_hex 0 (unat sz) @ '')''"

definition print_memory_range :: "'d uart_obj option \<Rightarrow> string \<Rightarrow> PhysRange \<Rightarrow> ('d, unit) act" where
  "print_memory_range CONS name rng =
     bind_a (lift_a (PhysRange_size rng)) (\<lambda>sz. println_a CONS (memory_range_text name rng sz))"

text \<open>The argument of a call is evaluated first.\<close>

definition print_section :: "'d uart_obj option \<Rightarrow> string \<Rightarrow> PhysRange rust \<Rightarrow> ('d, unit) act" where
  "print_section CONS name r = bind_a (lift_a r) (print_memory_range CONS name)"

definition print_binary_sections :: "'d uart_obj option \<Rightarrow> LinkerSymbols \<Rightarrow> ('d, unit) act" where
  "print_binary_sections CONS ld =
     bind_a (println_a CONS ''Binary sections:'') (\<lambda>_.
     bind_a (print_section CONS (''boottext:'' @ tab) (boottext_range ld)) (\<lambda>_.
     bind_a (print_section CONS (''text:'' @ tab @ tab) (text_range ld)) (\<lambda>_.
     bind_a (print_section CONS (''rodata:'' @ tab) (rodata_range ld)) (\<lambda>_.
     bind_a (print_section CONS (''data:'' @ tab @ tab) (data_range ld)) (\<lambda>_.
     bind_a (print_section CONS (''bss:'' @ tab @ tab) (bss_range ld)) (\<lambda>_.
     print_section CONS (''total:'' @ tab) (total_kernel_range ld)))))))"

definition print_physical_memory_info ::
    "'d bus \<Rightarrow> 'd uart_obj option \<Rightarrow> Mailbox option \<Rightarrow> usize \<Rightarrow> ('d, unit) act" where
  "print_physical_memory_info bus CONS MAILBOX msg =
     bind_a (println_a CONS ''Physical memory map:'') (\<lambda>_.
     bind_a (get_arm_memory bus MAILBOX msg) (\<lambda>arm_mem.
     bind_a (print_memory_range CONS (''Memory:'' @ tab) arm_mem) (\<lambda>_.
     bind_a (get_vc_memory bus MAILBOX msg) (\<lambda>vc_mem.
     print_memory_range CONS (''Video:'' @ tab) vc_mem))))"

definition print_memory_info :: "'d uart_obj option \<Rightarrow> BitmapPageAlloc \<Rightarrow> ('d, unit) act" where
  "print_memory_info CONS a =
     bind_a (println_a CONS ''Memory usage:'') (\<lambda>_.
     bind_a (lift_o (pagealloc_usage_bytes a)) (\<lambda>(used, total).
     bind_a (println_a CONS (''  Used:'' @ tab @ tab @ alt_hex 16 (unat used))) (\<lambda>_.
     println_a CONS (''  Total:'' @ tab @ alt_hex 16 (unat total)))))"

definition pi_name :: "u32 \<Rightarrow> string" where
  "pi_name board_revision =
     (if board_revision = 0xa21041 then ''Raspberry Pi 2B''
      else if board_revision = 0xa02082 then ''Raspberry Pi 3B''
      else if board_revision = 0xb03115 then ''Raspberry Pi 4B''
      else if board_revision = 0xa220a0 then ''Raspberry Compute Module 3''
      else ''Unrecognised'')"

definition print_pi_name :: "'d uart_obj option \<Rightarrow> u32 \<Rightarrow> ('d, unit) act" where
  "print_pi_name CONS board_revision = println_a CONS (''  Board Name:'' @ tab @ pi_name board_revision)"

definition mac_text :: "u8 list \<Rightarrow> string" where
  "mac_text bs = join '':'' (map (\<lambda>b. zero_pad 2 (lower_hex (unat b))) bs)"

definition print_board_info ::
    "'d bus \<Rightarrow> 'd uart_obj option \<Rightarrow> Mailbox option \<Rightarrow> usize \<Rightarrow> ('d, unit) act" where
  "print_board_info bus CONS MAILBOX msg =
     bind_a (println_a CONS ''Board information:'') (\<lambda>_.
     bind_a (get_board_revision bus MAILBOX msg) (\<lambda>board_revision.
     bind_a (print_pi_name CONS board_revision) (\<lambda>_.
     bind_a (println_a CONS (''  Board Rev:'' @ tab @ alt_hex 10 (unat board_revision))) (\<lambda>_.
     bind_a (get_board_model bus MAILBOX msg) (\<lambda>model.
     bind_a (println_a CONS (''  Board Model:'' @ tab @ alt_hex 10 (unat model))) (\<lambda>_.
     bind_a (get_board_serial bus MAILBOX msg) (\<lambda>serial.
     bind_a (println_a CONS (''  Serial Num:'' @ tab @ alt_hex 10 (unat serial))) (\<lambda>_.
     bind_a (get_board_macaddr bus MAILBOX msg) (\<lambda>mac.
     bind_a (println_a CONS (''  MAC Address:'' @ tab @ mac_text mac)) (\<lambda>_.
     bind_a (get_firmware_revision bus MAILBOX msg) (\<lambda>fw_revision.
     println_a CONS (''  Firmware Rev:'' @ tab @ alt_hex 10 (unat fw_revision)))))))))))))"

section \<open>The memory map\<close>

text \<open>The rows of the memory map with their names.\<close>

definition named_map :: "LinkerSymbols \<Rightarrow> MidrEl1 \<Rightarrow> PhysRange \<Rightarrow> (string \<times> mapping_row) list rust" where
  "named_map ld midr dtb_range =
     bind_r (boottext_range ld) (\<lambda>bt.
     bind_r (text_range ld) (\<lambda>tr.
     bind_r (rodata_range ld) (\<lambda>ro.
     bind_r (data_range ld) (\<lambda>dr.
     bind_r (bss_range ld) (\<lambda>bs.
     bind_r (rpi_mmio midr) (\<lambda>mm.
     bind_r (unwrap_r mm) (\<lambda>mmio_range.
       Inr (sort_key (\<lambda>a. pr_start (fst (snd a)))
         [(''DTB'', dtb_range, ro_kernel_data, Page4K),
          (''Kernel Text'', PhysRange_add bt tr, ro_kernel_text, Page4K),
          (''Kernel Data'', PhysRange_add ro dr, rw_kernel_data, Page4K),
          (''Kernel BSS'', bs, rw_kernel_data, Page4K),
          (''MMIO'', mmio_range, ro_kernel_device, Page2M)]))))))))"

text \<open>The line of a row: the addresses are those that \<open>map_phys_range\<close> returns.\<close>

definition map_line :: "string \<times> mapping_row \<Rightarrow> string rust" where
  "map_line = (\<lambda>(name, rng, flags, page_size).
     bind_r (step_by_rounded rng (PageSize_size page_size)) (\<lambda>pas.
       Inr (''  '' @ left_pad 14 name @ PhysRange_display rng @ '' to '' @
         alt_hex 18 (unat (physaddr_as_virt (hd pas))) @ ''..'' @
         alt_hex 18 (unat (physaddr_as_virt (last pas) + PageSize_size page_size)) @
         '' flags: '' @ Entry_debug flags @ '' page_size: '' @ PageSize_debug page_size)))"

fun print_map :: "'d uart_obj option \<Rightarrow> (string \<times> mapping_row) list \<Rightarrow> ('d, unit) act" where
  "print_map CONS [] = ret_a ()"
| "print_map CONS (row # rows) =
     bind_a (lift_a (map_line row)) (\<lambda>l. bind_a (println_a CONS l) (\<lambda>_. print_map CONS rows))"

definition vm_init_a ::
    "mmu \<Rightarrow> 'd uart_obj option \<Rightarrow> LinkerSymbols \<Rightarrow> MidrEl1 \<Rightarrow> Vm \<Rightarrow> PhysAddr \<Rightarrow> PhysRange \<Rightarrow> PhysRange \<Rightarrow> ('d, Vm) act" where
  "vm_init_a mmu CONS ld midr v kpage_table dtb_range available_mem =
     bind_a (lift_o (vm_init mmu ld midr v kpage_table dtb_range available_mem)) (\<lambda>v'.
     bind_a (println_a CONS ''Memory map:'') (\<lambda>_.
     bind_a (lift_a (named_map ld midr dtb_range)) (\<lambda>rows.
     bind_a (print_map CONS rows) (\<lambda>_. ret_a v'))))"

section \<open>The boot sequence\<close>

text \<open>From the first line on the console to the empty loop.\<close>

definition main9_run ::
    "mmu \<Rightarrow> 'd bus \<Rightarrow> 'd uart_obj option \<Rightarrow> Mailbox option \<Rightarrow> usize \<Rightarrow> LinkerSymbols \<Rightarrow> MidrEl1 \<Rightarrow> usize \<Rightarrow> nat \<Rightarrow>
     PhysAddr \<Rightarrow> Vm \<Rightarrow> ('d, Vm) act" where
  "main9_run mmu bus CONS MAILBOX msg ld midr dtb_va dt_size KPGTBL v =
     bind_a (println_a CONS []) (\<lambda>_.
     bind_a (println_a CONS ''r9 from the Internet'') (\<lambda>_.
     bind_a (println_a CONS (''DTB found at: '' @ alt_hex 0 (unat dtb_va))) (\<lambda>_.
     bind_a (println_a CONS (''midr_el1: '' @ MidrEl1_debug False midr)) (\<lambda>_.
     bind_a (print_binary_sections CONS ld) (\<lambda>_.
     bind_a (print_physical_memory_info bus CONS MAILBOX msg) (\<lambda>_.
     bind_a (print_board_info bus CONS MAILBOX msg) (\<lambda>_.
     bind_a (lift_a (bind_r (from_virt_to_physaddr dtb_va) (\<lambda>pa. PhysRange_with_len (addr pa) (word_of_nat dt_size)))) (\<lambda>dtb_range.
     bind_a (get_arm_memory bus MAILBOX msg) (\<lambda>available_mem.
     bind_a (vm_init_a mmu CONS ld midr v KPGTBL dtb_range available_mem) (\<lambda>v1.
     let v2 = switch v1 KPGTBL
     in bind_a (print_memory_info CONS (page_alloc v2)) (\<lambda>_.
        bind_a (lift_o (pagealloc_allocate (page_alloc v2))) (\<lambda>(a, page).
        let v3 = v2\<lparr>page_alloc := a\<rparr>
        in bind_a (case page of
                     Inr page \<Rightarrow> println_a CONS (''page addr: '' @ alt_hex 16 (unat (physaddr_as_virt page)))
                   | Inl _ \<Rightarrow> ret_a ()) (\<lambda>_.
           bind_a (lift_a (print_recursive_tables mmu v3 (kernel_root v3))) (\<lambda>tables.
           bind_a (Console_putstr CONS (str_bytes tables)) (\<lambda>_.
           bind_a (println_a CONS ''looping now'') (\<lambda>_. ret_a v3))))))))))))))))"

definition main9 ::
    "mmu \<Rightarrow> 'd bus \<Rightarrow> (usize \<Rightarrow> u8) \<Rightarrow> usize \<Rightarrow> LinkerSymbols \<Rightarrow> MidrEl1 \<Rightarrow> PhysAddr \<Rightarrow> Vm \<Rightarrow> usize \<Rightarrow> ('d, Vm) act" where
  "main9 mmu bus mem msg ld midr KPGTBL v dtb_va =
     bind_a (lift_a (case DeviceTree_from_usize mem dtb_va of Inl _ \<Rightarrow> Inl Unwrap_Failed | Inr dt \<Rightarrow> Inr dt)) (\<lambda>dt.
     bind_a (lift_a (mailbox_init dt)) (\<lambda>MAILBOX.
     bind_a (aarch64_devcons_init bus dt) (\<lambda>CONS.
       main9_run mmu bus CONS MAILBOX msg ld midr dtb_va (DeviceTree_size dt) KPGTBL v)))"
section \<open>The texts\<close>

text \<open>What should appear on the console, in the order of the lines.\<close>

record board_info =
  arm_memory :: PhysRange
  vc_memory :: PhysRange
  board_revision :: u32
  board_model :: u32
  board_serial :: u64
  board_mac :: "u8 list"
  firmware_revision :: u32

definition range_line :: "string \<Rightarrow> PhysRange \<Rightarrow> string" where
  "range_line name r = line (memory_range_text name r (addr (pr_end r) - addr (pr_start r)))"

definition sections_text :: "LinkerSymbols \<Rightarrow> string" where
  "sections_text ld = line ''Binary sections:'' @
     range_line (''boottext:'' @ tab) (PhysRange_with_end 0 (eboottext ld - KZERO)) @
     range_line (''text:'' @ tab @ tab) (PhysRange_with_end (text_sym ld - KZERO) (etext ld - KZERO)) @
     range_line (''rodata:'' @ tab) (PhysRange_with_end (rodata ld - KZERO) (erodata ld - KZERO)) @
     range_line (''data:'' @ tab @ tab) (PhysRange_with_end (data_sym ld - KZERO) (edata ld - KZERO)) @
     range_line (''bss:'' @ tab @ tab) (PhysRange_with_end (bss ld - KZERO) (ebss ld - KZERO)) @
     range_line (''total:'' @ tab) (PhysRange_with_end 0 (end_sym ld - KZERO))"

definition memory_text :: "board_info \<Rightarrow> string" where
  "memory_text B = line ''Physical memory map:'' @
     range_line (''Memory:'' @ tab) (arm_memory B) @ range_line (''Video:'' @ tab) (vc_memory B)"

definition board_text :: "board_info \<Rightarrow> string" where
  "board_text B = line ''Board information:'' @
     line (''  Board Name:'' @ tab @ pi_name (board_revision B)) @
     line (''  Board Rev:'' @ tab @ alt_hex 10 (unat (board_revision B))) @
     line (''  Board Model:'' @ tab @ alt_hex 10 (unat (board_model B))) @
     line (''  Serial Num:'' @ tab @ alt_hex 10 (unat (board_serial B))) @
     line (''  MAC Address:'' @ tab @ mac_text (board_mac B)) @
     line (''  Firmware Rev:'' @ tab @ alt_hex 10 (unat (firmware_revision B)))"

definition usage_text :: "usize \<Rightarrow> usize \<Rightarrow> string" where
  "usage_text used tot = line ''Memory usage:'' @
     line (''  Used:'' @ tab @ tab @ alt_hex 16 (unat used)) @ line (''  Total:'' @ tab @ alt_hex 16 (unat tot))"

definition map_text :: "(string \<times> mapping_row) list \<Rightarrow> string" where
  "map_text rows = concat (map (\<lambda>row. case map_line row of Inl _ \<Rightarrow> [] | Inr l \<Rightarrow> line l) rows)"

definition map_report :: "(string \<times> mapping_row) list \<Rightarrow> string" where
  "map_report rows = line ''Memory map:'' @ map_text rows"

definition page_line :: "PhysAddr \<Rightarrow> string" where
  "page_line page = line (''page addr: '' @ alt_hex 16 (unat (physaddr_as_virt page)))"

definition greeting :: "MidrEl1 \<Rightarrow> usize \<Rightarrow> string" where
  "greeting midr dtb_va = line [] @ line ''r9 from the Internet'' @
     line (''DTB found at: '' @ alt_hex 0 (unat dtb_va)) @ line (''midr_el1: '' @ MidrEl1_debug False midr)"

text \<open>The rows with their names are the rows of the memory map.\<close>

lemma map_sort_key: "map g (sort_key (\<lambda>x. f (g x)) xs) = sort_key f (map g xs)"
proof -
  have "map g (insort_key (\<lambda>x. f (g x)) x xs) = insort_key f (g x) (map g xs)" for x xs by (induction xs) simp_all
  then show ?thesis by (induction xs) simp_all
qed

lemma named_map_rows:
  assumes "custom_map ld midr dtb = Inr rows"
  obtains named where "named_map ld midr dtb = Inr named" and "map snd named = rows"
proof -
  have "bind_r (named_map ld midr dtb) (\<lambda>n. Inr (map snd n)) = custom_map ld midr dtb"
    unfolding named_map_def custom_map_def bind_r_assoc bind_r_Inr map_sort_key [where f = "\<lambda>row. pr_start (fst row)"]
    by (simp only: list.map snd_conv)
  then show thesis using assms that by (auto simp: bind_r_eq_Inr)
qed

section \<open>A board that answers\<close>

text \<open>An action that returns a value and sends nothing, whenever the board is ready.\<close>

definition answers :: "('d io \<Rightarrow> bool) \<Rightarrow> ('d io \<Rightarrow> u8 list) \<Rightarrow> ('d, 'a) act \<Rightarrow> 'a \<Rightarrow> bool" where
  "answers ready sent m a \<longleftrightarrow>
     (\<forall>s. ready s \<longrightarrow> (\<exists>s'. m s = Some (Inr (a, s')) \<and> ready s' \<and> sent s' = sent s))"

locale board = uart +
  fixes bus :: "'a bus" and MAILBOX :: "Mailbox option" and msg :: usize and B :: board_info
  assumes arm: "answers ready sent (get_arm_memory bus MAILBOX msg) (arm_memory B)"
    and vc: "answers ready sent (get_vc_memory bus MAILBOX msg) (vc_memory B)"
    and revision: "answers ready sent (get_board_revision bus MAILBOX msg) (board_revision B)"
    and model: "answers ready sent (get_board_model bus MAILBOX msg) (board_model B)"
    and serial: "answers ready sent (get_board_serial bus MAILBOX msg) (board_serial B)"
    and macaddr: "answers ready sent (get_board_macaddr bus MAILBOX msg) (board_mac B)"
    and firmware: "answers ready sent (get_firmware_revision bus MAILBOX msg) (firmware_revision B)"
begin

abbreviation cons :: "'a uart_obj option" where
  "cons \<equiv> Some uart_putb"

text \<open>An action that returns a value and prints a text.\<close>

definition prints :: "('a, 'v) act \<Rightarrow> 'v \<Rightarrow> string \<Rightarrow> bool" where
  "prints m v t \<longleftrightarrow>
     (\<forall>s. ready s \<longrightarrow> (\<exists>s'. m s = Some (Inr (v, s')) \<and> ready s' \<and> sent s' = sent s @ cooked (str_bytes t)))"

lemma cooked_append: "cooked (bs @ cs) = cooked bs @ cooked cs"
  by (simp add: cooked_def)

lemma prints_bind:
  assumes "prints m v t" and "prints (f v) w u"
  shows "prints (bind_a m f) w (t @ u)"
  unfolding prints_def
proof (intro allI impI)
  fix s
  assume "ready s"
  then obtain s1 where 1: "m s = Some (Inr (v, s1))" "ready s1" "sent s1 = sent s @ cooked (str_bytes t)"
    using assms(1) unfolding prints_def by blast
  then obtain s2 where "f v s1 = Some (Inr (w, s2))" "ready s2" "sent s2 = sent s1 @ cooked (str_bytes u)"
    using assms(2) unfolding prints_def by blast
  then show "\<exists>s'. bind_a m f s = Some (Inr (w, s')) \<and> ready s' \<and> sent s' = sent s @ cooked (str_bytes (t @ u))"
    using 1 by (simp add: bind_a_Some str_bytes_def cooked_append)
qed

lemma prints_answer: "answers ready sent m v \<Longrightarrow> prints m v []"
  by (simp add: prints_def answers_def str_bytes_def cooked_def)

lemma prints_ret: "prints (ret_a v) v []"
  by (simp add: prints_def ret_a_def str_bytes_def cooked_def)

lemma prints_lift: "r = Inr v \<Longrightarrow> prints (lift_a r) v []"
  by (simp add: prints_def lift_a_def str_bytes_def cooked_def)

lemma prints_lift_o: "r = Some (Inr v) \<Longrightarrow> prints (lift_o r) v []"
  by (simp add: prints_def lift_o_def lift_a_def str_bytes_def cooked_def)

lemma prints_str: "prints (Console_putstr cons (str_bytes t)) () t"
  using console_sends [of "str_bytes t"] by (simp add: prints_def sends_def)

lemma prints_line: "prints (println_a cons t) () (line t)"
  unfolding println_a_def by (rule prints_str)

lemma prints_seq: "prints m () t \<Longrightarrow> prints (f ()) w u \<Longrightarrow> prints (bind_a m f) w (t @ u)"
  by (rule prints_bind)

lemma prints_after: "prints m v [] \<Longrightarrow> prints (f v) w u \<Longrightarrow> prints (bind_a m f) w u"
  using prints_bind [of m v "[]" f w u] by simp

lemma prints_end: "prints m () t \<Longrightarrow> prints (bind_a m (\<lambda>_. ret_a w)) w t"
  using prints_bind [of m "()" t "\<lambda>_. ret_a w" w "[]"] prints_ret [of w] by simp

lemma prints_range:
  assumes "pr_start r \<le> pr_end r"
  shows "prints (print_memory_range cons name r) () (range_line name r)"
proof -
  have "PhysRange_size r = Inr (addr (pr_end r) - addr (pr_start r))"
    using assms by (simp add: PhysRange_size_def sub_c_def paddr_le_iff word_le_nat_alt)
  then show ?thesis
    unfolding print_memory_range_def range_line_def by (rule prints_after [OF prints_lift]) (rule prints_line)
qed

lemma prints_section:
  assumes "KZERO \<le> s" and "s \<le> e"
  shows "prints (print_section cons name (phys_range_of s e)) () (range_line name (PhysRange_with_end (s - KZERO) (e - KZERO)))"
proof -
  have "phys_range_of s e = Inr (PhysRange_with_end (s - KZERO) (e - KZERO))"
    using assms by (simp add: phys_range_of_def from_virt_to_physaddr_def sub_c_def PhysRange_new_def PhysRange_with_end_def)
  moreover have "pr_start (PhysRange_with_end (s - KZERO) (e - KZERO)) \<le> pr_end (PhysRange_with_end (s - KZERO) (e - KZERO))"
    using assms by (simp add: PhysRange_with_end_def paddr_le_iff word_le_nat_alt unat_sub)
  ultimately show ?thesis unfolding print_section_def by (metis prints_after prints_lift prints_range)
qed

lemma prints_sections:
  assumes "kernel_layout ld" and "KZERO \<le> end_sym ld"
  shows "prints (print_binary_sections cons ld) () (sections_text ld)"
proof -
  have b: "base_addr - KZERO = 0" "KZERO \<le> base_addr" "base_addr = KZERO" by (simp_all add: base_addr_def KZERO_def)
  have "KZERO \<le> eboottext ld" "eboottext ld \<le> etext ld" "KZERO \<le> rodata ld" "rodata ld \<le> erodata ld" "KZERO \<le> data_sym ld"
      "data_sym ld \<le> edata ld" "KZERO \<le> bss ld" "bss ld \<le> ebss ld" "KZERO \<le> text_sym ld" "text_sym ld \<le> etext ld"
    using assms(1) unfolding kernel_layout_def by auto
  note sec = this
  have base: "prints (print_section cons name (phys_range_of base_addr e)) () (range_line name (PhysRange_with_end 0 (e - KZERO)))"
    if "KZERO \<le> e" for name e
    using prints_section [of base_addr e name] that b by simp
  show ?thesis
    unfolding print_binary_sections_def sections_text_def boottext_range_def text_range_def rodata_range_def data_range_def
      bss_range_def total_kernel_range_def
    by (intro prints_seq prints_line base prints_section assms(2)) (fact sec)+
qed

lemma prints_memory:
  assumes "pr_start (arm_memory B) \<le> pr_end (arm_memory B)" and "pr_start (vc_memory B) \<le> pr_end (vc_memory B)"
  shows "prints (print_physical_memory_info bus cons MAILBOX msg) () (memory_text B)"
  unfolding print_physical_memory_info_def memory_text_def
  by (intro prints_seq prints_line prints_after [OF prints_answer [OF arm]] prints_after [OF prints_answer [OF vc]] prints_range assms)

lemma prints_board: "prints (print_board_info bus cons MAILBOX msg) () (board_text B)"
  unfolding print_board_info_def board_text_def print_pi_name_def
  by (intro prints_seq prints_line prints_after [OF prints_answer [OF revision]] prints_after [OF prints_answer [OF model]]
      prints_after [OF prints_answer [OF serial]] prints_after [OF prints_answer [OF macaddr]]
      prints_after [OF prints_answer [OF firmware]])

lemma prints_usage:
  assumes "usage_bytes a = Some (Inr (used, tot))"
  shows "prints (print_memory_info cons a) () (usage_text used tot)"
proof -
  have u: "prints (lift_o (pagealloc_usage_bytes a)) (used, tot) []"
    by (rule prints_lift_o) (simp add: pagealloc_usage_bytes_def assms)
  show ?thesis unfolding print_memory_info_def usage_text_def
    by (intro prints_seq prints_line prints_after [OF u]) (simp only: prod.case, intro prints_seq prints_line)
qed

lemma prints_map:
  "(\<And>row. row \<in> set rows \<Longrightarrow> row_ok (snd row)) \<Longrightarrow> prints (print_map cons rows) () (map_text rows)"
proof (induction rows)
  case Nil
  show ?case using prints_ret by (simp add: map_text_def)
next
  case (Cons row rows)
  obtain name r e ps where row: "row = (name, r, e, ps)" by (cases row)
  then have "row_ok (r, e, ps)" using Cons.prems [of row] by simp
  then obtain pas where "step_by_rounded r (PageSize_size ps) = Inr pas" by (rule row_pages_list)
  then obtain l where l: "map_line row = Inr l" by (simp add: map_line_def row)
  have "prints (print_map cons rows) () (map_text rows)" using Cons by simp
  then have "prints (bind_a (println_a cons l) (\<lambda>_. print_map cons rows)) () (line l @ map_text rows)"
    by (intro prints_seq prints_line)
  then show ?case by (simp add: map_text_def l prints_after [OF prints_lift [OF refl]])
qed

lemma prints_vm_init:
  assumes "vm_init mmu ld midr v t dtb avail = Some (Inr v')" and "named_map ld midr dtb = Inr rows"
    and "\<And>row. row \<in> set rows \<Longrightarrow> row_ok (snd row)"
  shows "prints (vm_init_a mmu cons ld midr v t dtb avail) v' (map_report rows)"
proof -
  have "prints (bind_a (print_map cons rows) (\<lambda>_. ret_a v')) v' (map_text rows)"
    by (intro prints_end prints_map assms(3))
  then show ?thesis unfolding vm_init_a_def map_report_def
    by (intro prints_after [OF prints_lift_o [OF assms(1)]] prints_seq prints_line prints_after [OF prints_lift [OF assms(2)]])
qed

lemma prints_main9_run:
  assumes dtb: "bind_r (from_virt_to_physaddr dtb_va) (\<lambda>pa. PhysRange_with_len (addr pa) (word_of_nat dt_size)) = Inr dtb"
    and ld: "kernel_layout ld" "KZERO \<le> end_sym ld"
    and mem: "pr_start (arm_memory B) \<le> pr_end (arm_memory B)" "pr_start (vc_memory B) \<le> pr_end (vc_memory B)"
    and run: "vm_init mmu ld midr v t dtb (arm_memory B) = Some (Inr v1)" "named_map ld midr dtb = Inr rows"
    and rows: "\<And>row. row \<in> set rows \<Longrightarrow> row_ok (snd row)"
    and us: "usage_bytes (page_alloc v1) = Some (Inr (used, tot))"
    and al: "allocate (page_alloc v1) = Some (Inr (a, Inr page))"
    and tx: "print_recursive_tables mmu (switch v1 t\<lparr>page_alloc := a\<rparr>) t = Inr tree"
  shows "prints (main9_run mmu bus cons MAILBOX msg ld midr dtb_va dt_size t v) (switch v1 t\<lparr>page_alloc := a\<rparr>)
    (greeting midr dtb_va @ sections_text ld @ memory_text B @ board_text B @ map_report rows @ usage_text used tot @
     page_line page @ tree @ line ''looping now'')"
proof -
  let ?v3 = "switch v1 t\<lparr>page_alloc := a\<rparr>"
  have r: "kernel_root ?v3 = t" "page_alloc (switch v1 t) = page_alloc v1" by (simp_all add: kernel_root_def switch_def)
  have al': "pagealloc_allocate (page_alloc (switch v1 t)) = Some (Inr (a, Inr page))"
      and us': "usage_bytes (page_alloc (switch v1 t)) = Some (Inr (used, tot))"
    by (simp_all add: pagealloc_allocate_def al r us)
  have vi: "prints (vm_init_a mmu cons ld midr v t dtb (arm_memory B)) v1 (map_report rows)"
    by (rule prints_vm_init [OF run]) (rule rows)
  have last: "prints (bind_a (println_a cons ''looping now'') (\<lambda>_. ret_a ?v3)) ?v3 (line ''looping now'')"
    by (rule prints_end) (rule prints_line)
  show ?thesis
    unfolding main9_run_def greeting_def append_assoc Let_def
    by (intro prints_seq prints_line prints_sections ld prints_memory mem prints_board prints_after [OF prints_lift [OF dtb]]
        prints_after [OF prints_answer [OF arm]] prints_bind [OF vi] prints_usage us'
        prints_after [OF prints_lift_o [OF al']])
      (simp only: prod.case sum.case r page_line_def, intro prints_seq prints_line prints_after [OF prints_lift [OF tx]] prints_str last)
qed

end

text \<open>The board keeps working: it is in a set of states in which the UART takes every byte and the
  firmware gives these answers, without leaving the set.\<close>

definition board_laws :: "'d bus \<Rightarrow> MiniUart \<Rightarrow> Mailbox option \<Rightarrow> usize \<Rightarrow> board_info \<Rightarrow> ('d io \<Rightarrow> bool) \<Rightarrow> bool" where
  "board_laws bus u MAILBOX msg B P \<longleftrightarrow>
     (let sent = sent32 (vr_start (miniuart_range u) + AUX_MU_IO)
      in (\<forall>s b. P s \<longrightarrow> (\<exists>s'. MiniUart_putb bus u b s = Some (Inr ((), s')) \<and> P s' \<and> sent s' = sent s @ [b])) \<and>
         answers P sent (get_arm_memory bus MAILBOX msg) (arm_memory B) \<and>
         answers P sent (get_vc_memory bus MAILBOX msg) (vc_memory B) \<and>
         answers P sent (get_board_revision bus MAILBOX msg) (board_revision B) \<and>
         answers P sent (get_board_model bus MAILBOX msg) (board_model B) \<and>
         answers P sent (get_board_serial bus MAILBOX msg) (board_serial B) \<and>
         answers P sent (get_board_macaddr bus MAILBOX msg) (board_mac B) \<and>
         answers P sent (get_firmware_revision bus MAILBOX msg) (firmware_revision B))"

definition board_ready :: "'d bus \<Rightarrow> MiniUart \<Rightarrow> Mailbox option \<Rightarrow> usize \<Rightarrow> board_info \<Rightarrow> 'd io \<Rightarrow> bool" where
  "board_ready bus u MAILBOX msg B s \<longleftrightarrow> (\<exists>P. P s \<and> board_laws bus u MAILBOX msg B P)"

lemma answers_ready:
  assumes "\<And>P. board_laws bus u MAILBOX msg B P \<Longrightarrow> answers P sent m a"
  shows "answers (board_ready bus u MAILBOX msg B) sent m a"
  using assms unfolding answers_def board_ready_def by blast

interpretation real_board: board "board_ready bus u MAILBOX msg B" "sent32 (vr_start (miniuart_range u) + AUX_MU_IO)"
    "MiniUart_putb bus u" bus MAILBOX msg B
  for bus u MAILBOX msg B
proof
  fix s b
  assume "board_ready bus u MAILBOX msg B s"
  then show "\<exists>s'. MiniUart_putb bus u b s = Some (Inr ((), s')) \<and> board_ready bus u MAILBOX msg B s' \<and>
      sent32 (vr_start (miniuart_range u) + AUX_MU_IO) s' = sent32 (vr_start (miniuart_range u) + AUX_MU_IO) s @ [b]"
    unfolding board_ready_def board_laws_def Let_def by blast
qed (rule answers_ready, simp add: board_laws_def Let_def)+

section \<open>The state at the end\<close>

lemma boot_run:
  assumes "walks_tables mmu" and "rpi_mmio midr = Inr (Some mm)" and "boot_ok ld mm v t dtb avail"
  obtains v1 named used a page where "vm_init mmu ld midr v t dtb avail = Some (Inr v1)"
    and "named_map ld midr dtb = Inr named" and "\<And>row. row \<in> set named \<Longrightarrow> row_ok (snd row)"
    and "usage_bytes (page_alloc v1) = Some (Inr (used, addr (pr_end avail)))"
    and "allocate (page_alloc v1) = Some (Inr (a, Inr page))"
    and "print_recursive_tables mmu (switch v1 t\<lparr>page_alloc := a\<rparr>) t =
      Inr (line (''Root va:'' @ alt_hex 0 (unat (physaddr_as_virt t))) @ table_text (pmem v1) levels t (physaddr_as_virt t) [])"
    and "\<forall>(r, e, ps) \<in> set (kernel_map ld dtb mm). \<forall>pa \<in> row_pages (r, e, ps).
      walk (pmem v1) t levels (physaddr_as_virt pa) = Some (final_entry ps (with_phys_addr pa e), dest_level ps)"
    and "page \<notin> free_addrs a" and "unat used + (card (free_addrs a) + 1) * 4096 = paddr (pr_end avail)"
proof -
  obtain v1 rows where run: "vm_init mmu ld midr v t dtb avail = Some (Inr v1)" "custom_map ld midr dtb = Inr rows"
    and rows: "\<forall>row \<in> set rows. row_ok row \<and> row_hi row \<le> 2 ^ 32 \<and>
      (row_hi row \<le> phys (early_pagetables ld) \<or> phys (eearly_pagetables ld) \<le> row_lo row)"
    and bt: "booted ld avail v t rows v1"
    by (rule vm_init_booted [OF assms])
  obtain named where named: "named_map ld midr dtb = Inr named" "map snd named = rows"
    using run(2) by (rule named_map_rows)
  have rok: "row_ok (snd row)" if "row \<in> set named" for row using that rows named(2) by (metis image_eqI list.set_map)
  have inv: "pa_inv (page_alloc v1)" "PS (page_alloc v1) = 4096" "end_pa (page_alloc v1) = pr_end avail"
      and ok: "tree_ok (pmem v1) t" and ne: "tables (pmem v1) t - {t} \<noteq> {}"
    using bt unfolding booted_def by blast+
  obtain a page where al: "alloc_page (page_alloc v1) = Some (a, page)"
    using bitmap_source.alloc_None [OF inv(1)] tables_freed [OF assms(3) rows bt] ne
    by (cases "alloc_page (page_alloc v1)") auto
  note sc = bitmap_source.alloc_Some [OF inv(1) al]
  have al': "allocate (page_alloc v1) = Some (Inr (a, Inr page))"
    using al by (auto simp: alloc_page_def split: option.splits sum.splits prod.splits)
  obtain used where us: "usage_bytes (page_alloc v1) = Some (Inr (used, addr (pr_end avail)))"
      "unat used + card (free_pages (page_alloc v1)) * 4096 = paddr (pr_end avail)"
    using usage_bytes_eq [OF inv(1)] unfolding inv by metis
  have "shape (page_alloc v1)" using inv(1) by (simp add: pa_inv_def)
  then have "card (free_addrs a) + 1 = card (free_pages (page_alloc v1))"
    using sc card.remove [OF bitmap_source.finite_free [OF inv(1)], of page] card_free_addrs by simp
  with us(2) have used: "unat used + (card (free_addrs a) + 1) * 4096 = paddr (pr_end avail)" by simp
  let ?v3 = "switch v1 t\<lparr>page_alloc := a\<rparr>"
  have v3: "kernel_root ?v3 = t" "pmem ?v3 = pmem v1" by (simp_all add: kernel_root_def switch_def)
  have tx: "print_recursive_tables mmu ?v3 t = Inr (line (''Root va:'' @ alt_hex 0 (unat (physaddr_as_virt t))) @
      table_text (pmem v1) levels t (physaddr_as_virt t) [])"
    using print_tables_text [OF assms(1), of ?v3] ok unfolding v3 by blast
  have "set (kernel_map ld dtb mm) = set rows"
    using custom_map_set [OF _ assms(2) run(2)] assms(3) unfolding boot_ok_def by blast
  then have "\<forall>(r, e, ps) \<in> set (kernel_map ld dtb mm). \<forall>pa \<in> row_pages (r, e, ps).
      walk (pmem v1) t levels (physaddr_as_virt pa) = Some (final_entry ps (with_phys_addr pa e), dest_level ps)"
    using booted_maps(1) [OF bt] rows by blast
  moreover have "page \<notin> free_addrs a" using sc by blast
  ultimately show thesis using that [OF run(1) named(1) rok us(1) al' tx] used by blast
qed

lemma memory_ordered: "boot_ok ld mm v t dtb avail \<Longrightarrow> pr_start avail \<le> pr_end avail"
  by (auto simp: boot_ok_def kernel_layout_def phys_def paddr_le_iff word_less_nat_alt)

section \<open>Properties\<close>


text \<open>A witness: a board on which every register keeps its value.  The UART is always ready, the
  mailbox answers at once, and every answer is two words that say 960 MiB from address zero.\<close>

lemma still_request:
  assumes "in_bounds (mbox_range mb) MBOX_WRITE" and "m (vr_start (mbox_range mb) + MBOX_STATUS) = 0"
    and "m (vr_start (mbox_range mb) + MBOX_READ) = request_word msg"
  obtains ws where "request (still_bus m) (Some mb) msg code tags n load_U s =
      load_U (response_body msg) \<lparr>device = (), written = written s @ word_stores msg ws @
        [Store32 (vr_start (mbox_range mb) + MBOX_WRITE) (request_word msg)]\<rparr>"
    and "length ws = 6 + length (body tags)"
proof -
  let ?bus = "still_bus m"
  define ws where "ws = Request_words (word_of_nat (size_of_Message (4 * length (body tags)) n)) code tags"
  have "reply ?bus (vr_start (mbox_range mb) + MBOX_STATUS) (vr_start (mbox_range mb) + MBOX_READ) (request_word msg) d ()" for d
    by (rule reply.mine [of _ _ _ 0 "()"]) (simp_all add: still_bus_def assms)
  then have "firmware_answers ?bus mb (request_word msg) d" for d
    unfolding firmware_answers_def Let_def
    by (auto simp: answer_def still_bus_def assms intro!: exI [of _ "()"])
  then have "Mailbox_request ?bus mb msg s' =
      Some (Inr ((), \<lparr>device = (), written = written s' @ [Store32 (vr_start (mbox_range mb) + MBOX_WRITE) (request_word msg)]\<rparr>))" for s'
    using Mailbox_request_answered [OF assms(1), of ?bus msg s'] by auto
  then have "request ?bus (Some mb) msg code tags n load_U s =
      load_U (response_body msg) \<lparr>device = (), written = written s @ word_stores msg ws @
        [Store32 (vr_start (mbox_range mb) + MBOX_WRITE) (request_word msg)]\<rparr>"
    unfolding request_def Let_def ws_def [symmetric]
    by (simp add: bind_a_def store_words_eq unwrap_r_def lift_a_def)
  moreover have "length ws = 6 + length (body tags)" by (simp add: ws_def Request_words_def)
  ultimately show thesis by (rule that)
qed

definition still_words :: "usize \<Rightarrow> u32" where
  "still_words = (\<lambda>_. 0)(0xffff80003f215054 := 0x20, 0xffff80003f00b880 := 0x00085008, 0xffff800000085018 := 0x3c000000)"

definition still_board :: board_info where
  "still_board = \<lparr>arm_memory = small_mem, vc_memory = small_mem, board_revision = 0, board_model = 0,
     board_serial = 0x3c000000, board_mac = [0, 0, 0, 0, 0, 0], firmware_revision = 0\<rparr>"

text \<open>Stores to other addresses send nothing.\<close>

lemma quiet_words:
  "\<forall>k < length ws. msg + 4 * word_of_nat k \<noteq> a \<Longrightarrow>
   sent32 a \<lparr>device = d, written = xs @ word_stores msg ws @ ys\<rparr> = sent32 a \<lparr>device = d, written = xs @ ys\<rparr>"
proof (induction ws arbitrary: msg xs)
  case (Cons w ws)
  have "msg \<noteq> a" using spec [OF Cons.prems, of 0] by simp
  moreover have "\<forall>k < length ws. msg + 4 + 4 * word_of_nat k \<noteq> a"
  proof (intro allI impI)
    fix k
    assume "k < length ws"
    then show "msg + 4 + 4 * word_of_nat k \<noteq> a" using spec [OF Cons.prems, of "Suc k"] by (simp add: algebra_simps)
  qed
  ultimately show ?case using Cons.IH [of "msg + 4" "xs @ [Store32 msg w]"] by (simp add: sent32_def)
qed simp

lemma still_answers:
  assumes "\<And>s. load_U 0xffff800000085014 s = Some (Inr (a, s))"
  shows "answers (\<lambda>_. True) (sent32 0xffff80003f215040)
    (request (still_bus still_words) (Some example_mailbox) 0xffff800000085000 0 (empty_tag i n) k load_U) a"
    (is "answers _ _ ?m a")
  unfolding answers_def
proof (intro allI impI)
  fix s :: "unit io"
  have b: "in_bounds (mbox_range example_mailbox) MBOX_WRITE" by (simp add: in_bounds_def example_mailbox_def MBOX_WRITE_def)
  obtain ws where r: "?m s = load_U (response_body 0xffff800000085000) \<lparr>device = (), written = written s @ word_stores 0xffff800000085000 ws @
      [Store32 (vr_start (mbox_range example_mailbox) + MBOX_WRITE) (request_word 0xffff800000085000)]\<rparr>" and l: "length ws = 6"
    by (rule still_request [OF b, of still_words "0xffff800000085000" 0 "empty_tag i n" k load_U s])
      (simp_all add: example_mailbox_def MBOX_STATUS_def MBOX_READ_def still_words_def request_word_def ArmToVc_def empty_tag_def)
  have six: "(\<forall>k < 6. Q k) \<longleftrightarrow> Q 0 \<and> Q 1 \<and> Q 2 \<and> Q 3 \<and> Q 4 \<and> Q 5" for Q :: "nat \<Rightarrow> bool"
    by (simp add: numeral_eq_Suc All_less_Suc conj_ac)
  have "sent32 0xffff80003f215040 \<lparr>device = (), written = written s @ word_stores 0xffff800000085000 ws @
      [Store32 (vr_start (mbox_range example_mailbox) + MBOX_WRITE) (request_word 0xffff800000085000)]\<rparr> = sent32 0xffff80003f215040 s"
    by (subst quiet_words) (simp_all add: l six sent32_def example_mailbox_def MBOX_WRITE_def)
  then show "\<exists>s'. ?m s = Some (Inr (a, s')) \<and> True \<and> sent32 0xffff80003f215040 s' = sent32 0xffff80003f215040 s"
    using r assms by (simp add: response_body_def)
qed

lemma still_ready: "board_ready (still_bus still_words) example_mini (Some example_mailbox) 0xffff800000085000 still_board s"
proof -
  let ?bus = "still_bus still_words" and ?msg = "0xffff800000085000 :: usize"
  let ?ans = "answers (\<lambda>_. True) (sent32 0xffff80003f215040)"
  have l: "load32_a ?bus 0xffff800000085014 s = Some (Inr (0, s))" "load32_a ?bus 0xffff800000085018 s = Some (Inr (0x3c000000, s))" for s
    by (simp_all add: load32_a_def still_bus_def still_words_def)
  have two: "load_two ?bus 0xffff800000085014 s = Some (Inr ((0, 0x3c000000), s))" for s
    by (simp add: load_two_def bind_a_def l ret_a_def)
  have map: "?ans (bind_a m f) b" if "?ans m a" "\<And>s. f a s = Some (Inr (b, s))" for m f a b
    using that unfolding answers_def by (metis bind_a_Some)
  have mem: "?ans (get_arm_memory ?bus (Some example_mailbox) ?msg) small_mem" "?ans (get_vc_memory ?bus (Some example_mailbox) ?msg) small_mem"
    unfolding get_arm_memory_def get_vc_memory_def
    by (rule map [OF still_answers [of "load_two ?bus", OF two]];
        simp add: lift_a_def memory_range_def add_c_def PhysRange_new_def small_mem_def PhysRange_with_end_def)+
  have w: "?ans (get_board_revision ?bus (Some example_mailbox) ?msg) 0" "?ans (get_board_model ?bus (Some example_mailbox) ?msg) 0"
      "?ans (get_firmware_revision ?bus (Some example_mailbox) ?msg) 0"
    unfolding get_board_revision_def get_board_model_def get_firmware_revision_def by (rule still_answers [of "load32_a ?bus", OF l(1)])+
  have sn: "?ans (get_board_serial ?bus (Some example_mailbox) ?msg) 0x3c000000"
    unfolding get_board_serial_def by (rule map [OF still_answers [of "load_two ?bus", OF two]]) (simp add: ret_a_def)
  have "(6 :: nat) = Suc (Suc (Suc (Suc (Suc (Suc 0)))))" by simp
  then have "load_bytes ?bus 6 0xffff800000085014 s = Some (Inr ([0, 0, 0, 0, 0, 0], s))" for s
    by (simp only: load_bytes.simps) (simp add: bind_a_def load8_a_def ret_a_def still_bus_def still_words_def)
  then have mac: "?ans (get_board_macaddr ?bus (Some example_mailbox) ?msg) [0, 0, 0, 0, 0, 0]"
    unfolding get_board_macaddr_def by (rule still_answers)
  have lv: "live ?bus 0xffff80003f215054 (\<lambda>v. v AND push_bit 5 1 = 0) d" for d
  proof (coinduction arbitrary: d rule: live.coinduct)
    case live
    show ?case by (rule exI [of _ 0]) (auto simp: answer_def still_bus_def still_words_def)
  qed
  then have "mini_ready ?bus example_mini s" for s
    by (simp add: mini_ready_def example_mini_def in_bounds_def AUX_MU_LSR_def)
  then have "\<exists>s'. MiniUart_putb ?bus example_mini b s = Some (Inr ((), s')) \<and>
      sent32 0xffff80003f215040 s' = sent32 0xffff80003f215040 s @ [b]" for b s
    using mini_uart.putb_sends [of ?bus example_mini s b] by (auto simp: example_mini_def AUX_MU_IO_def)
  then show ?thesis unfolding board_ready_def board_laws_def Let_def
    using mem w sn mac by (intro exI [of _ "\<lambda>_. True"]) (simp add: still_board_def example_mini_def AUX_MU_IO_def)
qed


end
