(* ===== verification/Swtch.thy ===== *)
theory Swtch
  imports R9_Prelude
begin

text \<open>
  The context switch of the x86-64 port, from \<^verbatim>\<open>x86_64/src/proc.rs\<close> and \<^verbatim>\<open>x86_64/src/main.rs\<close>.
  The assembly of \<open>swtch\<close> is a list of instructions executed over the registers and a memory of
  aligned 64-bit words; an unaligned access has no result.  The code that runs between two switches
  is compiled Rust, so it is any change of the machine that keeps the saved label.
\<close>

section \<open>The machine\<close>

datatype reg = RAX | RBX | RCX | RDX | RSI | RDI | RBP | RSP
  | R8 | R9 | R10 | R11 | R12 | R13 | R14 | R15

record cpu =
  regs :: "reg \<Rightarrow> u64"
  rip :: u64
  cells :: "u64 \<Rightarrow> u64"

text \<open>An operand is a register or the word at a displacement from a base register.\<close>

datatype operand = Rg reg | At u64 reg

datatype instr = Movq operand operand | Xorl reg reg | Ret

definition aligned :: "u64 \<Rightarrow> bool" where
  "aligned a \<longleftrightarrow> unat a mod 8 = 0"

definition load :: "cpu \<Rightarrow> u64 \<Rightarrow> u64 option" where
  "load c a = (if aligned a then Some (cells c a) else None)"

definition store :: "cpu \<Rightarrow> u64 \<Rightarrow> u64 \<Rightarrow> cpu option" where
  "store c a v = (if aligned a then Some (c\<lparr>cells := (cells c)(a := v)\<rparr>) else None)"

fun get :: "cpu \<Rightarrow> operand \<Rightarrow> u64 option" where
  "get c (Rg r) = Some (regs c r)"
| "get c (At d r) = load c (regs c r + d)"

fun put :: "cpu \<Rightarrow> operand \<Rightarrow> u64 \<Rightarrow> cpu option" where
  "put c (Rg r) v = Some (c\<lparr>regs := (regs c)(r := v)\<rparr>)"
| "put c (At d r) v = store c (regs c r + d) v"

text \<open>The source operand is first, as in the AT\&T syntax.  A 32-bit result clears the upper half of
  the register.\<close>

fun exec1 :: "instr \<Rightarrow> cpu \<Rightarrow> cpu option" where
  "exec1 (Movq src dst) c = Option.bind (get c src) (put c dst)"
| "exec1 (Xorl r r') c = put c (Rg r') (take_bit 32 (regs c r XOR regs c r'))"
| "exec1 Ret c = Option.bind (load c (regs c RSP)) (\<lambda>a.
     Some (c\<lparr>rip := a, regs := (regs c)(RSP := regs c RSP + 8)\<rparr>))"

fun exec :: "instr list \<Rightarrow> cpu \<Rightarrow> cpu option" where
  "exec [] c = Some c"
| "exec (i # is) c = Option.bind (exec1 i c) (exec is)"

text \<open>A call pushes the address to return to.\<close>

definition call :: "u64 \<Rightarrow> cpu \<Rightarrow> cpu option" where
  "call ret c =
     (let c' = c\<lparr>regs := (regs c)(RSP := regs c RSP - 8)\<rparr>
      in store c' (regs c' RSP) ret)"

section \<open>Labels and the switch\<close>

record Label =
  pc :: u64
  sp :: u64
  fp :: u64
  l_rbx :: u64
  l_r12 :: u64
  l_r13 :: u64
  l_r14 :: u64
  l_r15 :: u64

definition Label_new :: Label where
  "Label_new = \<lparr>pc = 0, sp = 0, fp = 0, l_rbx = 0, l_r12 = 0, l_r13 = 0, l_r14 = 0, l_r15 = 0\<rparr>"

definition swtch_code :: "instr list" where
  "swtch_code =
    [Movq (At 0 RSP) (Rg RAX),
     Movq (Rg RAX) (At 0 RDI),
     Movq (Rg RSP) (At 8 RDI),
     Movq (Rg RBP) (At 16 RDI),
     Movq (Rg RBX) (At 24 RDI),
     Movq (Rg R12) (At 32 RDI),
     Movq (Rg R13) (At 40 RDI),
     Movq (Rg R14) (At 48 RDI),
     Movq (Rg R15) (At 56 RDI),

     Movq (At 0 RSI) (Rg RAX),
     Movq (At 8 RSI) (Rg RSP),
     Movq (At 16 RSI) (Rg RBP),
     Movq (At 24 RSI) (Rg RBX),
     Movq (At 32 RSI) (Rg R12),
     Movq (At 40 RSI) (Rg R13),
     Movq (At 48 RSI) (Rg R14),
     Movq (At 56 RSI) (Rg R15),
     Movq (Rg RAX) (At 0 RSP),
     Xorl RAX RAX,
     Ret]"

text \<open>A call of \<open>swtch(save, next)\<close> whose return address is \<open>ret\<close>: the arguments are passed in
  \<open>rdi\<close> and \<open>rsi\<close>.\<close>

definition swtch :: "u64 \<Rightarrow> u64 \<Rightarrow> u64 \<Rightarrow> cpu \<Rightarrow> cpu option" where
  "swtch ret save_l next_l c =
     Option.bind (call ret (c\<lparr>regs := (regs c)(RDI := save_l, RSI := next_l)\<rparr>)) (exec swtch_code)"

text \<open>A label in memory, with the layout that \<open>repr(C)\<close> gives it.\<close>

definition label_at :: "(u64 \<Rightarrow> u64) \<Rightarrow> u64 \<Rightarrow> Label" where
  "label_at m p = \<lparr>pc = m p, sp = m (p + 8), fp = m (p + 16), l_rbx = m (p + 24),
     l_r12 = m (p + 32), l_r13 = m (p + 40), l_r14 = m (p + 48), l_r15 = m (p + 56)\<rparr>"

definition label_cells :: "u64 \<Rightarrow> u64 list" where
  "label_cells p = [p, p + 8, p + 16, p + 24, p + 32, p + 40, p + 48, p + 56]"

definition put_label :: "u64 \<Rightarrow> Label \<Rightarrow> (u64 \<Rightarrow> u64) \<Rightarrow> u64 \<Rightarrow> u64" where
  "put_label p l m = m(p := pc l, p + 8 := sp l, p + 16 := fp l, p + 24 := l_rbx l,
     p + 32 := l_r12 l, p + 40 := l_r13 l, p + 48 := l_r14 l, p + 56 := l_r15 l)"

section \<open>What the switch does\<close>

lemma aligned_add: "aligned a \<Longrightarrow> aligned b \<Longrightarrow> aligned (a + b)"
proof -
  assume "aligned a" "aligned b"
  then have "(unat a + unat b) mod 8 = 0" unfolding aligned_def by presburger
  then show ?thesis by (simp add: aligned_def unat_word_ariths mod_mod_cancel)
qed

lemma aligned_consts [simp]:
  "aligned 0" "aligned 8" "aligned 16" "aligned 24" "aligned 32" "aligned 40" "aligned 48" "aligned 56" "aligned (-8)"
  by (simp_all add: aligned_def)

lemma aligned_sub8: "aligned a \<Longrightarrow> aligned (a - 8)"
  using aligned_add [of a "-8"] by simp

lemma label_at_put [simp]: "label_at (put_label p l m) p = l"
  by (simp add: label_at_def put_label_def)

lemma put_label_other: "a \<notin> set (label_cells p) \<Longrightarrow> put_label p l m a = m a"
  by (simp add: put_label_def label_cells_def)

lemma label_at_cong: "(\<And>a. a \<in> set (label_cells p) \<Longrightarrow> m a = m' a) \<Longrightarrow> label_at m p = label_at m' p"
  by (simp add: label_at_def label_cells_def)

text \<open>The label that a caller leaves behind: where to go on, its stack pointer with the return address
  on top, and the registers that a function has to keep.\<close>

definition saved_context :: "u64 \<Rightarrow> cpu \<Rightarrow> Label" where
  "saved_context ret c = \<lparr>pc = ret, sp = regs c RSP - 8, fp = regs c RBP, l_rbx = regs c RBX,
     l_r12 = regs c R12, l_r13 = regs c R13, l_r14 = regs c R14, l_r15 = regs c R15\<rparr>"

text \<open>The machine that goes on at a label.\<close>

definition resume :: "Label \<Rightarrow> cpu \<Rightarrow> cpu" where
  "resume l c = c\<lparr>rip := pc l, cells := (cells c)(sp l := pc l),
     regs := (regs c)(RAX := 0, RSP := sp l + 8, RBP := fp l, RBX := l_rbx l,
       R12 := l_r12 l, R13 := l_r13 l, R14 := l_r14 l, R15 := l_r15 l)\<rparr>"

definition switchable :: "u64 \<Rightarrow> u64 \<Rightarrow> cpu \<Rightarrow> bool" where
  "switchable save_l next_l c \<longleftrightarrow>
     aligned (regs c RSP) \<and> aligned save_l \<and> aligned next_l \<and> aligned (sp (label_at (cells c) next_l)) \<and>
     set (label_cells save_l) \<inter> set (label_cells next_l) = {} \<and> regs c RSP - 8 \<notin> set (label_cells next_l)"

lemma exec_append: "exec (is @ js) c = Option.bind (exec is c) (exec js)"
proof (induction "is" arbitrary: c)
  case (Cons i "is")
  then show ?case by (cases "exec1 i c") simp_all
qed simp

lemma save_part:
  assumes "aligned (regs c RSP)" and "aligned (regs c RDI)"
  shows "exec (take 9 swtch_code) c = Some (c\<lparr>regs := (regs c)(RAX := cells c (regs c RSP)),
    cells := put_label (regs c RDI) \<lparr>pc = cells c (regs c RSP), sp = regs c RSP, fp = regs c RBP, l_rbx = regs c RBX,
      l_r12 = regs c R12, l_r13 = regs c R13, l_r14 = regs c R14, l_r15 = regs c R15\<rparr> (cells c)\<rparr>)"
  using assms by (simp add: swtch_code_def load_def store_def aligned_add put_label_def)

lemma load_part:
  assumes "aligned (regs c RSI)" and "aligned (sp (label_at (cells c) (regs c RSI)))"
  shows "exec (drop 9 swtch_code) c = Some (resume (label_at (cells c) (regs c RSI)) c)"
  using assms by (simp add: swtch_code_def load_def store_def aligned_add label_at_def resume_def fun_upd_twist)

lemma swtch_effect:
  assumes "switchable save_l next_l c"
  shows "swtch ret save_l next_l c = Some (resume (label_at (cells c) next_l)
    (c\<lparr>regs := (regs c)(RDI := save_l, RSI := next_l),
       cells := put_label save_l (saved_context ret c) ((cells c)(regs c RSP - 8 := ret))\<rparr>))"
proof -
  note s = assms [unfolded switchable_def]
  have l: "label_at (put_label save_l x ((cells c)(regs c RSP - 8 := ret))) next_l = label_at (cells c) next_l" for x
    using s by (intro label_at_cong) (subst put_label_other; auto)
  have code: "swtch_code = take 9 swtch_code @ drop 9 swtch_code" by (simp only: append_take_drop_id)
  show ?thesis
    unfolding swtch_def call_def Let_def
    by (subst code, unfold exec_append)
      (use s in \<open>simp add: store_def aligned_sub8 save_part load_part l saved_context_def resume_def\<close>)
qed

definition kept_regs :: "reg list" where
  "kept_regs = [RSP, RBP, RBX, R12, R13, R14, R15]"

lemma saved_label:
  assumes "switchable save_l next_l c" and "sp (label_at (cells c) next_l) \<notin> set (label_cells save_l)"
    and "swtch ret save_l next_l c = Some c1"
  shows "label_at (cells c1) save_l = saved_context ret c"
proof -
  let ?l = "label_at (cells c) next_l"
  have "cells c1 = (put_label save_l (saved_context ret c) ((cells c)(regs c RSP - 8 := ret)))(sp ?l := pc ?l)"
    using swtch_effect [OF assms(1), of ret] assms(3) by (simp add: resume_def)
  then have "label_at (cells c1) save_l = label_at (put_label save_l (saved_context ret c) ((cells c)(regs c RSP - 8 := ret))) save_l"
    using assms(2) by (intro label_at_cong) auto
  then show ?thesis by simp
qed

lemma resumed:
  assumes "label_at (cells c2) save_l = saved_context ret c" and "switchable other save_l c2"
  obtains c3 where "swtch ret' other save_l c2 = Some c3" and "rip c3 = ret" and "regs c3 RAX = 0"
    and "list_all (\<lambda>r. regs c3 r = regs c r) kept_regs"
  using swtch_effect [OF assms(2), of ret'] assms(1) that
  by (simp add: resume_def saved_context_def kept_regs_def)

section \<open>The thread of the main program\<close>

text \<open>Where the compiler and the linker put the two labels, the statics and the thread's stack.\<close>

record places =
  ctx :: u64
  thr :: u64
  CTX :: u64
  THR :: u64
  THRSTACK :: u64
  jumpback_pc :: u64

definition main9_labels :: "places \<Rightarrow> cpu \<Rightarrow> cpu" where
  "main9_labels p c = c\<lparr>cells := (put_label (thr p) (Label_new\<lparr>pc := jumpback_pc p, sp := THRSTACK p + 8 * 1023\<rparr>)
     (put_label (ctx p) Label_new (cells c)))(CTX p := ctx p, THR p := thr p)\<rparr>"

definition main9_switch :: "u64 \<Rightarrow> places \<Rightarrow> cpu \<Rightarrow> cpu option" where
  "main9_switch ret p c = swtch ret (ctx p) (thr p) (main9_labels p c)"

definition jumpback_switch :: "u64 \<Rightarrow> places \<Rightarrow> cpu \<Rightarrow> cpu option" where
  "jumpback_switch ret p c = swtch ret (cells c (THR p)) (cells c (CTX p)) c"

text \<open>The objects are aligned and do not overlap one another; \<open>s\<close> is the stack slot of the return
  address.\<close>

definition places_ok :: "places \<Rightarrow> bool" where
  "places_ok p \<longleftrightarrow>
     aligned (ctx p) \<and> aligned (thr p) \<and> aligned (CTX p) \<and> aligned (THR p) \<and> aligned (THRSTACK p) \<and>
     distinct (label_cells (ctx p) @ label_cells (thr p) @ [CTX p, THR p, THRSTACK p + 8 * 1023])"

definition slot_clear :: "places \<Rightarrow> u64 \<Rightarrow> bool" where
  "slot_clear p s \<longleftrightarrow> aligned s \<and> s \<notin> set (label_cells (ctx p)) \<and> s \<notin> set (label_cells (thr p)) \<and> s \<noteq> CTX p \<and> s \<noteq> THR p"

lemma thr_label:
  assumes "places_ok p"
  shows "label_at (cells (main9_labels p c)) (thr p) = Label_new\<lparr>pc := jumpback_pc p, sp := THRSTACK p + 8 * 1023\<rparr>"
proof -
  have "label_at (cells (main9_labels p c)) (thr p) = label_at (put_label (thr p) (Label_new\<lparr>pc := jumpback_pc p, sp := THRSTACK p + 8 * 1023\<rparr>)
     (put_label (ctx p) Label_new (cells c))) (thr p)"
    using assms by (intro label_at_cong) (auto simp: main9_labels_def places_ok_def)
  then show ?thesis by simp
qed

lemma main9_switchable:
  assumes "places_ok p" and "slot_clear p (regs c RSP - 8)"
  shows "switchable (ctx p) (thr p) (main9_labels p c)"
proof -
  have "aligned (regs c RSP - 8 + 8)" using assms(2) by (intro aligned_add) (simp_all add: slot_clear_def)
  moreover have "aligned (THRSTACK p + 8 * 1023)" using assms(1) by (intro aligned_add) (simp_all add: places_ok_def aligned_def)
  moreover have "regs (main9_labels p c) = regs c" by (simp add: main9_labels_def)
  ultimately show ?thesis
    using assms by (simp add: switchable_def thr_label) (auto simp: places_ok_def slot_clear_def)
qed

lemma main9_enters:
  assumes "places_ok p" and "slot_clear p (regs c RSP - 8)"
  obtains c1 where "main9_switch ret p c = Some c1" and "rip c1 = jumpback_pc p" and "regs c1 RSP = THRSTACK p + 8 * 1024"
    and "cells c1 (CTX p) = ctx p" and "cells c1 (THR p) = thr p" and "label_at (cells c1) (ctx p) = saved_context ret c"
proof -
  note P = assms(1) [unfolded places_ok_def]
  have ok: "switchable (ctx p) (thr p) (main9_labels p c)" using assms by (rule main9_switchable)
  let ?c = "main9_labels p c"
  define c1 where "c1 = resume (Label_new\<lparr>pc := jumpback_pc p, sp := THRSTACK p + 8 * 1023\<rparr>)
      (?c\<lparr>regs := (regs ?c)(RDI := ctx p, RSI := thr p),
        cells := put_label (ctx p) (saved_context ret ?c) ((cells ?c)(regs ?c RSP - 8 := ret))\<rparr>)"
  have run: "main9_switch ret p c = Some c1"
    unfolding main9_switch_def c1_def swtch_effect [OF ok] thr_label [OF assms(1)] ..
  have "rip c1 = jumpback_pc p" "regs c1 RSP = THRSTACK p + 8 * 1024" by (simp_all add: c1_def resume_def)
  moreover have "cells c1 a = cells ?c a" if "a \<in> {CTX p, THR p}" for a
    unfolding c1_def using that P assms(2) by (auto simp: resume_def put_label_other slot_clear_def main9_labels_def)
  then have "cells c1 (CTX p) = ctx p" "cells c1 (THR p) = thr p" using P by (auto simp: main9_labels_def)
  moreover have "label_at (cells c1) (ctx p) = saved_context ret ?c"
    by (rule saved_label [OF ok _ run [unfolded main9_switch_def]]) (use P in \<open>auto simp: thr_label [OF assms(1)]\<close>)
  then have "label_at (cells c1) (ctx p) = saved_context ret c" by (simp add: saved_context_def main9_labels_def)
  ultimately show thesis using run by (intro that)
qed

text \<open>\<open>main9\<close> enters \<open>jumpback\<close> with the stack pointer just behind the thread's stack, and when \<open>jumpback\<close>
  switches back, \<open>main9\<close> goes on after its call.\<close>

lemma main9_thread:
  assumes "places_ok p" and "slot_clear p (regs c RSP - 8)"
    and "\<And>c1. main9_switch ret p c = Some c1 \<Longrightarrow> regs c1 RSP = THRSTACK p + 8 * 1024 \<Longrightarrow> cells (run c1) (CTX p) = cells c1 (CTX p) \<and>
      cells (run c1) (THR p) = cells c1 (THR p) \<and> label_at (cells (run c1)) (ctx p) = label_at (cells c1) (ctx p) \<and>
      slot_clear p (regs (run c1) RSP - 8)"
  shows "\<exists>c1 c3. main9_switch ret p c = Some c1 \<and> rip c1 = jumpback_pc p \<and> regs c1 RSP = THRSTACK p + 8 * 1024 \<and>
    jumpback_switch ret' p (run c1) = Some c3 \<and> rip c3 = ret \<and>
    list_all (\<lambda>r. regs c3 r = regs c r) [RSP, RBP, RBX, R12, R13, R14, R15] \<and>
    label_at (cells c3) (thr p) = saved_context ret' (run c1)"
proof -
  note P = assms(1) [unfolded places_ok_def]
  obtain c1 where c1: "main9_switch ret p c = Some c1" "rip c1 = jumpback_pc p" "regs c1 RSP = THRSTACK p + 8 * 1024"
      "cells c1 (CTX p) = ctx p" "cells c1 (THR p) = thr p" "label_at (cells c1) (ctx p) = saved_context ret c"
    using assms(1,2) by (rule main9_enters)
  note run = assms(3) [OF c1(1,3)]
  have saved: "label_at (cells (run c1)) (ctx p) = saved_context ret c" using run c1 by simp
  have "aligned (regs (run c1) RSP - 8 + 8)" using run by (intro aligned_add) (simp_all add: slot_clear_def)
  moreover have clear: "aligned (regs c RSP - 8)" "regs c RSP - 8 \<notin> set (label_cells (thr p))"
    using assms(2) by (simp_all add: slot_clear_def)
  ultimately have ok: "switchable (thr p) (ctx p) (run c1)"
    using P run c1(6) by (auto simp: switchable_def saved_context_def slot_clear_def)
  obtain c3 where c3: "swtch ret' (thr p) (ctx p) (run c1) = Some c3" "rip c3 = ret"
      "list_all (\<lambda>r. regs c3 r = regs c r) kept_regs"
    using saved ok by (rule resumed)
  have "sp (label_at (cells (run c1)) (ctx p)) \<notin> set (label_cells (thr p))"
    using clear by (simp add: saved saved_context_def)
  from saved_label [OF ok this c3(1)] show ?thesis
    using c1 c3 run by (auto simp: jumpback_switch_def kept_regs_def)
qed

section \<open>Properties\<close>

text \<open>
  C25. The context switch.  When a function has called \<open>swtch(save, next)\<close>, with labels and stacks
  that do not overlap, the machine is at the program counter of \<open>next\<close> with the stack and the
  registers of \<open>next\<close>; and whatever ran in between, if it left the label \<open>save\<close> alone, a later
  \<open>swtch(other, save)\<close> continues after the first call, with the stack pointer and every register that
  a function has to keep as they were before it.
\<close>

theorem swtch_roundtrip:
  assumes "switchable save_l next_l c" and "sp (label_at (cells c) next_l) \<notin> set (label_cells save_l)"
    and "swtch ret save_l next_l c = Some c1"
    and "label_at (cells c2) save_l = label_at (cells c1) save_l" and "switchable other save_l c2"
  shows "rip c1 = pc (label_at (cells c) next_l) \<and> regs c1 RSP = sp (label_at (cells c) next_l) + 8 \<and>
    (\<exists>c3. swtch ret' other save_l c2 = Some c3 \<and> rip c3 = ret \<and> regs c3 RAX = 0 \<and>
       list_all (\<lambda>r. regs c3 r = regs c r) [RSP, RBP, RBX, R12, R13, R14, R15])"
proof -
  have "label_at (cells c2) save_l = saved_context ret c" using saved_label [OF assms(1-3)] assms(4) by simp
  then obtain c3 where "swtch ret' other save_l c2 = Some c3" "rip c3 = ret" "regs c3 RAX = 0"
      "list_all (\<lambda>r. regs c3 r = regs c r) kept_regs"
    using assms(5) by (rule resumed)
  then show ?thesis using swtch_effect [OF assms(1), of ret] assms(3) by (simp add: resume_def kept_regs_def)
qed

text \<open>Witnesses: a machine with its stack at 0x8000, the labels at 0x1000 and 0x1040, the statics at
  0x2000 and 0x2008, and the thread's stack from 0x4000.\<close>

definition start :: cpu where
  "start = \<lparr>regs = (\<lambda>r. if r = RSP then 0x8000 else if r = RBX then 77 else 0), rip = 0x100, cells = (\<lambda>a. 0)\<rparr>"

definition start_places :: places where
  "start_places = \<lparr>ctx = 0x1000, thr = 0x1040, CTX = 0x2000, THR = 0x2008, THRSTACK = 0x4000, jumpback_pc = 0x500\<rparr>"

lemma start_ok: "places_ok start_places" "slot_clear start_places (regs start RSP - 8)"
  by (simp_all add: places_ok_def slot_clear_def start_places_def start_def label_cells_def aligned_def)

theorem swtch_roundtrip_witness:
  "\<exists>c1 c3. swtch 0x123 0x1000 0x1040 (main9_labels start_places start) = Some c1 \<and> rip c1 = 0x500 \<and>
     swtch 0x456 0x1080 0x1000 (c1\<lparr>regs := (regs c1)(RBX := 5)\<rparr>) = Some c3 \<and> rip c3 = 0x123 \<and> regs c3 RBX = 77"
proof -
  let ?c = "main9_labels start_places start"
  have ok: "switchable 0x1000 0x1040 ?c" using main9_switchable [OF start_ok] by (simp add: start_places_def)
  have l: "label_at (cells ?c) 0x1040 = Label_new\<lparr>pc := 0x500, sp := 0x5ff8\<rparr>"
    using thr_label [OF start_ok(1), of start] by (simp add: start_places_def)
  have sp: "sp (label_at (cells ?c) 0x1040) \<notin> set (label_cells 0x1000)" by (simp add: l label_cells_def)
  obtain c1 where c1: "swtch 0x123 0x1000 0x1040 ?c = Some c1" using swtch_effect [OF ok] by blast
  let ?d = "c1\<lparr>regs := (regs c1)(RBX := 5)\<rparr>"
  have rsp: "regs c1 RSP = 0x6000" using c1 swtch_effect [OF ok, of "0x123"] by (auto simp: resume_def l)
  have r: "regs ?c = regs start" by (simp add: main9_labels_def)
  then have "switchable 0x1080 0x1000 ?d"
    using saved_label [OF ok sp c1]
    by (simp add: switchable_def rsp label_cells_def aligned_def saved_context_def start_def)
  from swtch_roundtrip [OF ok sp c1 _ this, of "0x456"] show ?thesis
    using c1 unfolding r l by (auto simp: start_def)
qed

end
