(* ===== verification/Other_Ports.thy ===== *)
theory Other_Ports
  imports Boot_Main Swtch
begin

text \<open>
  The main programs of the other two ports, from \<^verbatim>\<open>x86_64/src/main.rs\<close>, \<^verbatim>\<open>riscv64/src/main.rs\<close>,
  \<^verbatim>\<open>riscv64/src/runtime.rs\<close> and \<^verbatim>\<open>riscv64/src/sbi.rs\<close>.  The calls of the SBI firmware are arguments.  A
  function that ends in an endless loop returns the state it loops in.
\<close>

section \<open>The x86-64 port\<close>

text \<open>A switch continues at the program counter that it restores: elsewhere the code is not this
  program's.\<close>

definition continue_at :: "u64 \<Rightarrow> cpu option \<Rightarrow> cpu rust" where
  "continue_at a c = (case c of None \<Rightarrow> Inl Undefined_Behaviour | Some c \<Rightarrow> if rip c = a then Inr c else Inl Undefined_Behaviour)"

definition jumpback :: "'d uart_obj option \<Rightarrow> u64 \<Rightarrow> u64 \<Rightarrow> (cpu \<Rightarrow> cpu) \<Rightarrow> places \<Rightarrow> cpu \<Rightarrow> ('d, cpu) act" where
  "jumpback CONS ret' ret run p c =
     bind_a (println_a CONS ''in a thread'') (\<lambda>_.
       lift_a (continue_at ret (jumpback_switch ret' p (run c))))"

text \<open>\<open>ret\<close> and \<open>ret'\<close> are the addresses behind the two calls of \<open>swtch\<close>, and \<open>run\<close> is what the code of
  \<open>jumpback\<close> does to the registers and the stack before its call.\<close>

definition x86_main9 :: "'d bus \<Rightarrow> u64 \<Rightarrow> u64 \<Rightarrow> (cpu \<Rightarrow> cpu) \<Rightarrow> places \<Rightarrow> cpu \<Rightarrow> ('d, cpu) act" where
  "x86_main9 bus ret ret' run p c =
     bind_a (x86_64_devcons_init bus) (\<lambda>CONS.
     bind_a (println_a CONS []) (\<lambda>_.
     bind_a (println_a CONS ''r9 from the Internet'') (\<lambda>_.
     bind_a (println_a CONS ''looping now'') (\<lambda>_.
     bind_a (lift_a (continue_at (jumpback_pc p) (main9_switch ret p c))) (\<lambda>c1.
     bind_a (jumpback CONS ret' ret run p c1) (\<lambda>c3.
     bind_a (println_a CONS ''came out the other side of a context switch'') (\<lambda>_. ret_a c3)))))))"

section \<open>The RISC-V port\<close>

definition SBI_SET_TIMER :: usize where "SBI_SET_TIMER = 0"
definition SBI_CONSOLE_PUTCHAR :: usize where "SBI_CONSOLE_PUTCHAR = 1"
definition SBI_CONSOLE_GETCHAR :: usize where "SBI_CONSOLE_GETCHAR = 2"
definition SBI_SHUTDOWN :: usize where "SBI_SHUTDOWN = 8"

text \<open>\<open>ecall\<close> with the number of the extension and three arguments.\<close>

type_synonym 'd ecall = "usize \<Rightarrow> usize \<Rightarrow> usize \<Rightarrow> usize \<Rightarrow> ('d, usize) act"

definition set_timer :: "'d ecall \<Rightarrow> usize \<Rightarrow> ('d, unit) act" where
  "set_timer sbi_call_legacy timer = bind_a (sbi_call_legacy SBI_SET_TIMER timer 0 0) (\<lambda>_. ret_a ())"

definition consputb :: "'d ecall \<Rightarrow> u8 \<Rightarrow> ('d, unit) act" where
  "consputb sbi_call_legacy c = bind_a (sbi_call_legacy SBI_CONSOLE_PUTCHAR (ucast c) 0 0) (\<lambda>_. ret_a ())"

text \<open>\<open>try_into\<close> from \<open>usize\<close> to \<open>u8\<close>.\<close>

definition u8_try_from :: "usize \<Rightarrow> u8 option" where
  "u8_try_from n = (if unat n < 256 then Some (ucast n) else None)"

definition consgetb :: "'d ecall \<Rightarrow> ('d, u8) act" where
  "consgetb sbi_call_legacy =
     bind_a (sbi_call_legacy SBI_CONSOLE_GETCHAR 0 0 0) (\<lambda>n. lift_a (unwrap_r (u8_try_from n)))"

definition shutdown :: "('d, unit) act \<Rightarrow> ('d, unit) act" where
  "shutdown system_reset = bind_a system_reset (\<lambda>_. ret_a ())"

definition riscv_main9 ::
    "('d bus \<Rightarrow> DeviceTree \<Rightarrow> ('d, 'd uart_obj option) act) \<Rightarrow> ('d, unit) act \<Rightarrow> 'd bus \<Rightarrow> (usize \<Rightarrow> u8) \<Rightarrow>
     usize \<Rightarrow> usize \<Rightarrow> ('d, unit) act" where
  "riscv_main9 devcons_init system_reset bus mem hartid dtb_ptr =
     bind_a (lift_a (case DeviceTree_from_usize mem dtb_ptr of Inl _ \<Rightarrow> Inl Unwrap_Failed | Inr dt \<Rightarrow> Inr dt)) (\<lambda>dt.
     bind_a (devcons_init bus dt) (\<lambda>CONS.
     bind_a (println_a CONS []) (\<lambda>_.
     bind_a (println_a CONS ''r9 from the Internet'') (\<lambda>_.
     bind_a (println_a CONS (''Domain0 Boot HART = '' @ show_nat (unat hartid))) (\<lambda>_.
     bind_a (println_a CONS (''DTB found at: '' @ alt_hex 0 (unat dtb_ptr))) (\<lambda>_.
     shutdown system_reset))))))"

text \<open>The panic handler: the location, where there is one, is a line, a file and the message.\<close>

definition riscv_panic :: "'d uart_obj option \<Rightarrow> (nat \<times> string \<times> string) option \<Rightarrow> ('d, unit) act" where
  "riscv_panic CONS info =
     bind_a (Console_putstr CONS (str_bytes ''Panic: '')) (\<lambda>_.
       case info of
         Some (l, file, message) \<Rightarrow>
           println_a CONS (''line '' @ show_nat l @ '', file '' @ file @ '': '' @ message)
       | None \<Rightarrow> println_a CONS ''no information available.'')"

section \<open>Lemmas\<close>

context uart
begin

lemma sends_println: "sends (println_a (Some uart_putb) t) (cooked (str_bytes (line t)))"
  unfolding println_a_def by (rule console_sends)

lemma sends_riscv_panic:
  "sends (riscv_panic (Some uart_putb) info) (cooked (str_bytes ''Panic: '') @
     cooked (str_bytes (line (case info of
         Some (l, file, message) \<Rightarrow> ''line '' @ show_nat l @ '', file '' @ file @ '': '' @ message
       | None \<Rightarrow> ''no information available.''))))"
  unfolding riscv_panic_def
  by (rule sends_seq [OF console_sends]) (simp add: sends_println split: option.split prod.split)

end

lemma pc_line:
  "\<exists>s'. println_a (Some (pc_putb bus 0x3f8)) t s = Some (Inr ((), s')) \<and>
     sent_port 0x3f8 s' = sent_port 0x3f8 s @ cooked (str_bytes (line t))"
  using pc_uart.sends_println [where p = "0x3f8"] unfolding pc_uart.sends_def by blast

text \<open>The legacy call returns \<open>-1\<close> when there is no character, which is not a byte: \<open>consgetb\<close> panics.\<close>

lemma consgetb_no_char:
  assumes "sbi_call_legacy SBI_CONSOLE_GETCHAR 0 0 0 s = Some (Inr (-1, s'))"
  shows "consgetb sbi_call_legacy s = Some (Inl Unwrap_Failed)"
  using assms
  by (simp add: consgetb_def bind_a_def u8_try_from_def unwrap_r_def lift_a_def unsigned_minus_1_eq_mask mask_eq_exp_minus_1)

lemma consgetb_char:
  assumes "sbi_call_legacy SBI_CONSOLE_GETCHAR 0 0 0 s = Some (Inr (ucast b, s'))"
  shows "consgetb sbi_call_legacy s = Some (Inr (b, s'))"
proof -
  have "unat b < 2 ^ 8" using unsigned_less [of b] by simp
  then have "unat (ucast b :: usize) < 256" by (simp add: unsigned_ucast_eq take_bit_nat_eq_self)
  moreover have "ucast (ucast b :: usize) = b" by (rule bit_word_eqI) (simp add: bit_simps)
  ultimately show ?thesis using assms by (simp add: consgetb_def bind_a_def u8_try_from_def unwrap_r_def lift_a_def)
qed

section \<open>Properties\<close>

text \<open>
  C27. The main program of the x86-64 port.  With its labels, statics and stack in place, \<open>main9\<close>
  switches to \<open>jumpback\<close>, which starts with its stack pointer just behind the thread's stack; and
  whatever \<open>jumpback\<close> does to the machine before it switches back, except to the statics and to the
  label of \<open>main9\<close>, \<open>main9\<close> goes on after its call with its stack pointer and every register that a
  function has to keep, and the port has received the five lines in their order.
\<close>

theorem x86_main9_runs:
  assumes "places_ok p" and "slot_clear p (regs c RSP - 8)"
    and "\<And>c1. main9_switch ret p c = Some c1 \<Longrightarrow> regs c1 RSP = THRSTACK p + 8 * 1024 \<Longrightarrow>
      cells (run c1) (CTX p) = cells c1 (CTX p) \<and> cells (run c1) (THR p) = cells c1 (THR p) \<and>
      label_at (cells (run c1)) (ctx p) = label_at (cells c1) (ctx p) \<and> slot_clear p (regs (run c1) RSP - 8)"
  shows "\<exists>c' s'. x86_main9 bus ret ret' run p c s = Some (Inr (c', s')) \<and>
    list_all (\<lambda>r. regs c' r = regs c r) [RSP, RBP, RBX, R12, R13, R14, R15] \<and>
    sent_port 0x3f8 s' = sent_port 0x3f8 s @ cooked (str_bytes (concat (map line
      [[], ''r9 from the Internet'', ''looping now'', ''in a thread'', ''came out the other side of a context switch''])))"
proof -
  let ?C = "Some (pc_putb bus 0x3f8)"
  obtain c1 c3 where c: "main9_switch ret p c = Some c1" "rip c1 = jumpback_pc p" "jumpback_switch ret' p (run c1) = Some c3"
      "rip c3 = ret" "list_all (\<lambda>r. regs c3 r = regs c r) [RSP, RBP, RBX, R12, R13, R14, R15]"
    using main9_thread [of p c ret run ret'] assms by blast
  obtain s1 where 1: "println_a ?C [] s = Some (Inr ((), s1))" "sent_port 0x3f8 s1 = sent_port 0x3f8 s @ cooked (str_bytes (line []))"
    using pc_line by blast
  obtain s2 where 2: "println_a ?C ''r9 from the Internet'' s1 = Some (Inr ((), s2))"
      "sent_port 0x3f8 s2 = sent_port 0x3f8 s1 @ cooked (str_bytes (line ''r9 from the Internet''))"
    using pc_line by blast
  obtain s3 where 3: "println_a ?C ''looping now'' s2 = Some (Inr ((), s3))"
      "sent_port 0x3f8 s3 = sent_port 0x3f8 s2 @ cooked (str_bytes (line ''looping now''))"
    using pc_line by blast
  obtain s4 where 4: "println_a ?C ''in a thread'' s3 = Some (Inr ((), s4))"
      "sent_port 0x3f8 s4 = sent_port 0x3f8 s3 @ cooked (str_bytes (line ''in a thread''))"
    using pc_line by blast
  obtain s5 where 5: "println_a ?C ''came out the other side of a context switch'' s4 = Some (Inr ((), s5))"
      "sent_port 0x3f8 s5 = sent_port 0x3f8 s4 @ cooked (str_bytes (line ''came out the other side of a context switch''))"
    using pc_line by blast
  have "x86_main9 bus ret ret' run p c s = Some (Inr (c3, s5))"
    by (simp add: x86_main9_def x86_64_devcons_init_def Console_new_def jumpback_def continue_at_def bind_a_def ret_a_def
        lift_a_def 1(1) 2(1) 3(1) 4(1) 5(1) c)
  moreover have "sent_port 0x3f8 s5 = sent_port 0x3f8 s @ cooked (str_bytes (concat (map line
      [[], ''r9 from the Internet'', ''looping now'', ''in a thread'', ''came out the other side of a context switch''])))"
    unfolding 5(2) 4(2) 3(2) 2(2) 1(2) list.map concat.simps str_bytes_def cooked_def map_append concat_append append_assoc
    by (simp only: append_Nil2 list.map concat.simps)
  ultimately show ?thesis using c(5) by blast
qed

theorem x86_main9_runs_witness:
  "\<exists>c' s'. x86_main9 (still_bus (\<lambda>_. 0)) 0x123 0x456 (\<lambda>c. c\<lparr>regs := (regs c)(RBX := 5)\<rparr>) start_places start
       \<lparr>device = (), written = []\<rparr> = Some (Inr (c', s')) \<and> regs c' RBX = 77 \<and> regs c' RSP = 0x8000"
proof -
  let ?run = "\<lambda>c. c\<lparr>regs := (regs c)(RBX := 5)\<rparr>"
  have "cells (?run c1) (CTX start_places) = cells c1 (CTX start_places) \<and>
      cells (?run c1) (THR start_places) = cells c1 (THR start_places) \<and>
      label_at (cells (?run c1)) (ctx start_places) = label_at (cells c1) (ctx start_places) \<and>
      slot_clear start_places (regs (?run c1) RSP - 8)"
    if "main9_switch 0x123 start_places start = Some c1" "regs c1 RSP = THRSTACK start_places + 8 * 1024" for c1
    using that(2) by (simp add: slot_clear_def start_places_def label_cells_def aligned_def)
  from x86_main9_runs [where ret = "0x123" and run = ?run and ret' = "0x456", OF start_ok this]
  show ?thesis by (fastforce simp: start_def)
qed

end
