(* ===== verification/Trap.thy ===== *)
theory Trap
  imports Debug_Text Console
begin

text \<open>
  Traps, from \<^verbatim>\<open>aarch64/src/trap.rs\<close> and the macro \<open>handle_interrupt\<close> of \<^verbatim>\<open>aarch64/src/trap.S\<close>.  The
  entry and exit code are instruction lists over the general registers, the stack pointer and a
  memory of 64-bit words; \<open>TrapFrame\<close> is read from that memory with the layout that \<open>repr(C)\<close> gives
  it.  The report is the frame's \<open>Debug\<close> text.
\<close>

section \<open>The registers at the time of the trap\<close>

record TrapFrame =
  x0 :: u64
  x1 :: u64
  x2 :: u64
  x3 :: u64
  x4 :: u64
  x5 :: u64
  x6 :: u64
  x7 :: u64
  x8 :: u64
  x9 :: u64
  x10 :: u64
  x11 :: u64
  x12 :: u64
  x13 :: u64
  x14 :: u64
  x15 :: u64
  x16 :: u64
  x17 :: u64
  x18 :: u64
  x19 :: u64
  x20 :: u64
  x21 :: u64
  x22 :: u64
  x23 :: u64
  x24 :: u64
  x25 :: u64
  x26 :: u64
  x27 :: u64
  x28 :: u64
  frame_pointer :: u64
  link_register :: u64
  esr_el1 :: EsrEl1
  elr_el1 :: u64
  far_el1 :: u64
  interrupt_type :: u64

text \<open>What the entry code sees: the general registers, the stack pointer, the three system registers
  and the memory.\<close>

record core =
  xr :: "nat \<Rightarrow> u64"
  xsp :: u64
  esr_reg :: u64
  elr_reg :: u64
  far_reg :: u64
  ram :: "u64 \<Rightarrow> u64"

datatype sysreg = Esr_El1 | Elr_El1 | Far_El1

datatype ainstr =
    Sub_Sp u64
  | Add_Sp u64
  | Stp nat nat u64
  | Str nat u64
  | Ldp nat nat u64
  | Ldr nat u64
  | Ldr_Lit nat u64
  | Mrs nat sysreg
  | Mov_Sp nat

fun sys_value :: "sysreg \<Rightarrow> core \<Rightarrow> u64" where
  "sys_value Esr_El1 c = esr_reg c"
| "sys_value Elr_El1 c = elr_reg c"
| "sys_value Far_El1 c = far_reg c"

fun aexec1 :: "ainstr \<Rightarrow> core \<Rightarrow> core" where
  "aexec1 (Sub_Sp n) c = c\<lparr>xsp := xsp c - n\<rparr>"
| "aexec1 (Add_Sp n) c = c\<lparr>xsp := xsp c + n\<rparr>"
| "aexec1 (Stp i j d) c = c\<lparr>ram := (ram c)(xsp c + d := xr c i, xsp c + d + 8 := xr c j)\<rparr>"
| "aexec1 (Str i d) c = c\<lparr>ram := (ram c)(xsp c + d := xr c i)\<rparr>"
| "aexec1 (Ldp i j d) c = c\<lparr>xr := (xr c)(i := ram c (xsp c + d), j := ram c (xsp c + d + 8))\<rparr>"
| "aexec1 (Ldr i d) c = c\<lparr>xr := (xr c)(i := ram c (xsp c + d))\<rparr>"
| "aexec1 (Ldr_Lit i v) c = c\<lparr>xr := (xr c)(i := v)\<rparr>"
| "aexec1 (Mrs i r) c = c\<lparr>xr := (xr c)(i := sys_value r c)\<rparr>"
| "aexec1 (Mov_Sp i) c = c\<lparr>xr := (xr c)(i := xsp c)\<rparr>"

definition aexec :: "ainstr list \<Rightarrow> core \<Rightarrow> core" where
  "aexec is c = foldl (\<lambda>c i. aexec1 i c) c is"

section \<open>Entry and exit\<close>

definition trap_entry :: "u64 \<Rightarrow> ainstr list" where
  "trap_entry type =
     [Sub_Sp 288,
      Stp 0 1 0, Stp 2 3 16, Stp 4 5 32, Stp 6 7 48, Stp 8 9 64,
      Stp 10 11 80, Stp 12 13 96, Stp 14 15 112, Stp 16 17 128, Stp 18 19 144,
      Stp 20 21 160, Stp 22 23 176, Stp 24 25 192, Stp 26 27 208, Stp 28 29 224,
      Mrs 0 Esr_El1, Stp 30 0 240,
      Mrs 1 Elr_El1, Mrs 2 Far_El1, Stp 1 2 256,
      Ldr_Lit 3 type, Str 3 272,
      Mov_Sp 0]"

definition trap_exit :: "ainstr list" where
  "trap_exit =
     [Ldp 0 1 0, Ldp 2 3 16, Ldp 4 5 32, Ldp 6 7 48, Ldp 8 9 64,
      Ldp 10 11 80, Ldp 12 13 96, Ldp 14 15 112, Ldp 16 17 128, Ldp 18 19 144,
      Ldp 20 21 160, Ldp 22 23 176, Ldp 24 25 192, Ldp 26 27 208, Ldp 28 29 224,
      Ldr 30 240,
      Add_Sp 288]"

text \<open>The frame that \<open>trap_unsafe\<close> gets: its argument is a pointer to it.\<close>

definition frame_at :: "(u64 \<Rightarrow> u64) \<Rightarrow> u64 \<Rightarrow> TrapFrame" where
  "frame_at m p =
    \<lparr>x0 = m p, x1 = m (p + 8), x2 = m (p + 16), x3 = m (p + 24), x4 = m (p + 32),
     x5 = m (p + 40), x6 = m (p + 48), x7 = m (p + 56), x8 = m (p + 64), x9 = m (p + 72),
     x10 = m (p + 80), x11 = m (p + 88), x12 = m (p + 96), x13 = m (p + 104), x14 = m (p + 112),
     x15 = m (p + 120), x16 = m (p + 128), x17 = m (p + 136), x18 = m (p + 144), x19 = m (p + 152),
     x20 = m (p + 160), x21 = m (p + 168), x22 = m (p + 176), x23 = m (p + 184), x24 = m (p + 192),
     x25 = m (p + 200), x26 = m (p + 208), x27 = m (p + 216), x28 = m (p + 224), frame_pointer = m (p + 232),
     link_register = m (p + 240), esr_el1 = m (p + 248), elr_el1 = m (p + 256), far_el1 = m (p + 264), interrupt_type = m (p + 272)\<rparr>"

text \<open>Where exceptions go, and whether interrupts are masked: \<open>init\<close> installs the table of vectors and
  enables interrupts.\<close>

record vectors =
  vbar_el1 :: u64
  irq_masked :: bool

definition trap_init :: "u64 \<Rightarrow> vectors \<Rightarrow> vectors" where
  "trap_init exception_vectors v = v\<lparr>vbar_el1 := exception_vectors, irq_masked := False\<rparr>"

section \<open>The report\<close>

definition TrapFrame_fields :: "TrapFrame \<Rightarrow> (string \<times> string) list" where
  "TrapFrame_fields f =
     [(''x0'', alt_hex 0 (unat (x0 f))), (''x1'', alt_hex 0 (unat (x1 f))), (''x2'', alt_hex 0 (unat (x2 f))),
      (''x3'', alt_hex 0 (unat (x3 f))), (''x4'', alt_hex 0 (unat (x4 f))), (''x5'', alt_hex 0 (unat (x5 f))),
      (''x6'', alt_hex 0 (unat (x6 f))), (''x7'', alt_hex 0 (unat (x7 f))), (''x8'', alt_hex 0 (unat (x8 f))),
      (''x9'', alt_hex 0 (unat (x9 f))), (''x10'', alt_hex 0 (unat (x10 f))), (''x11'', alt_hex 0 (unat (x11 f))),
      (''x12'', alt_hex 0 (unat (x12 f))), (''x13'', alt_hex 0 (unat (x13 f))), (''x14'', alt_hex 0 (unat (x14 f))),
      (''x15'', alt_hex 0 (unat (x15 f))), (''x16'', alt_hex 0 (unat (x16 f))), (''x17'', alt_hex 0 (unat (x17 f))),
      (''x18'', alt_hex 0 (unat (x18 f))), (''x19'', alt_hex 0 (unat (x19 f))), (''x20'', alt_hex 0 (unat (x20 f))),
      (''x21'', alt_hex 0 (unat (x21 f))), (''x22'', alt_hex 0 (unat (x22 f))), (''x23'', alt_hex 0 (unat (x23 f))),
      (''x24'', alt_hex 0 (unat (x24 f))), (''x25'', alt_hex 0 (unat (x25 f))), (''x26'', alt_hex 0 (unat (x26 f))),
      (''x27'', alt_hex 0 (unat (x27 f))), (''x28'', alt_hex 0 (unat (x28 f))), (''frame_pointer'', alt_hex 0 (unat (frame_pointer f))),
      (''link_register'', alt_hex 0 (unat (link_register f))), (''esr_el1'', EsrEl1_debug True (esr_el1 f)), (''elr_el1'', alt_hex 0 (unat (elr_el1 f))),
      (''far_el1'', alt_hex 0 (unat (far_el1 f))), (''interrupt_type'', alt_hex 0 (unat (interrupt_type f)))]"

text \<open>\<open>{:#x?}\<close> of a frame.\<close>

definition TrapFrame_debug :: "TrapFrame \<Rightarrow> string" where
  "TrapFrame_debug f = debug_struct_pretty ''TrapFrame'' (TrapFrame_fields f)"

text \<open>\<open>trap\<close> prints the frame and then spins: the state returned is the one it spins in.\<close>

definition trap :: "'d uart_obj option \<Rightarrow> TrapFrame \<Rightarrow> ('d, unit) act" where
  "trap CONS frame = Console_putstr CONS (str_bytes (TrapFrame_debug frame @ ''\<newline>''))"

definition trap_unsafe :: "'d uart_obj option \<Rightarrow> core \<Rightarrow> ('d, unit) act" where
  "trap_unsafe CONS c = trap CONS (frame_at (ram c) (xr c 0))"


section \<open>What entry and exit do\<close>

definition frame_of :: "u64 \<Rightarrow> core \<Rightarrow> TrapFrame" where
  "frame_of type c =
    \<lparr>x0 = xr c 0, x1 = xr c 1, x2 = xr c 2, x3 = xr c 3, x4 = xr c 4,
     x5 = xr c 5, x6 = xr c 6, x7 = xr c 7, x8 = xr c 8, x9 = xr c 9,
     x10 = xr c 10, x11 = xr c 11, x12 = xr c 12, x13 = xr c 13, x14 = xr c 14,
     x15 = xr c 15, x16 = xr c 16, x17 = xr c 17, x18 = xr c 18, x19 = xr c 19,
     x20 = xr c 20, x21 = xr c 21, x22 = xr c 22, x23 = xr c 23, x24 = xr c 24,
     x25 = xr c 25, x26 = xr c 26, x27 = xr c 27, x28 = xr c 28, frame_pointer = xr c 29,
     link_register = xr c 30, esr_el1 = esr_reg c, elr_el1 = elr_reg c, far_el1 = far_reg c, interrupt_type = type\<rparr>"

lemma trap_entry_frame:
  "frame_at (ram (aexec (trap_entry type) c)) (xsp c - 288) = frame_of type c"
  "xr (aexec (trap_entry type) c) 0 = xsp c - 288" "xsp (aexec (trap_entry type) c) = xsp c - 288"
  by (simp_all add: aexec_def trap_entry_def frame_at_def frame_of_def)

text \<open>The numbers of the general registers.\<close>

definition general :: "nat list" where
  "general = [0, 1, 2, 3, 4, 5, 6, 7, 8, 9, 10, 11, 12, 13, 14, 15,
     16, 17, 18, 19, 20, 21, 22, 23, 24, 25, 26, 27, 28, 29, 30]"

lemma trap_exit_regs:
  assumes "frame_at (ram c2) (xsp c2) = frame_of type c"
  shows "map (xr (aexec trap_exit c2)) general = map (xr c) general" "xsp (aexec trap_exit c2) = xsp c2 + 288"
proof -
  show "map (xr (aexec trap_exit c2)) general = map (xr c) general"
    using assms by (simp add: general_def aexec_def trap_exit_def frame_at_def frame_of_def add.commute [of _ "xsp c2"])
  show "xsp (aexec trap_exit c2) = xsp c2 + 288" by (simp add: aexec_def trap_exit_def)
qed

lemma set_general: "set general = {..<31}"
proof -
  have "[0..<31] = general" by (simp add: general_def upt_conv_Cons)
  then show ?thesis by (metis atLeast_upt)
qed

section \<open>What the report determines\<close>

lemma digit_no_newline: "d < 16 \<Longrightarrow> digit_char d \<noteq> CHR ''\<newline>''"
proof
  assume "d < 16" "digit_char d = CHR ''\<newline>''"
  then have "of_char (digit_char d) = (10 :: nat)" by simp
  then show False using \<open>d < 16\<close> by (simp add: digit_char_def split: if_splits)
qed

lemma no_newline_digits:
  assumes "2 \<le> b" and "b \<le> 16"
  shows "newlines (map digit_char (digits b n)) = 0"
proof -
  have "digit_char d \<noteq> CHR ''\<newline>''" if "d \<in> set (digits b n)" for d
    using digits_less [OF assms(1) that] assms(2) digit_no_newline [of d] by simp
  then show ?thesis unfolding newlines_0 set_map by (metis image_iff)
qed

lemma no_newline_bool: "newlines (show_bool b) = 0"
  by (simp add: show_bool_def newlines_def)

lemma no_newline_hex: "newlines (alt_hex w n) = 0"
  using no_newline_digits [of 16 n] by (simp add: alt_hex_def zero_pad_def lower_hex_def newlines_0)

lemma no_newline_result: "newlines (Result_debug r) = 0"
proof (cases r)
  case (Inl n)
  then show ?thesis using no_newline_digits [of 10 "unat n"] by (simp add: show_nat_def newlines_0)
next
  case (Inr ec)
  then show ?thesis by (cases ec) (simp_all add: newlines_0)
qed

lemmas no_newline = no_newline_hex no_newline_result no_newline_bool

lemma EsrEl1_lines:
  "map (newlines \<circ> snd) (EsrEl1_fields r) = map (newlines \<circ> snd) (EsrEl1_fields s)"
  by (simp add: EsrEl1_fields_def no_newline)

lemma newlines_pretty:
  "newlines (debug_struct_pretty name fs) = newlines name + 1 + (\<Sum>(f, v)\<leftarrow>fs. newlines f + newlines v + 1)"
proof -
  have "newlines (concat (map (\<lambda>(f, v). pad_adapter True (f @ '': '' @ v @ '',\<newline>'')) fs)) =
      (\<Sum>(f, v)\<leftarrow>fs. newlines f + newlines v + 1)"
  proof (induction fs)
    case (Cons x fs)
    then show ?case by (cases x) (simp add: newlines_pad, simp add: newlines_def)
  qed (simp add: newlines_def)
  then show ?thesis by (simp add: debug_struct_pretty_def) (simp add: newlines_def)
qed

lemma EsrEl1_debug_lines: "newlines (EsrEl1_debug True r) = newlines (EsrEl1_debug True s)"
  by (simp add: EsrEl1_debug_def debug_struct_with_def newlines_pretty EsrEl1_fields_def no_newline)

lemma EsrEl1_debug_inj:
  assumes "EsrEl1_debug True r = EsrEl1_debug True s"
  shows "esr_iss r = esr_iss s \<and> esr_il r = esr_il s \<and> esr_ec r = esr_ec s \<and> esr_iss2 r = esr_iss2 s"
proof -
  have n: "map fst (EsrEl1_fields r) = map fst (EsrEl1_fields s)" by (simp add: EsrEl1_fields_def)
  have "EsrEl1_fields r = EsrEl1_fields s"
    using debug_struct_pretty_inj [OF _ n EsrEl1_lines, of "''EsrEl1''" "[]" "[]"] assms
    by (simp add: EsrEl1_debug_def debug_struct_with_def)
  then have "alt_hex 10 (unat (esr_iss r)) = alt_hex 10 (unat (esr_iss s))" "show_bool (esr_il r) = show_bool (esr_il s)"
      "Result_debug (exception_class_enum r) = Result_debug (exception_class_enum s)"
      "alt_hex 4 (unat (esr_iss2 r)) = alt_hex 4 (unat (esr_iss2 s))"
    by (simp_all add: EsrEl1_fields_def)
  then show ?thesis
    by (auto dest!: alt_hex_inj Result_debug_inj exception_class_inj simp: word_unat_eq_iff show_bool_def split: if_splits)
qed

lemma TrapFrame_lines:
  "map fst (TrapFrame_fields f) = map fst (TrapFrame_fields g)"
  "map (newlines \<circ> snd) (TrapFrame_fields f) = map (newlines \<circ> snd) (TrapFrame_fields g)"
  using EsrEl1_debug_lines [of "esr_el1 f" "esr_el1 g"] by (simp_all add: TrapFrame_fields_def no_newline)

lemma TrapFrame_debug_fields: "TrapFrame_debug f @ s = TrapFrame_debug g @ t \<Longrightarrow> TrapFrame_fields f = TrapFrame_fields g"
  unfolding TrapFrame_debug_def by (rule debug_struct_pretty_inj [OF _ TrapFrame_lines])

lemma frame_fields_inj:
  assumes "TrapFrame_fields (frame_of t c) = TrapFrame_fields (frame_of u d)"
  shows "map (xr c) general = map (xr d) general" "elr_reg c = elr_reg d" "far_reg c = far_reg d" "t = u"
    "EsrEl1_debug True (esr_reg c) = EsrEl1_debug True (esr_reg d)"
proof -
  have hex: "alt_hex 0 (unat v) = alt_hex 0 (unat w) \<longleftrightarrow> v = w" for v w :: u64
    using alt_hex_inj [of 0 "unat v" "unat w"] by (auto simp: word_unat_eq_iff)
  note eq = assms [unfolded TrapFrame_fields_def frame_of_def, simplified hex TrapFrame.simps, simplified]
  show "map (xr c) general = map (xr d) general" "elr_reg c = elr_reg d" "far_reg c = far_reg d" "t = u"
    "EsrEl1_debug True (esr_reg c) = EsrEl1_debug True (esr_reg d)"
    using eq by (simp_all add: hex general_def)
qed

context uart
begin

lemma trap_sends: "sends (trap (Some uart_putb) f) (cooked (str_bytes (TrapFrame_debug f @ ''\<newline>'')))"
  unfolding trap_def by (rule console_sends)

end

section \<open>Properties\<close>

text \<open>
  C26. Taking a trap.  The frame that the entry code passes to \<open>trap_unsafe\<close> has in its fields the
  general registers, the link register, the three system registers and the kind of the interrupt, at
  the offsets that the declaration of \<open>TrapFrame\<close> gives them; and if the handler leaves the stack
  pointer and the frame as they are, the exit code gives every general register and the stack pointer
  its value from before the trap.
\<close>

theorem trap_frame_roundtrip:
  assumes "c1 = aexec (trap_entry type) c"
    and "xsp c2 = xsp c1" and "frame_at (ram c2) (xsp c2) = frame_at (ram c1) (xsp c1)"
  shows "frame_at (ram c1) (xr c1 0) = frame_of type c \<and>
    (\<forall>i < 31. xr (aexec trap_exit c2) i = xr c i) \<and> xsp (aexec trap_exit c2) = xsp c"
proof -
  have f: "frame_at (ram c1) (xr c1 0) = frame_of type c" "xsp c1 = xsp c - 288" "xr c1 0 = xsp c1"
    using trap_entry_frame [of type c] by (simp_all add: assms(1))
  then have "frame_at (ram c2) (xsp c2) = frame_of type c" using assms(3) by simp
  from trap_exit_regs [OF this] show ?thesis using f assms(2) by (simp add: set_general)
qed

text \<open>
  C28. The report of a trap is complete: from the text that \<open>trap\<close> prints for a frame that the entry
  code built, whatever follows it on the console, one can read off every general register, the link
  and fault address registers, the kind of the interrupt, and every field of the syndrome register.
\<close>

theorem trap_report_complete:
  assumes "TrapFrame_debug (frame_at (ram (aexec (trap_entry t) c)) (xsp c - 288)) @ rest =
    TrapFrame_debug (frame_at (ram (aexec (trap_entry u) d)) (xsp d - 288)) @ rest'"
  shows "(\<forall>i < 31. xr c i = xr d i) \<and> elr_reg c = elr_reg d \<and> far_reg c = far_reg d \<and> t = u \<and>
    esr_iss (esr_reg c) = esr_iss (esr_reg d) \<and> esr_il (esr_reg c) = esr_il (esr_reg d) \<and>
    esr_ec (esr_reg c) = esr_ec (esr_reg d) \<and> esr_iss2 (esr_reg c) = esr_iss2 (esr_reg d)"
proof -
  have "TrapFrame_fields (frame_of t c) = TrapFrame_fields (frame_of u d)"
    by (rule TrapFrame_debug_fields) (rule assms [unfolded trap_entry_frame])
  note e = frame_fields_inj [OF this]
  show ?thesis using e(1-4) EsrEl1_debug_inj [OF e(5)] by (simp add: set_general)
qed

text \<open>Witnesses: a trap on a machine with counting registers.\<close>

definition counting :: core where
  "counting = \<lparr>xr = (\<lambda>i. word_of_nat (100 + i)), xsp = 0x9000, esr_reg = 0x96000045, elr_reg = 0x80123, far_reg = 0xdead, ram = (\<lambda>a. 0)\<rparr>"

theorem trap_frame_roundtrip_witness:
  "let c1 = aexec (trap_entry 4) counting;
       c2 = c1\<lparr>xr := (\<lambda>i. 0)\<rparr>
   in xr c1 0 = 0x8ee0 \<and> x7 (frame_at (ram c1) 0x8ee0) = 107 \<and> far_el1 (frame_at (ram c1) 0x8ee0) = 0xdead \<and>
      xr (aexec trap_exit c2) 7 = 107 \<and> xsp (aexec trap_exit c2) = 0x9000"
proof -
  let ?c1 = "aexec (trap_entry 4) counting"
  let ?c2 = "?c1\<lparr>xr := (\<lambda>i. 0)\<rparr>"
  have "xr ?c1 0 = 0x8ee0" using trap_entry_frame(2) [of 4 counting] by (simp add: counting_def)
  moreover note trap_frame_roundtrip [OF refl, of ?c2 4 counting, simplified]
  ultimately show ?thesis by (simp add: Let_def) (simp add: frame_of_def counting_def)
qed

text \<open>Only the reserved bits of the syndrome register are left out of a report.\<close>

definition reserved :: core where
  "reserved = counting\<lparr>esr_reg := 0xf000000096000045, ram := (\<lambda>a. 1)\<rparr>"

theorem trap_report_complete_witness:
  "TrapFrame_debug (frame_at (ram (aexec (trap_entry 4) counting)) 0x8ee0) =
     TrapFrame_debug (frame_at (ram (aexec (trap_entry 4) reserved)) 0x8ee0) \<and>
   xr counting 30 = xr reserved 30 \<and> esr_ec (esr_reg counting) = esr_ec (esr_reg reserved)"
proof -
  have "EsrEl1_fields 0x96000045 = EsrEl1_fields 0xf000000096000045"
    unfolding EsrEl1_fields_def exception_class_enum_def esr_iss_def esr_il_def esr_ec_def esr_iss2_def field_def by simp
  then have "TrapFrame_debug (frame_of 4 counting) = TrapFrame_debug (frame_of 4 reserved)"
    by (simp add: TrapFrame_debug_def TrapFrame_fields_def frame_of_def reserved_def counting_def EsrEl1_debug_def)
  then have *: "TrapFrame_debug (frame_at (ram (aexec (trap_entry 4) counting)) (xsp counting - 288)) @ [] =
      TrapFrame_debug (frame_at (ram (aexec (trap_entry 4) reserved)) (xsp reserved - 288)) @ []"
    by (simp only: trap_entry_frame)
  moreover have "xsp counting - 288 = 0x8ee0" "xsp reserved - 288 = 0x8ee0" by (simp_all add: reserved_def counting_def)
  ultimately show ?thesis using trap_report_complete [OF *] by simp
qed

end
