(* ===== verification/Dat.thy ===== *)
theory Dat
  imports R9_Prelude
begin

text \<open>
  The shared types of \<^verbatim>\<open>port/src/dat.rs\<close>: channels, devices, blocks and file identifiers, and the bits of
  an open mode.  Pointers are addresses.  The trait \<open>Dev\<close> has no implementation yet and is left out.
\<close>

record Qid =
  qid_path :: u64
  qid_vers :: u32
  qid_typ :: u8

record Chan =
  ch_offset :: u64
  ch_devoffset :: u64
  ch_typ :: u16
  ch_dev :: u32
  ch_mode :: u16
  ch_flag :: u16
  ch_qid :: Qid
  ch_fid :: u32
  ch_iounit :: u32
  ch_umc :: "usize option"
  ch_uri :: usize
  ch_dri :: usize
  ch_nrock :: usize
  ch_mrock :: usize
  ch_ismtpt :: bool
  ch_aux :: usize
  ch_pgrpid :: Qid
  ch_mid :: u32
  ch_mqid :: Qid

record Device =
  dv_dc :: u32
  dv_name :: string
  dv_attached :: bool

record dat_Block =
  bl_rp :: usize
  bl_wp :: usize
  bl_lim :: usize
  bl_base :: usize
  bl_flag :: u16
  bl_checksum :: u16
  bl_magic :: u32

record Walkqid =
  wq_clone :: Chan
  wq_qids :: "Qid list"

section \<open>Open modes\<close>

definition Mode_READ :: u16 where "Mode_READ = 0"
definition Mode_WRITE :: u16 where "Mode_WRITE = 1"
definition Mode_OEXEC :: u16 where "Mode_OEXEC = 2"
definition Mode_OTRUNC :: u16 where "Mode_OTRUNC = 4"
definition Mode_OCEXEC :: u16 where "Mode_OCEXEC = 5"
definition Mode_ORCLOSE :: u16 where "Mode_ORCLOSE = 6"
definition Mode_OEXCL :: u16 where "Mode_OEXCL = 12"

lemmas Mode_defs = Mode_READ_def Mode_WRITE_def Mode_OEXEC_def Mode_OTRUNC_def Mode_OCEXEC_def Mode_ORCLOSE_def Mode_OEXCL_def

text \<open>The flags are not independent bits: a set of flags does not say which of them were put into it.
  Writing with truncation is the same as close-on-exec, executing with truncation the same as
  remove-on-close, and exclusive use always truncates.\<close>

lemma Mode_overlap:
  "Mode_WRITE OR Mode_OTRUNC = Mode_OCEXEC" "Mode_OEXEC OR Mode_OTRUNC = Mode_ORCLOSE"
  "Mode_OEXCL AND Mode_OTRUNC = Mode_OTRUNC"
  by (simp_all add: Mode_defs)

end
