(* ===== verification/Xtask_Config.thy ===== *)
theory Xtask_Config
  imports R9_Prelude
begin

text \<open>
  Model of \<^verbatim>\<open>xtask/src/config.rs\<close>: from a configuration file to the arguments of the commands
  that build and run the kernel.

  The machine the tool runs on is the record \<open>host\<close>: its environment, its files, the TOML parser,
  and what a command returns, which may depend on everything done before.  The tool's effects, the
  files written and the commands run, are recorded in order.  A failure is an error that is
  passed on, a call of \<open>exit(1)\<close>, or a panic.  Messages on the terminal are left out.
\<close>

section \<open>Commands and the host\<close>

record Command =
  cmd_program :: string
  cmd_args :: "string list"
  cmd_dir :: "string option"

definition Command_new :: "string \<Rightarrow> Command" where
  "Command_new p = \<lparr>cmd_program = p, cmd_args = [], cmd_dir = None\<rparr>"

definition add_args :: "string list \<Rightarrow> Command \<Rightarrow> Command" where
  "add_args as c = c\<lparr>cmd_args := cmd_args c @ as\<rparr>"

definition current_dir :: "string \<Rightarrow> Command \<Rightarrow> Command" where
  "current_dir d c = c\<lparr>cmd_dir := Some d\<rparr>"

datatype effect = Wrote string string | Ran Command

datatype xfail = Error string | Exit_1 | Panicked

section \<open>The configuration\<close>

record Build =
  buildflags :: "string list option"
  rustflags :: "string list option"
  build_target :: string

record Config =
  dev :: "string list option"
  features :: "string list option"
  ip :: "string list option"
  cfg_link :: "string list option"
  nodev :: "string list option"
  nouart :: "string list option"
  platform :: "string option"
  cfg_dtb :: "string option"

record Qemu =
  machine :: "string option"
  qemu_dtb :: "string option"

text \<open>The table \<open>link\<close> is a hash map, so its order is whatever the iterator yields.\<close>

record Configuration =
  conf_build :: "Build option"
  conf_config :: "Config option"
  conf_link :: "(string \<times> string) list option"
  conf_qemu :: "Qemu option"

record host =
  env :: "string \<Rightarrow> string option"
  read_file :: "string \<Rightarrow> string option"
  path_exists :: "string \<Rightarrow> bool"
  can_create :: "string \<Rightarrow> bool"
  parse_toml :: "string \<Rightarrow> string + Configuration"
  rustup_targets :: "string option"
  exec :: "effect list \<Rightarrow> Command \<Rightarrow> string + bool"
  workspace :: string

type_synonym 'a xt = "effect list \<Rightarrow> (xfail + 'a) \<times> effect list"

definition ret_x :: "'a \<Rightarrow> 'a xt" where
  "ret_x a l = (Inr a, l)"

definition fail_x :: "xfail \<Rightarrow> 'a xt" where
  "fail_x e l = (Inl e, l)"

definition bind_x :: "'a xt \<Rightarrow> ('a \<Rightarrow> 'b xt) \<Rightarrow> 'b xt" where
  "bind_x m f l = (case m l of (Inl e, l') \<Rightarrow> (Inl e, l') | (Inr a, l') \<Rightarrow> f a l')"

definition unwrap_x :: "'a option \<Rightarrow> 'a xt" where
  "unwrap_x x = (case x of None \<Rightarrow> fail_x Panicked | Some a \<Rightarrow> ret_x a)"

definition write_file :: "string \<Rightarrow> string \<Rightarrow> unit xt" where
  "write_file path contents l = (Inr (), l @ [Wrote path contents])"

definition Configuration_load :: "host \<Rightarrow> string \<Rightarrow> Configuration xt" where
  "Configuration_load h filename =
     (case read_file h filename of
        None \<Rightarrow> fail_x Exit_1
      | Some contents \<Rightarrow> (case parse_toml h contents of Inl e \<Rightarrow> fail_x Exit_1 | Inr d \<Rightarrow> ret_x d))"

section \<open>Applying the configuration\<close>

fun join :: "string \<Rightarrow> string list \<Rightarrow> string" where
  "join sep [] = []"
| "join sep [x] = x"
| "join sep (x # y # ys) = x @ sep @ join sep (y # ys)"

definition opt_list :: "'a list option \<Rightarrow> 'a list" where
  "opt_list x = (case x of None \<Rightarrow> [] | Some xs \<Rightarrow> xs)"

text \<open>The state of these functions is the command and the collected flags of rustc.\<close>

definition apply_build :: "Configuration \<Rightarrow> Command \<times> string list \<Rightarrow> Command \<times> string list" where
  "apply_build config = (\<lambda>(cmd, flags).
     case conf_build config of
       None \<Rightarrow> (cmd, flags)
     | Some b \<Rightarrow>
         (add_args (opt_list (buildflags b)) (add_args [''--target'', build_target b] cmd),
          flags @ opt_list (rustflags b)))"

definition quoted :: "string \<Rightarrow> string" where
  "quoted s = CHR 0x22 # s @ [CHR 0x22]"

text \<open>\<open>--cfg\<close> and the prefixed setting, for each setting of a section.\<close>

definition cfg_flags :: "string \<Rightarrow> string list option \<Rightarrow> string list" where
  "cfg_flags prefix settings = concat (map (\<lambda>x. [''--cfg'', prefix @ x]) (opt_list settings))"

definition feature_args :: "string list option \<Rightarrow> string list" where
  "feature_args fs =
     (case fs of
        None \<Rightarrow> []
      | Some xs \<Rightarrow>
          let joined = join '','' xs;
              joined = (if xs \<noteq> [] \<and> joined = [] then hd xs else joined)
          in [''--features='' @ joined])"

definition platform_flags :: "string option \<Rightarrow> string list" where
  "platform_flags p = (case p of None \<Rightarrow> [] | Some s \<Rightarrow> [''--cfg'', ''platform='' @ quoted s])"

definition apply_platform_config :: "Configuration \<Rightarrow> Command \<times> string list \<Rightarrow> Command \<times> string list" where
  "apply_platform_config config = (\<lambda>(cmd, flags).
     case conf_config config of
       None \<Rightarrow> (cmd, flags)
     | Some c \<Rightarrow>
         (add_args (feature_args (features c)) cmd,
          flags @ platform_flags (platform c) @ cfg_flags ''dev_'' (dev c) @ cfg_flags ''ip_'' (ip c) @
            cfg_flags ''link_'' (cfg_link c) @ cfg_flags ''nodev_'' (nodev c) @ cfg_flags ''nouart_'' (nouart c)))"

text \<open>\<open>str::replace\<close>: non-overlapping matches from the left.\<close>

function replace_str :: "string \<Rightarrow> string \<Rightarrow> string \<Rightarrow> string" where
  "replace_str pat new [] = []"
| "replace_str pat new (c # cs) =
     (if pat \<noteq> [] \<and> take (length pat) (c # cs) = pat
      then new @ replace_str pat new (drop (length pat) (c # cs))
      else c # replace_str pat new cs)"
  by pat_completeness auto
termination
  by (relation "measure (\<lambda>(pat, new, s). length s)") (auto simp: drop_Cons' length_greater_0_conv [symmetric] simp del: length_greater_0_conv)

definition replace_option :: "string \<Rightarrow> string \<times> string \<Rightarrow> string" where
  "replace_option contents l =
     (if fst l = ''arch'' then replace_str ''${ARCH}'' (snd l) contents
      else if fst l = ''load-address'' then replace_str ''${LOAD-ADDRESS}'' (snd l) contents
      else contents)"

datatype Profile = Debug | Release

fun Profile_dir :: "Profile \<Rightarrow> string" where
  "Profile_dir Debug = ''debug''"
| "Profile_dir Release = ''release''"

text \<open>The profile's name in lower case is also its directory.\<close>

definition apply_link :: "host \<Rightarrow> Configuration \<Rightarrow> string \<Rightarrow> Profile \<Rightarrow> string list \<Rightarrow> string list xt" where
  "apply_link h config target profile flags =
     (case conf_link config of
        None \<Rightarrow> ret_x flags
      | Some link \<Rightarrow>
          bind_x (unwrap_x (map_of link ''script'')) (\<lambda>filename.
            if filename = [] then ret_x flags
            else
              (case read_file h (workspace h @ ''/'' @ filename) of
                 None \<Rightarrow> fail_x Exit_1
               | Some contents \<Rightarrow>
                   let path = workspace h @ ''/target/'' @ target @ ''/'' @ Profile_dir profile;
                       file = path @ ''/kernel.ld''
                   in if can_create h file
                      then bind_x (write_file file (foldl replace_option contents link)) (\<lambda>_.
                             ret_x (flags @ [''-Clink-args=-T'' @ file]))
                      else fail_x Panicked)))"

definition apply_qemu_config :: "Configuration \<Rightarrow> Command \<Rightarrow> Command" where
  "apply_qemu_config config cmd =
     (case conf_qemu config of
        None \<Rightarrow> cmd
      | Some q \<Rightarrow>
          let cmd = (case machine q of None \<Rightarrow> cmd | Some m \<Rightarrow> add_args [''-M'', m] cmd)
          in case qemu_dtb q of None \<Rightarrow> cmd | Some d \<Rightarrow> add_args [''-dtb'', d] cmd)"

definition apply_rustflags :: "string list \<Rightarrow> Command \<Rightarrow> Command" where
  "apply_rustflags flags cmd =
     (if flags = [] then cmd
      else add_args [''--config'', ''build.rustflags='' @ [CHR 0x27] @ join '' '' flags @ [CHR 0x27]] cmd)"

definition apply_to_clippy_step :: "Configuration \<Rightarrow> Command \<Rightarrow> Command" where
  "apply_to_clippy_step config cmd =
     (let (cmd, flags) = apply_platform_config config (cmd, []) in apply_rustflags flags cmd)"

definition apply_to_build_step :: "host \<Rightarrow> Configuration \<Rightarrow> string \<Rightarrow> Profile \<Rightarrow> Command \<Rightarrow> Command xt" where
  "apply_to_build_step h config target profile cmd =
     (let (cmd, flags) = apply_platform_config config (apply_build config (cmd, []))
      in bind_x (apply_link h config target profile flags) (\<lambda>flags. ret_x (apply_rustflags flags cmd)))"

definition apply_to_qemu_step :: "Configuration \<Rightarrow> Command \<Rightarrow> Command" where
  "apply_to_qemu_step config cmd = apply_qemu_config config cmd"

end
