(* ===== verification/Xtask.thy ===== *)
theory Xtask
  imports Xtask_Config
begin

text \<open>
  Model of \<^verbatim>\<open>xtask/src/main.rs\<close>: the steps of the build tool and their order.

  The parsed command line is the record \<open>Matches\<close>, an argument.  A target triple of the library
  \<^verbatim>\<open>target_lexicon\<close> is a pair of its architecture and its text, and its parser an argument.  The
  printing of commands with \<open>--verbose\<close> is left out.
\<close>

section \<open>Architectures and programs\<close>

datatype Arch = Aarch64 | Riscv64 | X86_64

fun Arch_lowercase :: "Arch \<Rightarrow> string" where
  "Arch_lowercase Aarch64 = ''aarch64''"
| "Arch_lowercase Riscv64 = ''riscv64''"
| "Arch_lowercase X86_64 = ''x86_64''"

record Matches =
  m_arch :: "Arch option"
  m_release :: bool
  m_config :: "string option"
  m_gdb :: bool
  m_kvm :: bool
  m_json :: bool
  m_dump_dtb :: "string option"

definition Profile_from :: "Matches \<Rightarrow> Profile" where
  "Profile_from m = (if m_release m then Release else Debug)"

definition Arch_from :: "Matches \<Rightarrow> Arch" where
  "Arch_from m = (case m_arch m of None \<Rightarrow> X86_64 | Some a \<Rightarrow> a)"

definition env_or :: "host \<Rightarrow> string \<Rightarrow> string \<Rightarrow> string" where
  "env_or h var dflt = (case env h var of None \<Rightarrow> dflt | Some v \<Rightarrow> v)"

definition qemu_system :: "host \<Rightarrow> Arch \<Rightarrow> string" where
  "qemu_system h arch =
     env_or h ''QEMU''
       (case arch of
          Aarch64 \<Rightarrow> ''qemu-system-aarch64''
        | Riscv64 \<Rightarrow> ''qemu-system-riscv64''
        | X86_64 \<Rightarrow> ''qemu-system-x86_64'')"

definition Arch_target :: "host \<Rightarrow> Arch \<Rightarrow> string" where
  "Arch_target h arch = env_or h ''TARGET'' (Arch_lowercase arch @ ''-unknown-none-elf'')"

definition cargo :: "host \<Rightarrow> string" where
  "cargo h = env_or h ''CARGO'' ''cargo''"

text \<open>\<open>str::split\<close> on a character and \<open>PathBuf::push\<close>.\<close>

fun split_char :: "char \<Rightarrow> string \<Rightarrow> string list" where
  "split_char d [] = [[]]"
| "split_char d (c # cs) =
     (if c = d then [] # split_char d cs
      else case split_char d cs of [] \<Rightarrow> [[c]] | x # xs \<Rightarrow> (c # x) # xs)"

definition path_push :: "string \<Rightarrow> string \<Rightarrow> string" where
  "path_push p x =
     (if x \<noteq> [] \<and> hd x = CHR ''/'' then x
      else if p = [] \<or> last p = CHR ''/'' then p @ x
      else p @ ''/'' @ x)"

definition objcopy :: "host \<Rightarrow> string" where
  "objcopy h =
     (let toolchain = env_or h ''RUSTUP_TOOLCHAIN'' ''nightly-x86_64-unknown-none'';
          arch_segments = rev (take 3 (rev (split_char CHR ''-'' toolchain)));
          host_triple = join ''-'' arch_segments;
          path = foldl path_push (env_or h ''RUSTUP_HOME'' [])
            [''toolchains'', toolchain, ''lib'', ''rustlib'', host_triple, ''bin'', ''llvm-objcopy''];
          llvm_objcopy = (if path_exists h path then path else ''llvm-objcopy'')
      in env_or h ''OBJCOPY'' llvm_objcopy)"

definition load_config :: "host \<Rightarrow> Arch \<Rightarrow> Matches \<Rightarrow> Configuration xt" where
  "load_config h arch m =
     Configuration_load h (workspace h @ ''/'' @ Arch_lowercase arch @ ''/lib/config_'' @
       (case m_config m of None \<Rightarrow> ''default'' | Some c \<Rightarrow> c) @ ''.toml'')"

definition exclude_other_arches :: "Arch \<Rightarrow> Command \<Rightarrow> Command" where
  "exclude_other_arches arch =
     (case arch of
        Aarch64 \<Rightarrow> add_args [''--exclude'', ''riscv64'', ''--exclude'', ''x86_64'']
      | Riscv64 \<Rightarrow> add_args [''--exclude'', ''aarch64'', ''--exclude'', ''x86_64'']
      | X86_64 \<Rightarrow> add_args [''--exclude'', ''aarch64'', ''--exclude'', ''riscv64''])"

text \<open>\<open>annotated_status\<close> followed by the test for success that every step makes.\<close>

definition run_x :: "host \<Rightarrow> Command \<Rightarrow> string \<Rightarrow> unit xt" where
  "run_x h cmd failed l =
     (let l' = l @ [Ran cmd]
      in case exec h l cmd of
           Inl e \<Rightarrow> (Inl (Error (cmd_program cmd @ '': '' @ e)), l')
         | Inr ok \<Rightarrow> (if ok then Inr () else Inl (Error failed), l'))"

section \<open>Steps\<close>

definition release_arg :: "Profile \<Rightarrow> string list" where
  "release_arg p = (if p = Release then [''--release''] else [])"

record BuildStep =
  bs_arch :: Arch
  bs_config :: Configuration
  bs_profile :: Profile

definition BuildStep_new :: "host \<Rightarrow> Matches \<Rightarrow> BuildStep xt" where
  "BuildStep_new h m =
     bind_x (unwrap_x (m_arch m)) (\<lambda>arch.
     bind_x (load_config h arch m) (\<lambda>config.
       ret_x \<lparr>bs_arch = arch, bs_config = config, bs_profile = Profile_from m\<rparr>))"

definition BuildStep_run :: "host \<Rightarrow> BuildStep \<Rightarrow> unit xt" where
  "BuildStep_run h st =
     bind_x (apply_to_build_step h (bs_config st) (Arch_target h (bs_arch st)) (bs_profile st)
              (add_args [''build''] (Command_new (cargo h)))) (\<lambda>cmd.
     let cmd = add_args [''--workspace'', ''--exclude'', ''xtask''] (current_dir (workspace h) cmd);
         cmd = add_args (release_arg (bs_profile st)) (exclude_other_arches (bs_arch st) cmd)
     in run_x h (add_args [''-Z'', ''build-std=core,alloc''] cmd) ''build kernel failed'')"

definition artefact :: "host \<Rightarrow> Arch \<Rightarrow> Profile \<Rightarrow> string \<Rightarrow> string" where
  "artefact h arch profile name = ''target/'' @ Arch_target h arch @ ''/'' @ Profile_dir profile @ ''/'' @ name"

definition DistStep_run :: "host \<Rightarrow> Arch \<Rightarrow> Profile \<Rightarrow> unit xt" where
  "DistStep_run h arch profile =
     (let at = artefact h arch profile; oc = current_dir (workspace h) (Command_new (objcopy h))
      in case arch of
           Aarch64 \<Rightarrow>
             bind_x (run_x h (add_args [''-O'', ''binary'', at ''aarch64'', at ''aarch64-qemu''] oc) ''objcopy failed'') (\<lambda>_.
               run_x h (add_args [''-k'', ''-f'', at ''aarch64-qemu''] (current_dir (workspace h) (Command_new ''gzip'')))
                 ''gzip failed'')
         | X86_64 \<Rightarrow>
             run_x h (add_args [''--input-target=elf64-x86-64'', ''--output-target=elf32-i386'', at ''x86_64'', at ''r9.elf32''] oc)
               ''objcopy failed''
         | Riscv64 \<Rightarrow>
             run_x h (add_args [''-O'', ''binary'', at ''riscv64'', at ''riscv64-qemu''] oc) ''objcopy failed'')"

record QemuStep =
  qs_arch :: Arch
  qs_config :: Configuration
  qs_profile :: Profile
  wait_for_gdb :: bool
  kvm :: bool
  dump_dtb :: string

definition QemuStep_new :: "host \<Rightarrow> Matches \<Rightarrow> QemuStep xt" where
  "QemuStep_new h m =
     (let arch = Arch_from m
      in bind_x (load_config h arch m) (\<lambda>config.
           ret_x \<lparr>qs_arch = arch, qs_config = config, qs_profile = Profile_from m, wait_for_gdb = m_gdb m,
                  kvm = m_kvm m, dump_dtb = (case m_dump_dtb m of None \<Rightarrow> [] | Some d \<Rightarrow> d)\<rparr>))"

definition gdb_args :: "QemuStep \<Rightarrow> string list" where
  "gdb_args st = (if wait_for_gdb st then [''-s'', ''-S''] else [])"

text \<open>The image that QEMU starts; it is the last argument of each of the three commands.\<close>

fun qemu_image :: "Arch \<Rightarrow> string" where
  "qemu_image Aarch64 = ''aarch64-qemu.gz''"
| "qemu_image Riscv64 = ''riscv64''"
| "qemu_image X86_64 = ''r9.elf32''"

definition qemu_options :: "QemuStep \<Rightarrow> Command \<Rightarrow> Command" where
  "qemu_options st cmd =
     (case qs_arch st of
        Aarch64 \<Rightarrow>
          add_args ([''-nographic'', ''-serial'', ''null'', ''-serial'', ''mon:stdio''] @ gdb_args st @ [''-d'', ''int''])
            (apply_to_qemu_step (qs_config st) cmd)
      | Riscv64 \<Rightarrow>
          add_args ([''-nographic''] @
              (if dump_dtb st \<noteq> [] then [''-machine'', ''virt,dumpdtb='' @ dump_dtb st] else [''-machine'', ''virt'']) @
              [''-cpu'', ''rv64'', ''-netdev'', ''type=user,id=net0'', ''-device'', ''virtio-net-device,netdev=net0'',
               ''-smp'', ''4'', ''-m'', ''1024M'', ''-serial'', ''mon:stdio''] @ gdb_args st @
              [''-d'', ''guest_errors,unimp'']) cmd
      | X86_64 \<Rightarrow>
          add_args ([''-nographic''] @
              (if kvm st then [''-accel'', ''kvm'', ''-cpu'', ''host,pdpe1gb,xsaveopt,fsgsbase,apic,msr'']
               else [''-M'', ''q35'', ''-cpu'', ''qemu64,pdpe1gb,xsaveopt,fsgsbase,apic,msr'']) @
              [''-smp'', ''8'', ''-s'', ''-m'', ''8192''] @ gdb_args st) cmd)"

definition qemu_command :: "host \<Rightarrow> QemuStep \<Rightarrow> Command" where
  "qemu_command h st =
     current_dir (workspace h)
       (add_args [''-kernel'', artefact h (qs_arch st) (qs_profile st) (qemu_image (qs_arch st))]
         (qemu_options st (Command_new (qemu_system h (qs_arch st)))))"

definition QemuStep_run :: "host \<Rightarrow> QemuStep \<Rightarrow> unit xt" where
  "QemuStep_run h st =
     (if kvm st \<and> qs_arch st \<noteq> X86_64 then fail_x (Error ''KVM only supported under x86-64'')
      else run_x h (qemu_command h st) ''qemu failed'')"

definition rustc_command :: "host \<Rightarrow> Arch \<Rightarrow> Profile \<Rightarrow> string list \<Rightarrow> Command" where
  "rustc_command h arch profile rest =
     add_args ([''rustc'', ''-Z'', ''build-std=core,alloc'', ''-p'', Arch_lowercase arch,
         ''--target'', ''lib/'' @ Arch_target h arch @ ''.json'', ''--''] @ rest @ release_arg profile)
       (current_dir (workspace h) (Command_new (cargo h)))"

definition ExpandStep_run :: "host \<Rightarrow> Arch \<Rightarrow> Profile \<Rightarrow> unit xt" where
  "ExpandStep_run h arch profile = run_x h (rustc_command h arch profile [''-Z'', ''unpretty=expanded'']) ''build kernel failed''"

definition KasmStep_run :: "host \<Rightarrow> Arch \<Rightarrow> Profile \<Rightarrow> unit xt" where
  "KasmStep_run h arch profile = run_x h (rustc_command h arch profile [''--emit'', ''asm'']) ''build kernel failed''"

definition ClippyStep_run :: "host \<Rightarrow> Arch \<Rightarrow> Configuration \<Rightarrow> Profile \<Rightarrow> unit xt" where
  "ClippyStep_run h arch config profile =
     (let cmd = apply_to_clippy_step config (add_args [''clippy''] (Command_new (cargo h)));
          cmd = exclude_other_arches arch (add_args [''--workspace''] (current_dir (workspace h) cmd))
      in run_x h (add_args (release_arg profile) cmd) ''clippy failed'')"

definition CleanStep_run :: "host \<Rightarrow> unit xt" where
  "CleanStep_run h = run_x h (add_args [''clean''] (current_dir (workspace h) (Command_new (cargo h)))) ''clean failed''"

section \<open>Toolchains\<close>

type_synonym triple = "string \<times> string"

record RustupState =
  installed_targets :: "triple list"
  curr_toolchain :: string

text \<open>\<open>str::lines\<close>.  The field \<open>rustup_targets\<close> is the output of a successful
  \<open>rustup target list --installed\<close>; without one the result is unwrapped in vain.\<close>

definition str_lines :: "string \<Rightarrow> string list" where
  "str_lines s =
     (let ls = split_char (CHR 0x0A) s;
          ls = (if last ls = [] then butlast ls else ls)
      in map (\<lambda>l. if l \<noteq> [] \<and> last l = CHR 0x0D then butlast l else l) ls)"

definition RustupState_new :: "host \<Rightarrow> (string \<Rightarrow> triple option) \<Rightarrow> RustupState xt" where
  "RustupState_new h parse_triple =
     bind_x (unwrap_x (rustup_targets h)) (\<lambda>out.
     bind_x (unwrap_x (env h ''RUSTUP_TOOLCHAIN'')) (\<lambda>tc.
       ret_x \<lparr>installed_targets = List.map_filter parse_triple (str_lines out), curr_toolchain = tc\<rparr>))"

definition target_arch :: "string \<Rightarrow> string" where
  "target_arch arch = (if arch = ''riscv64'' then ''riscv64gc'' else arch)"

definition ends_with :: "string \<Rightarrow> string \<Rightarrow> bool" where
  "ends_with s x \<longleftrightarrow> length x \<le> length s \<and> drop (length s - length x) s = x"

definition std_supported_target :: "RustupState \<Rightarrow> string \<Rightarrow> triple option" where
  "std_supported_target r a =
     (let arch = target_arch a
      in find (\<lambda>t. ends_with (curr_toolchain r) (snd t) \<or> snd t = arch @ ''-unknown-linux-gnu'')
           (filter (\<lambda>t. fst t = arch) (installed_targets r)))"

text \<open>The loop over the argument lists of cargo.\<close>

fun run_all :: "host \<Rightarrow> string list \<Rightarrow> string \<Rightarrow> string list list \<Rightarrow> unit xt" where
  "run_all h extra failed [] = ret_x ()"
| "run_all h extra failed (as # ass) =
     bind_x (run_x h (add_args (as @ extra) (current_dir (workspace h) (Command_new (cargo h)))) failed) (\<lambda>_.
       run_all h extra failed ass)"

definition json_args :: "bool \<Rightarrow> string list" where
  "json_args b = (if b then [''--message-format=json'', ''--quiet''] else [])"

definition TestStep_run :: "host \<Rightarrow> (string \<Rightarrow> triple option) \<Rightarrow> string \<Rightarrow> bool \<Rightarrow> unit xt" where
  "TestStep_run h parse_triple arch json =
     bind_x (RustupState_new h parse_triple) (\<lambda>r.
       run_all h (json_args json) ''test failed''
         ([''test'', ''--package'', ''port'', ''--lib''] #
          (case std_supported_target r arch of
             None \<Rightarrow> []
           | Some t \<Rightarrow> [[''test'', ''--package'', arch, ''--bins'', ''--target'', snd t]])))"

definition CheckStep_run :: "host \<Rightarrow> (string \<Rightarrow> triple option) \<Rightarrow> bool \<Rightarrow> unit xt" where
  "CheckStep_run h parse_triple json =
     bind_x (RustupState_new h parse_triple) (\<lambda>r.
       run_all h (json_args json) ''check failed''
         ([[''check'', ''--package'', ''aarch64'', ''--bins''],
           [''check'', ''--package'', ''riscv64'', ''--bins''],
           [''check'', ''--package'', ''x86_64'', ''--bins''],
           [''check'', ''--package'', ''port'', ''--lib'', ''--tests'', ''--benches'']] @
          List.map_filter (\<lambda>arch.
            map_option (\<lambda>t. [''check'', ''--package'', arch, ''--tests'', ''--benches'', ''--target'', snd t])
              (std_supported_target r arch)) [''aarch64'', ''riscv64'', ''x86_64'']))"

section \<open>The tool\<close>

text \<open>\<open>main\<close>: the subcommand and its arguments; \<open>host_arch\<close> is the architecture the tool was built
  for.  An error ends in \<open>exit(1)\<close>.\<close>

definition xtask_main :: "host \<Rightarrow> (string \<Rightarrow> triple option) \<Rightarrow> string \<Rightarrow> (string \<times> Matches) option \<Rightarrow> unit xt" where
  "xtask_main h parse_triple host_arch subcommand =
     (case subcommand of
        None \<Rightarrow> fail_x (Error ''bad subcommand'')
      | Some (name, m) \<Rightarrow>
          if name = ''build'' then bind_x (BuildStep_new h m) (BuildStep_run h)
          else if name = ''expand'' then ExpandStep_run h (Arch_from m) (Profile_from m)
          else if name = ''kasm'' then KasmStep_run h (Arch_from m) (Profile_from m)
          else if name = ''dist'' then
            bind_x (BuildStep_new h m) (\<lambda>s1.
            bind_x (BuildStep_run h s1) (\<lambda>_. DistStep_run h (Arch_from m) (Profile_from m)))
          else if name = ''test'' then TestStep_run h parse_triple host_arch (m_json m)
          else if name = ''clippy'' then
            bind_x (load_config h (Arch_from m) m) (\<lambda>config. ClippyStep_run h (Arch_from m) config (Profile_from m))
          else if name = ''check'' then CheckStep_run h parse_triple (m_json m)
          else if name = ''qemu'' then
            bind_x (BuildStep_new h m) (\<lambda>s1.
            bind_x (QemuStep_new h m) (\<lambda>s3.
            bind_x (BuildStep_run h s1) (\<lambda>_.
            bind_x (DistStep_run h (Arch_from m) (Profile_from m)) (\<lambda>_. QemuStep_run h s3))))
          else if name = ''clean'' then CleanStep_run h
          else fail_x (Error ''bad subcommand''))"

end
