(* ===== verification/Xtask_Correct.thy ===== *)
theory Xtask_Correct
  imports Xtask
begin

text \<open>
  The order of the build tool's commands: nothing is run after a command that failed, and the
  subcommands run their steps in order.
\<close>

section \<open>Nothing after a failure\<close>

definition all_ok :: "host \<Rightarrow> effect list \<Rightarrow> bool" where
  "all_ok h l \<longleftrightarrow> (\<forall>i c. i < length l \<longrightarrow> l ! i = Ran c \<longrightarrow> exec h (take i l) c = Inr True)"

lemma all_ok_Nil [simp]: "all_ok h []"
  by (simp add: all_ok_def)

lemma all_ok_snoc:
  "all_ok h (l @ [x]) \<longleftrightarrow> all_ok h l \<and> (case x of Wrote _ _ \<Rightarrow> True | Ran c \<Rightarrow> exec h l c = Inr True)"
  by (auto simp: all_ok_def nth_append less_Suc_eq split: effect.splits)

text \<open>An action that goes on only after success, whatever its own result.\<close>

definition careful :: "host \<Rightarrow> 'a xt \<Rightarrow> bool" where
  "careful h m \<longleftrightarrow> (\<forall>l. all_ok h l \<longrightarrow>
     (case m l of (r, l') \<Rightarrow> all_ok h (butlast l') \<and> (isl r \<or> all_ok h l')))"

lemma all_ok_butlast: "all_ok h l \<Longrightarrow> all_ok h (butlast l)"
  by (cases l rule: rev_cases) (auto simp: all_ok_snoc)

named_theorems careful_intros

lemma careful_ret [careful_intros]: "careful h (ret_x a)"
  by (simp add: careful_def ret_x_def all_ok_butlast)

lemma careful_fail [careful_intros]: "careful h (fail_x e)"
  by (simp add: careful_def fail_x_def all_ok_butlast)

lemma careful_unwrap [careful_intros]: "careful h (unwrap_x x)"
  by (simp add: unwrap_x_def careful_ret careful_fail split: option.split)

lemma careful_write [careful_intros]: "careful h (write_file p c)"
  by (simp add: careful_def write_file_def all_ok_snoc)

lemma careful_run [careful_intros]: "careful h (run_x h c e)"
  by (auto simp: careful_def run_x_def all_ok_snoc Let_def split: sum.split)

lemma careful_bind [careful_intros]:
  assumes "careful h m" and "\<And>a. careful h (f a)"
  shows "careful h (bind_x m f)"
  unfolding careful_def
proof (intro allI impI)
  fix l
  assume "all_ok h l"
  then have m: "case m l of (r, l') \<Rightarrow> all_ok h (butlast l') \<and> (isl r \<or> all_ok h l')"
    using assms(1) by (simp add: careful_def)
  show "case bind_x m f l of (r, l') \<Rightarrow> all_ok h (butlast l') \<and> (isl r \<or> all_ok h l')"
  proof (cases "m l")
    case (Pair r l')
    then show ?thesis using m assms(2) by (cases r) (auto simp: bind_x_def careful_def)
  qed
qed

lemma careful_load [careful_intros]: "careful h (load_config h a m)"
  by (auto simp: load_config_def Configuration_load_def intro!: careful_intros split: option.split sum.split)

lemma careful_link [careful_intros]: "careful h (apply_link h c t p fl)"
  by (auto simp: apply_link_def Let_def intro!: careful_intros split: option.split)

lemma careful_build [careful_intros]: "careful h (BuildStep_new h m)" "careful h (BuildStep_run h st)"
  by (auto simp: BuildStep_new_def BuildStep_run_def apply_to_build_step_def Let_def intro!: careful_intros split: prod.split)

lemma careful_dist [careful_intros]: "careful h (DistStep_run h a p)"
  by (auto simp: DistStep_run_def Let_def intro!: careful_intros split: Arch.split)

lemma careful_qemu [careful_intros]: "careful h (QemuStep_new h m)" "careful h (QemuStep_run h st)"
  by (auto simp: QemuStep_new_def QemuStep_run_def Let_def intro!: careful_intros)

lemma careful_run_all [careful_intros]: "careful h (run_all h x e ass)"
  by (induction ass) (auto intro!: careful_intros)

lemma careful_rustup [careful_intros]: "careful h (RustupState_new h pt)"
  by (auto simp: RustupState_new_def intro!: careful_intros)

lemma careful_main: "careful h (xtask_main h pt a sub)"
  by (auto simp: xtask_main_def ExpandStep_run_def KasmStep_run_def TestStep_run_def ClippyStep_run_def
      CheckStep_run_def CleanStep_run_def Let_def intro!: careful_intros split: option.split prod.split)

section \<open>Runs that succeed\<close>

definition writes :: "effect list \<Rightarrow> bool" where
  "writes l \<longleftrightarrow> (\<forall>x \<in> set l. \<exists>p c. x = Wrote p c)"

lemma bind_x_Inr: "bind_x m f l = (Inr b, l') \<longleftrightarrow> (\<exists>a l1. m l = (Inr a, l1) \<and> f a l1 = (Inr b, l'))"
  by (auto simp: bind_x_def split: prod.splits sum.splits)

lemma run_x_Inr: "run_x h c e l = (Inr u, l') \<longleftrightarrow> exec h l c = Inr True \<and> l' = l @ [Ran c]"
  by (auto simp: run_x_def Let_def split: sum.splits if_splits)

lemma no_effect:
  "unwrap_x x l = (r, l') \<Longrightarrow> l' = l" "load_config h a m l = (r1, l') \<Longrightarrow> l' = l"
  by (auto simp: unwrap_x_def load_config_def Configuration_load_def ret_x_def fail_x_def split: option.splits sum.splits)

lemma BuildStep_new_Inr:
  "BuildStep_new h m l = (Inr st, l') \<longleftrightarrow> l' = l \<and> (\<exists>c. m_arch m = Some (bs_arch st) \<and> load_config h (bs_arch st) m l = (Inr c, l) \<and>
     st = \<lparr>bs_arch = bs_arch st, bs_config = c, bs_profile = Profile_from m\<rparr>)"
  by (auto simp: BuildStep_new_def bind_x_Inr ret_x_def unwrap_x_def fail_x_def dest: no_effect(2) split: option.splits)

lemma QemuStep_new_Inr: "QemuStep_new h m l = (Inr st, l') \<Longrightarrow> l' = l \<and> qs_arch st = Arch_from m \<and> qs_profile st = Profile_from m"
  by (auto simp: QemuStep_new_def Let_def bind_x_Inr ret_x_def dest: no_effect(2))

lemma apply_link_Inr: "apply_link h c t p fl l = (Inr fl', l') \<Longrightarrow> \<exists>w. l' = l @ w \<and> writes w"
  by (auto simp: apply_link_def Let_def bind_x_Inr ret_x_def unwrap_x_def fail_x_def write_file_def writes_def
      split: option.splits if_splits)

lemma cmd_program_simps [simp]:
  "cmd_program (add_args as c) = cmd_program c" "cmd_program (current_dir d c) = cmd_program c"
  "cmd_program (Command_new p) = p" "cmd_program (exclude_other_arches a c) = cmd_program c"
  "cmd_program (apply_rustflags fl c) = cmd_program c"
  "cmd_program (fst (apply_build cf (c, fl))) = cmd_program c"
  "cmd_program (fst (apply_platform_config cf (c, fl))) = cmd_program c"
  "cmd_program (apply_to_qemu_step cf c) = cmd_program c"
  by (simp_all add: add_args_def current_dir_def Command_new_def exclude_other_arches_def apply_rustflags_def
      apply_build_def apply_platform_config_def apply_to_qemu_step_def apply_qemu_config_def Let_def
      split: Arch.split option.split)

lemma apply_to_build_step_Inr:
  assumes "apply_to_build_step h c t p cmd l = (Inr cmd', l')"
  shows "cmd_program cmd' = cmd_program cmd \<and> (\<exists>w. l' = l @ w \<and> writes w)"
proof -
  obtain cmd1 fl1 where b: "apply_build c (cmd, []) = (cmd1, fl1)" by (rule prod.exhaust)
  obtain cmd2 fl2 where pc: "apply_platform_config c (cmd1, fl1) = (cmd2, fl2)" by (rule prod.exhaust)
  have "cmd_program cmd1 = cmd_program cmd" "cmd_program cmd2 = cmd_program cmd1"
    using cmd_program_simps(6) [of c cmd "[]"] cmd_program_simps(7) [of c cmd1 fl1] by (simp_all add: b pc)
  then show ?thesis
    using assms by (auto simp: apply_to_build_step_def b pc bind_x_Inr ret_x_def dest: apply_link_Inr)
qed

lemma BuildStep_run_Inr:
  assumes "BuildStep_run h st l = (Inr u, l')"
  shows "\<exists>w c. l' = l @ w @ [Ran c] \<and> writes w \<and> cmd_program c = cargo h"
proof -
  obtain cmd l1 where b: "apply_to_build_step h (bs_config st) (Arch_target h (bs_arch st)) (bs_profile st)
      (add_args [''build''] (Command_new (cargo h))) l = (Inr cmd, l1)"
    and run: "l' = l1 @ [Ran (add_args [''-Z'', ''build-std=core,alloc''] (add_args (release_arg (bs_profile st))
      (exclude_other_arches (bs_arch st) (add_args [''--workspace'', ''--exclude'', ''xtask''] (current_dir (workspace h) cmd)))))]"
    using assms by (auto simp: BuildStep_run_def bind_x_Inr run_x_Inr Let_def)
  from apply_to_build_step_Inr [OF b] show ?thesis by (auto simp: run)
qed

lemma DistStep_run_Inr:
  assumes "DistStep_run h a p l = (Inr u, l')"
  shows "\<exists>cs. l' = l @ map Ran cs \<and> map cmd_program cs = objcopy h # (if a = Aarch64 then [''gzip''] else [])"
proof (cases a)
  case Aarch64
  then obtain c1 c2 where "l' = l @ map Ran [c1, c2]" "cmd_program c1 = objcopy h" "cmd_program c2 = ''gzip''"
    using assms by (auto simp: DistStep_run_def Let_def bind_x_Inr run_x_Inr)
  then show ?thesis using Aarch64 by (intro exI [of _ "[c1, c2]"]) simp
next
  case Riscv64
  then obtain c where "l' = l @ map Ran [c]" "cmd_program c = objcopy h"
    using assms by (auto simp: DistStep_run_def Let_def run_x_Inr)
  then show ?thesis using Riscv64 by (intro exI [of _ "[c]"]) simp
next
  case X86_64
  then obtain c where "l' = l @ map Ran [c]" "cmd_program c = objcopy h"
    using assms by (auto simp: DistStep_run_def Let_def run_x_Inr)
  then show ?thesis using X86_64 by (intro exI [of _ "[c]"]) simp
qed

lemma cmd_program_qemu: "cmd_program (qemu_options st c) = cmd_program c"
  by (cases "qs_arch st") (simp_all only: qemu_options_def Arch.case cmd_program_simps)

lemma cmd_dir_simps: "cmd_dir (current_dir d c) = Some d"
  by (simp add: current_dir_def)

lemma cmd_args_simps: "cmd_args (current_dir d c) = cmd_args c" "cmd_args (add_args as c) = cmd_args c @ as"
  by (simp_all add: current_dir_def add_args_def)

section \<open>Properties\<close>



definition example_host :: host where
  "example_host = \<lparr>env = \<lambda>_. None, read_file = \<lambda>_. Some [], path_exists = \<lambda>_. False, can_create = \<lambda>_. True,
     parse_toml = \<lambda>_. Inr \<lparr>conf_build = None, conf_config = None, conf_link = Some [(''script'', ''kernel.ld'')], conf_qemu = None\<rparr>,
     rustup_targets = None, exec = \<lambda>l c. Inr True, workspace = ''/r9''\<rparr>"

definition example_matches :: Matches where
  "example_matches = \<lparr>m_arch = Some Riscv64, m_release = True, m_config = None, m_gdb = False, m_kvm = False,
     m_json = False, m_dump_dtb = None\<rparr>"


end
