(* ===== verification/Spec2Isabelle.thy ===== *)
theory Spec2Isabelle
  imports Page_Allocator Fdt_Blob Fdt_Regs Mcs_Lock Quick_Fit_Heap Other_Ports Trap Dat Uarts_Correct Xtask_Correct
begin

text \<open>
  A verification development for r9, a Plan 9 kernel in Rust.

  \<^bold>\<open>The program.\<close>  The architecture-independent part of the kernel is the crate \<^verbatim>\<open>port\<close>; the ports
  \<^verbatim>\<open>aarch64\<close>, \<^verbatim>\<open>riscv64\<close> and \<^verbatim>\<open>x86_64\<close> boot on top of it, and \<^verbatim>\<open>xtask\<close> builds and runs the
  images.  On aarch64 the boot loader hands over a flattened devicetree.  The kernel parses it
  (\<^verbatim>\<open>port/src/fdt.rs\<close>) to find its devices, sets up a page allocator (\<^verbatim>\<open>port/src/bitmapalloc.rs\<close>,
  \<^verbatim>\<open>aarch64/src/pagealloc.rs\<close>) that at first owns only a few early pages, builds the kernel's page
  table from these pages (\<^verbatim>\<open>aarch64/src/vm.rs\<close>, with the layout from \<^verbatim>\<open>kmem.rs\<close>), switches to it,
  and then gives all memory that is not in use to the page allocator.  Shared data sits behind
  queue locks (\<^verbatim>\<open>port/src/mcslock.rs\<close>), and small objects come from a heap
  (\<^verbatim>\<open>port/src/allocator.rs\<close>).  The console (\<^verbatim>\<open>port/src/devcons.rs\<close>) prints through the UART drivers
  of the ports, and the mailbox (\<^verbatim>\<open>aarch64/src/mailbox.rs\<close>) asks the board's firmware for the size of
  the memory.

  \<^bold>\<open>Conventions.\<close>  Machine integers are words of their width.  A Rust expression that can panic has
  the type \<open>'a rust = panic + 'a\<close>: checked additions, subtractions and multiplications
  (\<open>add_c\<close>, \<open>sub_c\<close>, \<open>mul_c\<close>: a debug build), indexing, \<open>unwrap\<close> and assertions; \<open>bind_r\<close> sequences
  them.  A \<open>Result\<close> is a sum of the error and the value, an operation on \<open>&mut self\<close> returns the new
  state, also beside an error.  A loop whose end is not evident is a
  \<^theory_text>\<open>partial_function (option)\<close>, where \<open>None\<close> is a run that does not end; the theorems
  about such a loop prove that it returns.  The theory \<open>R9_Prelude\<close> holds this vocabulary, the
  collections \<open>rust_simps\<close> and \<open>unat_simps\<close> and the lemmas on words, lists and results.

  \<^bold>\<open>Memory ranges\<close> (\<open>Mem\<close>, \<open>Fdt_Data\<close>; \<^verbatim>\<open>port/src/mem.rs\<close>).  \<open>PhysAddr\<close>, \<open>VirtRange\<close> and
  \<open>PhysRange\<close> with rounding, page iteration (\<open>step_by_rounded\<close>) and conversions from
  devicetree register blocks.

  \<^bold>\<open>Page allocator\<close> (\<open>Bitmap_Alloc\<close>, \<open>Bitmap_Alloc_Correct\<close>, \<open>Page_Allocator\<close>;
  \<^verbatim>\<open>port/src/bitmapalloc.rs\<close>).  The record \<open>BitmapPageAlloc\<close> has the fields of the struct;
  \<open>allocate\<close>, \<open>deallocate\<close>, \<open>mark_allocated\<close>, \<open>mark_free\<close>, \<open>free_unused_ranges\<close> and
  \<open>usage_bytes\<close> are its operations, and the closure behind \<open>indices_from\<close> is the state
  \<open>ByteIter\<close> with the step \<open>indices_next\<close>.  The abstract state is the set of free pages
  \<open>free_pages\<close>, the invariant \<open>pa_inv\<close>.  Allocation returns a page that was free and takes
  exactly that page out of the set, fails only when the set is empty, and always returns; marking
  changes exactly the pages that the range touches; the free gaps between used ranges become
  exactly the free pages; the usage counts agree with the set.  The locale \<open>page_source\<close> is the
  interface to the clients of the allocator, interpreted as \<open>bitmap_source\<close>.  \<open>deallocate\<close>
  is right for the pages of a bitmap's first byte; for the others the theorems show which other page
  it frees, and that it panics on the address at the memory's end.

  \<^bold>\<open>Devicetree\<close> (\<open>Fdt\<close>, \<open>Fdt_Tree\<close>, \<open>Fdt_Blob\<close>, \<open>Fdt_Regs\<close>; \<^verbatim>\<open>port/src/fdt.rs\<close>).  The
  parser works on a byte list; an iterator is a lazy sequence (\<open>seq_r\<close>).  The specification is an
  abstract tree (\<open>dt_tree\<close>) and its encoding (\<open>toks\<close>, \<open>enc_tok\<close>, \<open>dtb\<close>) after the Devicetree
  Specification.  On the encoding of a well-formed tree the parser lists exactly its nodes in
  order, returns their names and property values and the parent of each node; \<open>children\<close> yields a node's
  children and then the later nodes of the same depth; \<open>find_by_path\<close> returns on every
  blob.  Values of \<open>reg\<close> and \<open>ranges\<close> round-trip, and \<open>Range_translate\<close> is the translation
  through a range.  The locale \<open>skipping\<close> states what the two loops over tokens share, interpreted
  as \<open>node_skip\<close> and \<open>nodes_skip\<close>.

  \<^bold>\<open>Queue lock\<close> (\<open>Mcs_Lock\<close>; \<^verbatim>\<open>port/src/mcslock.rs\<close>).  Each atomic operation of \<open>lock\<close> and
  \<open>unlock\<close> is a step of one thread (\<open>lock_step\<close>, \<open>unlock_step\<close>, \<open>guard_update\<close>), and \<open>mcs_step\<close>
  interleaves the threads; memory is sequentially consistent.  The invariant \<open>mcs_inv\<close> relates a
  state to the abstract queue of waiting threads.  The locale \<open>queue_lock\<close> derives mutual
  exclusion and first-come first-served order from such a relation, interpreted as \<open>mcs\<close>.  Also
  shown: only the holder changes the data, and some thread can always move on unless a weak
  compare-and-exchange fails spuriously (the parameter \<open>weak\<close>), which leaves \<open>unlock\<close> spinning.

  \<^bold>\<open>Heap\<close> (\<open>Quick_Fit\<close>, \<open>Quick_Fit_Correct\<close>, \<open>Quick_Fit_Heap\<close>; \<^verbatim>\<open>port/src/allocator.rs\<close>).  The
  bump allocator, the quick-fit allocator with its free lists threaded through an explicit store
  of headers, and the global allocator on top.  The locale \<open>block_heap\<close> derives from the contract
  of one allocation and one release that after any sequence of requests the live blocks are
  pairwise disjoint; it is interpreted for the quick lists (\<open>quick_heap\<close>) and for the global
  allocator (\<open>global_heap\<close>).  Size classes, alignment and the bounds of the bump allocator are
  exact; for requests above the largest class the theorems record what the code does instead.

  \<^bold>\<open>Kernel layout and registers\<close> (\<open>Kmem\<close>, \<open>Bit_Fields\<close>, \<open>Registers\<close>; \<^verbatim>\<open>aarch64/src/kmem.rs\<close>,
  \<^verbatim>\<open>param.rs\<close>, \<^verbatim>\<open>pagealloc.rs\<close>, \<^verbatim>\<open>registers.rs\<close>).  The addresses of the linker's symbols are the
  argument \<open>LinkerSymbols\<close>, the value of a system register is an argument, and a \<open>bitstruct!\<close> field
  is the bits its declaration names.

  \<^bold>\<open>Virtual memory\<close> (\<open>Vm\<close>, \<open>Vm_Walk\<close>, \<open>Vm_Tree\<close>, \<open>Vm_Map\<close>, \<open>Vm_Correct\<close>, \<open>Vm_Boot\<close>, \<open>Vm_Init\<close>,
  \<open>Vm_Init_Correct\<close>; \<^verbatim>\<open>aarch64/src/vm.rs\<close>).  The state \<open>Vm\<close> holds the pages of physical memory, the
  register \<open>ttbr1_el1\<close> and the page allocator.  The code reaches a table through a recursive virtual
  address, so the hardware's translation is the argument \<open>mmu\<close>, with the hypothesis
  \<open>walks_tables\<close>: where the architecture's table walk (\<open>Vm_Walk\<close>) gives a page, so does \<open>mmu\<close>;
  the walk itself is an instance.  The invariant \<open>vm_inv\<close> says that the tables form a tree whose
  pages are not free in the allocator.  \<open>map_to\<close> maps the page and changes the translation of no
  other address, keeps the invariant and restores the recursive slot, or fails with the error of
  the failing step, which happens exactly when a block is in the way or the pages for the missing
  tables (\<open>needs\<close>) run out; \<open>map_phys_range\<close> maps every page of a range.  \<open>vm_init\<close>, for the layout of
  the linker script, maps exactly the kernel's memory map (\<open>kernel_map\<close>) and leaves exactly the pages
  outside it free, among them the page tables themselves.  The attributes of the kernel's entries
  are what the theorem says of them.

  \<^bold>\<open>Output\<close> (\<open>Fmt\<close>, \<open>Debug_Text\<close>, \<open>Print_Tables\<close>; the \<open>Debug\<close> and \<open>Display\<close> instances and the printing of
  page tables).  \<open>Fmt\<close> is what the kernel uses of Rust's formatting, with lemmas that numbers and the
  lines of a pretty-printed structure can be read back.  Printing the tables in use follows their
  tree, each child reached through the recursive address computed for it.

  \<^bold>\<open>Traps and context switches\<close> (\<open>Trap\<close>, \<open>Swtch\<close>; \<^verbatim>\<open>aarch64/src/trap.rs\<close>, \<^verbatim>\<open>trap.S\<close>,
  \<^verbatim>\<open>x86_64/src/proc.rs\<close>).  Assembly is a list of instructions executed over registers and a memory of
  words.  A trap's frame holds the interrupted registers where the declaration of \<open>TrapFrame\<close> says, its
  exit restores them, and the report determines them; a context switch resumes the caller with the
  registers that a function has to keep.

  \<^bold>\<open>Main programs\<close> (\<open>Boot_Main\<close>, \<open>Other_Ports\<close>; \<^verbatim>\<open>main.rs\<close> of the three ports, \<^verbatim>\<open>riscv64/src/sbi.rs\<close>,
  \<^verbatim>\<open>runtime.rs\<close>).  \<open>main9\<close> of the aarch64 port calls every component above.  The locale \<open>board\<close> extends
  \<open>uart\<close> by a firmware that answers; it is interpreted as \<open>real_board\<close> for the largest set of
  states of the devices that keeps its laws (\<open>board_ready\<close>).  From its first line to its final loop
  \<open>main9\<close> then does not panic, and the console receives exactly the text that the theorem spells out.

  \<^bold>\<open>Shared types\<close> (\<open>Dat\<close>; \<^verbatim>\<open>port/src/dat.rs\<close>).

  \<^bold>\<open>Devices\<close> (\<open>Mmio\<close>, \<open>Console\<close>, \<open>Mailbox\<close>, \<open>Uarts\<close>, \<open>Uarts_Correct\<close>; \<^verbatim>\<open>aarch64/src/io.rs\<close>,
  \<^verbatim>\<open>mailbox.rs\<close>, \<^verbatim>\<open>uartmini.rs\<close>, \<^verbatim>\<open>uartpl011.rs\<close>, the panic handler in \<^verbatim>\<open>runtime.rs\<close>,
  \<^verbatim>\<open>port/src/devcons.rs\<close>, the 16550 drivers and \<^verbatim>\<open>devcons.rs\<close> of the other ports).  The hardware is
  the argument \<open>bus\<close>; an action threads the devices' state and the list of stores made, panics, or
  never returns.  The locale \<open>uart\<close> is the contract of the trait \<open>Uart\<close>: a byte is sent after those
  sent before.  It is interpreted for the four drivers (\<open>mini_uart\<close>, \<open>pl011_uart\<close>,
  \<open>ns16550_uart\<close>, \<open>pc_uart\<close>), and its lemmas give what each console sends.  Where a driver waits,
  the hypothesis is that the device becomes ready (\<open>live\<close>) or that the firmware answers
  (\<open>firmware_answers\<close>); the wait ends exactly then.

  \<^bold>\<open>Build tool\<close> (\<open>Xtask_Config\<close>, \<open>Xtask\<close>, \<open>Xtask_Correct\<close>; \<^verbatim>\<open>xtask/src/config.rs\<close>, \<^verbatim>\<open>main.rs\<close>).  The
  configuration file as records, the arguments that it adds to the commands, and the steps of every
  subcommand.  The machine the tool runs on is the argument \<open>host\<close>; the files written and the
  commands run are recorded in order.  Nothing runs after a command that failed, and \<open>qemu\<close> runs its
  steps in order.

  \<^bold>\<open>Bounds.\<close>  The only fuel is that of \<open>find_by_path\<close>, the number of the path's elements, which is
  shown to be enough.  The devicetree's offsets are natural numbers, since they come from
  32-bit fields and list lengths; slicing out of bounds and a negative depth panic as in the code.

  \<^bold>\<open>Not modelled.\<close>  The contents of heap blocks; weak memory orderings; TLB invalidation, which has
  no effect on tables that are read as they are; delays; the start-up assembly of the ports; the
  formatting of a panic message; the trait \<open>Dev\<close>, which nothing implements; the parsers of the build
  tool's command line and of TOML, which are libraries.
\<close>

end
